(* ===== verification/Prelude.thy ===== *)
theory Prelude
  imports Main
begin

text \<open>
  Shared vocabulary of the development: the automation collections, the generic lemmas on
  lists of table rows (keyed look-up, conditional update, deletion), and the small text
  functions (decimal rendering, splitting at a separator) that several components use.
  Nothing here models a particular source file.
\<close>

section \<open>Automation collections\<close>

named_theorems row_simps \<open>rewriting of keyed look-ups in updated tables\<close>
named_theorems frame_simps \<open>which part of the world an operation leaves alone\<close>
named_theorems invar_intros \<open>operations that keep the database constraints\<close>

section \<open>Tables as lists of rows\<close>

text \<open>
  A table is a list of rows. \<open>lookup_by key k rows\<close> is the row with the given key,
  \<open>upd_rows P f rows\<close> is SQL's conditional update, \<open>affected P rows\<close> the number of
  rows such an update touches, \<open>del_rows P rows\<close> SQL's conditional delete.
\<close>

definition lookup_by :: "('r \<Rightarrow> 'k) \<Rightarrow> 'k \<Rightarrow> 'r list \<Rightarrow> 'r option" where
  "lookup_by key k rows = List.find (\<lambda>r. key r = k) rows"

definition upd_rows :: "('r \<Rightarrow> bool) \<Rightarrow> ('r \<Rightarrow> 'r) \<Rightarrow> 'r list \<Rightarrow> 'r list" where
  "upd_rows P f rows = map (\<lambda>r. if P r then f r else r) rows"

definition affected :: "('r \<Rightarrow> bool) \<Rightarrow> 'r list \<Rightarrow> nat" where
  "affected P rows = length (filter P rows)"

definition del_rows :: "('r \<Rightarrow> bool) \<Rightarrow> 'r list \<Rightarrow> 'r list" where
  "del_rows P rows = filter (\<lambda>r. \<not> P r) rows"

lemma lookup_by_simps [simp]:
  "lookup_by key k [] = None"
  "lookup_by key k (r # rows) = (if key r = k then Some r else lookup_by key k rows)"
  by (simp_all add: lookup_by_def)

lemma upd_rows_simps [simp]:
  "upd_rows P f [] = []"
  "upd_rows P f (r # rows) = (if P r then f r else r) # upd_rows P f rows"
  by (simp_all add: upd_rows_def)

lemma length_upd_rows [simp]: "length (upd_rows P f rows) = length rows"
  by (simp add: upd_rows_def)

lemma lookup_by_append [row_simps]:
  "lookup_by key k (xs @ ys) =
     (case lookup_by key k xs of None \<Rightarrow> lookup_by key k ys | Some r \<Rightarrow> Some r)"
  by (induction xs) auto

lemma lookup_by_SomeD: "lookup_by key k rows = Some r \<Longrightarrow> r \<in> set rows \<and> key r = k"
  by (induction rows) (auto split: if_splits)

lemma lookup_by_None_iff: "lookup_by key k rows = None \<longleftrightarrow> k \<notin> key ` set rows"
  by (induction rows) auto

lemma lookup_by_eq_Some:
  "distinct (map key rows) \<Longrightarrow> r \<in> set rows \<Longrightarrow> key r = k \<Longrightarrow> lookup_by key k rows = Some r"
  by (induction rows) force+

lemma affected_0_iff: "affected P rows = 0 \<longleftrightarrow> (\<forall>r\<in>set rows. \<not> P r)"
  by (auto simp: affected_def filter_empty_conv)

lemma affected_pos_iff: "0 < affected P rows \<longleftrightarrow> (\<exists>r\<in>set rows. P r)"
  using affected_0_iff [of P rows] by auto

lemma upd_rows_none: "(\<forall>r\<in>set rows. \<not> P r) \<Longrightarrow> upd_rows P f rows = rows"
  by (induction rows) auto

lemma set_upd_rows: "set (upd_rows P f rows) = f ` {r \<in> set rows. P r} \<union> {r \<in> set rows. \<not> P r}"
  by (auto simp: upd_rows_def)

lemma in_upd_rowsE:
  assumes "r \<in> set (upd_rows P f rows)"
  obtains (hit) r' where "r' \<in> set rows" "P r'" "r = f r'" | (miss) "r \<in> set rows" "\<not> P r"
  using assms by (auto simp: set_upd_rows)

lemma upd_rows_hitD:
  assumes "r \<in> set (upd_rows (\<lambda>r. key r = k) f rows)" "key r = k"
  shows "\<exists>x. r = f x"
  using assms by (auto elim: in_upd_rowsE)

lemma lookup_by_upd_other [row_simps]:
  assumes "\<And>r. key (f r) = key r" and "\<And>r. P r \<Longrightarrow> key r \<noteq> k"
  shows "lookup_by key k (upd_rows P f rows) = lookup_by key k rows"
  using assms by (induction rows) auto

lemma lookup_by_upd_hit [row_simps]:
  assumes "\<And>r. key (f r) = key r"
  shows "lookup_by key k (upd_rows (\<lambda>r. key r = k) f rows) = map_option f (lookup_by key k rows)"
  using assms by (induction rows) auto

lemma lookup_by_upd_map:
  assumes "\<And>r. key (f r) = key r"
  shows "lookup_by key k (upd_rows P f rows) =
     map_option (\<lambda>r. if P r then f r else r) (lookup_by key k rows)"
  using assms by (induction rows) auto

lemma map_key_upd_rows [row_simps]:
  "(\<And>r. P r \<Longrightarrow> key (f r) = key r) \<Longrightarrow> map key (upd_rows P f rows) = map key rows"
  by (induction rows) auto

lemma distinct_map_del_rows: "distinct (map key rows) \<Longrightarrow> distinct (map key (del_rows P rows))"
  by (auto simp: del_rows_def intro: distinct_map_filter)

lemma set_del_rows [simp]: "set (del_rows P rows) = {r \<in> set rows. \<not> P r}"
  by (auto simp: del_rows_def)

lemma distinct_map_snoc:
  "distinct (map key rows) \<Longrightarrow> key r \<notin> key ` set rows \<Longrightarrow> distinct (map key (rows @ [r]))"
  by auto

text \<open>
  Giving the only row that satisfies \<open>P\<close> a key no other row has keeps the keys distinct.
\<close>

lemma distinct_map_upd_fresh:
  assumes "distinct (map key rows)"
    and "\<And>x y. x \<in> set rows \<Longrightarrow> y \<in> set rows \<Longrightarrow> P x \<Longrightarrow> P y \<Longrightarrow> x = y"
    and "\<And>x. key (f x) = k" and "k \<notin> key ` {r \<in> set rows. \<not> P r}"
  shows "distinct (map key (upd_rows P f rows))"
  using assms(1,2,4)
proof (induction rows)
  case (Cons r rows)
  have IH: "distinct (map key (upd_rows P f rows))"
    using Cons.prems by (intro Cons.IH) auto
  show ?case
  proof (cases "P r")
    case True
    have "\<forall>x\<in>set rows. \<not> P x"
    proof (intro ballI notI)
      fix x assume "x \<in> set rows" "P x"
      then have "x = r" using Cons.prems(2) [of x r] True by simp
      with \<open>x \<in> set rows\<close> Cons.prems(1) show False by auto
    qed
    then show ?thesis
      using True Cons.prems(1,3) assms(3) by (auto simp: upd_rows_none)
  next
    case False
    then have "key r \<notin> key ` set (upd_rows P f rows)"
      using Cons.prems(1,3) assms(3) by (auto elim!: in_upd_rowsE)
    with False IH show ?thesis by simp
  qed
qed simp

lemma lookup_by_del_rows [row_simps]:
  "lookup_by key k (del_rows (\<lambda>r. key r = k) rows) = None"
  by (auto simp: lookup_by_None_iff)

lemma lookup_by_sort_key:
  assumes "distinct (map key rows)"
  shows "lookup_by key k (sort_key rank rows) = lookup_by key k rows"
proof (cases "lookup_by key k rows")
  case None
  then have "lookup_by key k (sort_key rank rows) = None" by (simp add: lookup_by_None_iff)
  with None show ?thesis by simp
next
  case (Some r)
  then have "r \<in> set (sort_key rank rows)" "key r = k"
    using lookup_by_SomeD [OF Some] by auto
  moreover have "distinct (map key (sort_key rank rows))"
    using assms by (simp add: distinct_map)
  ultimately show ?thesis using Some by (simp add: lookup_by_eq_Some)
qed

text \<open>
  Rewriting one row of a table by an update of the form used throughout the stores: the
  row with key \<open>k\<close> changes by \<open>f\<close>, every other row stays.
\<close>

lemma upd_rows_one:
  assumes "distinct (map key rows)" "r \<in> set rows" "r' \<in> set (upd_rows (\<lambda>x. key x = key r) f rows)"
    and "\<And>x. key (f x) = key x"
  shows "r' = f r \<or> (r' \<in> set rows \<and> key r' \<noteq> key r)"
  using assms(3)
proof (cases rule: in_upd_rowsE)
  case (hit x)
  then have "x = r" using assms(1,2) by (auto simp: distinct_map inj_on_def)
  with hit show ?thesis by simp
qed auto

section \<open>Text\<close>

text \<open>Go's \<open>%d\<close> on a non-negative integer.\<close>

fun dec :: "nat \<Rightarrow> string" where
  "dec n = (if n < 10 then [char_of (48 + n)] else dec (n div 10) @ [char_of (48 + n mod 10)])"

declare dec.simps [simp del]

text \<open>
  \<open>split_on c s\<close> cuts \<open>s\<close> at every occurrence of the one-character separator \<open>c\<close>, as
  Go's \<open>strings.Split\<close> does: the result has one part more than there are separators.
\<close>

fun split_on :: "char \<Rightarrow> string \<Rightarrow> string list" where
  "split_on c [] = [[]]"
| "split_on c (x # xs) =
     (if x = c then [] # split_on c xs
      else (case split_on c xs of [] \<Rightarrow> [[x]] | p # ps \<Rightarrow> (x # p) # ps))"

lemma split_on_ne [simp]: "split_on c s \<noteq> []"
  by (cases s) (auto split: list.splits)

lemma split_on_free: "c \<notin> set s \<Longrightarrow> split_on c s = [s]"
  by (induction s) auto

lemma split_on_append: "c \<notin> set a \<Longrightarrow> split_on c (a @ c # b) = a # split_on c b"
  by (induction a) auto

lemma split_on_parts: "p \<in> set (split_on c s) \<Longrightarrow> c \<notin> set p"
  by (induction s arbitrary: p) (auto split: list.splits if_splits)

text \<open>Joining the parts with the separator gives the text back.\<close>

fun join_with :: "char \<Rightarrow> string list \<Rightarrow> string" where
  "join_with c [] = []"
| "join_with c [p] = p"
| "join_with c (p # q # ps) = p @ c # join_with c (q # ps)"

lemma join_with_Cons: "ps \<noteq> [] \<Longrightarrow> join_with c (p # ps) = p @ c # join_with c ps"
  by (cases ps) auto

lemma join_split_on: "join_with c (split_on c s) = s"
proof (induction s)
  case (Cons x xs)
  show ?case
  proof (cases "split_on c xs")
    case (Cons p ps)
    with Cons.IH show ?thesis by (cases ps) (auto simp: join_with_Cons)
  qed simp
qed simp

end
