(* ===== verification/Email_Pattern.thy ===== *)
theory Email_Pattern
  imports Prelude
begin

text \<open>
  \<open>ValidateEmail\<close> (\<open>internal/subscription/service.go\<close>) is a match against a regular
  expression. Regular expressions are modelled with the constructs the pattern uses, with
  their language as an inductive relation and an executable matcher by derivatives; the two
  agree, and from that follows the exact set of accepted addresses.
\<close>

section \<open>Regular expressions\<close>

datatype rex =
    Fail
  | Eps
  | Class "(char \<times> char) list"
  | Seq rex rex
  | Alt rex rex
  | Star rex

definition in_class :: "(char \<times> char) list \<Rightarrow> char \<Rightarrow> bool" where
  "in_class rs c \<longleftrightarrow>
     (\<exists>(a, b)\<in>set rs. (of_char a :: nat) \<le> of_char c \<and> (of_char c :: nat) \<le> of_char b)"

inductive denotes :: "rex \<Rightarrow> string \<Rightarrow> bool" where
  eps: "denotes Eps []"
| cls: "in_class rs c \<Longrightarrow> denotes (Class rs) [c]"
| seq: "denotes r s \<Longrightarrow> denotes q t \<Longrightarrow> denotes (Seq r q) (s @ t)"
| alt_left: "denotes r s \<Longrightarrow> denotes (Alt r q) s"
| alt_right: "denotes q s \<Longrightarrow> denotes (Alt r q) s"
| star_stop: "denotes (Star r) []"
| star_more: "denotes r s \<Longrightarrow> denotes (Star r) t \<Longrightarrow> denotes (Star r) (s @ t)"

inductive_simps denotes_simps:
  "denotes Fail s" "denotes Eps s" "denotes (Class rs) s" "denotes (Seq r q) s" "denotes (Alt r q) s"

text \<open>\<open>r+\<close> and \<open>r{2,}\<close>.\<close>

definition Plus :: "rex \<Rightarrow> rex" where
  "Plus r = Seq r (Star r)"

definition AtLeast2 :: "rex \<Rightarrow> rex" where
  "AtLeast2 r = Seq r (Plus r)"

definition Lit :: "char \<Rightarrow> rex" where
  "Lit c = Class [(c, c)]"

section \<open>Matching by derivatives\<close>

fun nullable :: "rex \<Rightarrow> bool" where
  "nullable Fail = False"
| "nullable Eps = True"
| "nullable (Class rs) = False"
| "nullable (Seq r q) = (nullable r \<and> nullable q)"
| "nullable (Alt r q) = (nullable r \<or> nullable q)"
| "nullable (Star r) = True"

fun deriv :: "char \<Rightarrow> rex \<Rightarrow> rex" where
  "deriv c Fail = Fail"
| "deriv c Eps = Fail"
| "deriv c (Class rs) = (if in_class rs c then Eps else Fail)"
| "deriv c (Seq r q) =
     (if nullable r then Alt (Seq (deriv c r) q) (deriv c q) else Seq (deriv c r) q)"
| "deriv c (Alt r q) = Alt (deriv c r) (deriv c q)"
| "deriv c (Star r) = Seq (deriv c r) (Star r)"

definition MatchString :: "rex \<Rightarrow> string \<Rightarrow> bool" where
  "MatchString r s = nullable (fold deriv s r)"

lemma nullable_denotes: "nullable r \<longleftrightarrow> denotes r []"
  by (induction r) (auto simp: denotes_simps intro: denotes.star_stop)

lemma denotes_Star_Cons:
  assumes "denotes (Star r) w" "w = c # s"
  shows "\<exists>t u. s = t @ u \<and> denotes r (c # t) \<and> denotes (Star r) u"
  using assms
proof (induction "Star r" w rule: denotes.induct)
  case (star_more s' t')
  then show ?case by (cases s') auto
qed simp

lemma denotes_deriv: "denotes (deriv c r) s \<longleftrightarrow> denotes r (c # s)"
proof (induction r arbitrary: s)
  case (Seq r q)
  show ?case
    using Seq by (auto simp: denotes_simps nullable_denotes Cons_eq_append_conv)
next
  case (Star r)
  show ?case
  proof
    assume "denotes (deriv c (Star r)) s"
    then obtain t u where "s = t @ u" "denotes r (c # t)" "denotes (Star r) u"
      using Star by (auto simp: denotes_simps)
    then show "denotes (Star r) (c # s)" using denotes.star_more [of r "c # t" u] by simp
  next
    assume "denotes (Star r) (c # s)"
    from denotes_Star_Cons [OF this refl] show "denotes (deriv c (Star r)) s"
      using Star by (auto simp: denotes_simps)
  qed
qed (auto simp: denotes_simps)

lemma MatchString_denotes: "MatchString r s \<longleftrightarrow> denotes r s"
  unfolding MatchString_def
  by (induction s arbitrary: r) (auto simp: nullable_denotes denotes_deriv)

section \<open>The e-mail pattern\<close>

definition letters :: "(char \<times> char) list" where
  "letters = [(CHR ''a'', CHR ''z''), (CHR ''A'', CHR ''Z'')]"

definition digits :: "(char \<times> char) list" where
  "digits = [(CHR ''0'', CHR ''9'')]"

definition one :: "char \<Rightarrow> char \<times> char" where
  "one c = (c, c)"

definition local_class :: "(char \<times> char) list" where
  "local_class = letters @ digits @ map one ''._%+-''"

definition domain_class :: "(char \<times> char) list" where
  "domain_class = letters @ digits @ map one ''.-''"

definition emailRegex :: rex where
  "emailRegex =
     Seq (Plus (Class local_class)) (Seq (Lit (CHR ''@''))
       (Seq (Plus (Class domain_class)) (Seq (Lit (CHR ''.'')) (AtLeast2 (Class letters)))))"

definition ValidateEmail :: "string \<Rightarrow> bool" where
  "ValidateEmail email = MatchString emailRegex email"

lemma denotes_Star_Class: "denotes (Star (Class rs)) s \<longleftrightarrow> (\<forall>c\<in>set s. in_class rs c)"
proof
  assume "denotes (Star (Class rs)) s"
  then show "\<forall>c\<in>set s. in_class rs c"
    by (induction "Star (Class rs)" s rule: denotes.induct) (auto simp: denotes_simps)
next
  show "\<forall>c\<in>set s. in_class rs c \<Longrightarrow> denotes (Star (Class rs)) s"
  proof (induction s)
    case (Cons c s)
    then show ?case using denotes.star_more [OF denotes.cls [of rs c], of s] by simp
  qed (rule denotes.star_stop)
qed

lemma denotes_Class_Seq:
  "denotes (Seq (Class rs) q) s \<longleftrightarrow> (\<exists>c t. s = c # t \<and> in_class rs c \<and> denotes q t)"
proof
  assume "\<exists>c t. s = c # t \<and> in_class rs c \<and> denotes q t"
  then obtain c t where "s = [c] @ t" "in_class rs c" "denotes q t" by auto
  then show "denotes (Seq (Class rs) q) s" by (metis denotes.seq denotes.cls)
qed (auto simp: denotes_simps)

lemma denotes_Plus_Class: "denotes (Plus (Class rs)) s \<longleftrightarrow> s \<noteq> [] \<and> (\<forall>c\<in>set s. in_class rs c)"
  by (cases s) (auto simp: Plus_def denotes_Class_Seq denotes_Star_Class)

lemma denotes_AtLeast2_Class:
  "denotes (AtLeast2 (Class rs)) s \<longleftrightarrow> 2 \<le> length s \<and> (\<forall>c\<in>set s. in_class rs c)"
proof (cases s)
  case (Cons c t)
  then show ?thesis
    by (cases t) (auto simp: AtLeast2_def denotes_Class_Seq denotes_Plus_Class)
qed (auto simp: AtLeast2_def denotes_Class_Seq)

lemma denotes_Lit: "denotes (Lit c) s \<longleftrightarrow> s = [c]"
proof -
  have "in_class [(c, c)] x \<longleftrightarrow> x = c" for x
    by (auto simp: in_class_def)
  then show ?thesis by (auto simp: Lit_def denotes_simps)
qed

text \<open>The accepted addresses: a local part, \<open>@\<close>, a host, a dot, a top-level domain.\<close>

definition email_shape :: "string \<Rightarrow> string \<Rightarrow> string \<Rightarrow> bool" where
  "email_shape loc host tld \<longleftrightarrow>
     loc \<noteq> [] \<and> host \<noteq> [] \<and> 2 \<le> length tld \<and>
     list_all (in_class local_class) loc \<and> list_all (in_class domain_class) host \<and>
     list_all (in_class letters) tld"

lemma ValidateEmail_shape:
  "ValidateEmail email \<longleftrightarrow>
     (\<exists>loc host tld. email = loc @ ''@'' @ host @ ''.'' @ tld \<and> email_shape loc host tld)"
  unfolding ValidateEmail_def MatchString_denotes emailRegex_def email_shape_def list_all_iff
  by (subst denotes_simps, simp only: denotes_simps(4) denotes_Plus_Class denotes_Lit denotes_AtLeast2_Class)
    blast

text \<open>An accepted address is free of the characters that would break a mail header or a URL path.\<close>

lemma in_class_safe:
  assumes "in_class (letters @ digits @ map one ''._%+-'') c \<or> in_class domain_class c \<or> in_class letters c"
  shows "c \<notin> {CHR ''@'', CHR ''/'', CHR 0x0A, CHR 0x0D, CHR '' '', CHR '','', CHR ''<'', CHR ''>''}"
  using assms
  by (auto simp: in_class_def letters_def digits_def domain_class_def one_def)

lemma ValidateEmail_safe:
  assumes "ValidateEmail email"
  shows "count_list email (CHR ''@'') = 1 \<and>
     set email \<inter> {CHR ''/'', CHR 0x0A, CHR 0x0D, CHR '' '', CHR '','', CHR ''<'', CHR ''>''} = {}"
proof -
  obtain loc host tld where e: "email = loc @ ''@'' @ host @ ''.'' @ tld" and sh: "email_shape loc host tld"
    using assms by (auto simp: ValidateEmail_shape)
  let ?bad = "{CHR ''@'', CHR ''/'', CHR 0x0A, CHR 0x0D, CHR '' '', CHR '','', CHR ''<'', CHR ''>''}"
  have "c \<notin> ?bad" if "c \<in> set loc \<union> set host \<union> set tld" for c
    using sh that by (intro in_class_safe) (auto simp: email_shape_def list_all_iff local_class_def)
  then have "set loc \<inter> ?bad = {}" "set host \<inter> ?bad = {}" "set tld \<inter> ?bad = {}" by blast+
  then show ?thesis by (auto simp: e count_list_0_iff)
qed

end
