(* ===== verification/Go_Errors.thy ===== *)
theory Go_Errors
  imports Prelude
begin

text \<open>
  Errors as values. The domain errors of \<open>internal/subscription/errors.go\<close>, the way the
  code wraps an error (\<open>fmt.Errorf\<close> with one or two \<open>%w\<close> verbs), the message an error
  renders to, and \<open>KindOf\<close>, which finds the nearest domain error of a chain and is what the
  HTTP layer turns into a status code.
\<close>

section \<open>Domain errors\<close>

datatype ErrKind = KindInternal | KindInvalid | KindNotFound | KindConflict

record DomainError =
  Kind :: ErrKind
  Message :: string

definition ErrInvalidEmail :: DomainError where
  "ErrInvalidEmail = \<lparr>Kind = KindInvalid, Message = ''invalid email address''\<rparr>"

definition ErrInvalidRepoFormat :: DomainError where
  "ErrInvalidRepoFormat =
     \<lparr>Kind = KindInvalid, Message = ''invalid repository format, expected owner/repo''\<rparr>"

definition ErrRepoNotFound :: DomainError where
  "ErrRepoNotFound = \<lparr>Kind = KindNotFound, Message = ''repository not found on GitHub''\<rparr>"

definition ErrAlreadySubscribed :: DomainError where
  "ErrAlreadySubscribed =
     \<lparr>Kind = KindConflict, Message = ''email is already subscribed to this repository''\<rparr>"

definition ErrTokenNotFound :: DomainError where
  "ErrTokenNotFound = \<lparr>Kind = KindNotFound, Message = ''subscription not found''\<rparr>"

lemmas sentinel_defs = ErrInvalidEmail_def ErrInvalidRepoFormat_def ErrRepoNotFound_def
  ErrAlreadySubscribed_def ErrTokenNotFound_def

section \<open>Error chains\<close>

text \<open>
  A Go error is a domain error, an error with a bare message (a driver error,
  \<open>errors.New\<close>, \<open>fmt.Errorf\<close> without \<open>%w\<close>), a wrapped error \<open>fmt.Errorf("p: %w", e)\<close>,
  or the two-cause form \<open>fmt.Errorf("%w: %w", e1, e2)\<close>.
\<close>

datatype gerr =
    Domain DomainError
  | ErrorString string
  | Errorf string gerr
  | Errorf2 gerr gerr

text \<open>The rendered message (\<open>err.Error()\<close>).\<close>

fun Error :: "gerr \<Rightarrow> string" where
  "Error (Domain d) = Message d"
| "Error (ErrorString m) = m"
| "Error (Errorf p e) = p @ '': '' @ Error e"
| "Error (Errorf2 e1 e2) = Error e1 @ '': '' @ Error e2"

text \<open>
  \<open>errors.As\<close> with a \<open>*DomainError\<close> target: the first domain error met in a depth-first
  walk of the chain.
\<close>

fun errors_As :: "gerr \<Rightarrow> DomainError option" where
  "errors_As (Domain d) = Some d"
| "errors_As (ErrorString m) = None"
| "errors_As (Errorf p e) = errors_As e"
| "errors_As (Errorf2 e1 e2) =
     (case errors_As e1 of Some d \<Rightarrow> Some d | None \<Rightarrow> errors_As e2)"

definition KindOf :: "gerr \<Rightarrow> ErrKind" where
  "KindOf err = (case errors_As err of Some de \<Rightarrow> Kind de | None \<Rightarrow> KindInternal)"

text \<open>An infrastructure error carries no domain error anywhere in its chain.\<close>

definition infra :: "gerr \<Rightarrow> bool" where
  "infra e \<longleftrightarrow> errors_As e = None"

lemma infra_simps [simp]:
  "infra (ErrorString m)"
  "infra (Errorf p e) \<longleftrightarrow> infra e"
  "infra (Errorf2 e1 e2) \<longleftrightarrow> infra e1 \<and> infra e2"
  "\<not> infra (Domain d)"
  by (auto simp: infra_def split: option.splits)

lemma KindOf_simps [simp]:
  "KindOf (Domain d) = Kind d"
  "KindOf (ErrorString m) = KindInternal"
  "KindOf (Errorf p e) = KindOf e"
  by (simp_all add: KindOf_def)

lemma KindOf_infra: "infra e \<Longrightarrow> KindOf e = KindInternal"
  by (simp add: infra_def KindOf_def)

lemma KindOf_Errorf2: "KindOf (Errorf2 (Domain d) e) = Kind d"
  by (simp add: KindOf_def)

end
