(* ===== verification/Repo_Spec.thy ===== *)
theory Repo_Spec
  imports Go_Errors
begin

text \<open>
  The shared kernel \<open>internal/repospec/repospec.go\<close>: the value object \<open>RepoSpec\<close>, its
  parser and its printer. The theorems say which texts are accepted, what they parse to,
  and that parsing and printing are inverse to each other.
\<close>

record RepoSpec =
  Owner :: string
  Name :: string

definition repospec_ErrInvalidRepoFormat :: gerr where
  "repospec_ErrInvalidRepoFormat = ErrorString ''invalid repository format, expected owner/repo''"

definition ParseRepoSpec :: "string \<Rightarrow> gerr + RepoSpec" where
  "ParseRepoSpec s =
     (let parts = split_on (CHR ''/'') s in
      if length parts \<noteq> 2 \<or> parts ! 0 = [] \<or> parts ! 1 = []
      then Inl repospec_ErrInvalidRepoFormat
      else Inr \<lparr>Owner = parts ! 0, Name = parts ! 1\<rparr>)"

definition RepoSpec_String :: "RepoSpec \<Rightarrow> string" where
  "RepoSpec_String r = Owner r @ ''/'' @ Name r"

text \<open>A well-formed spec: two non-empty segments without a slash.\<close>

definition wf_spec :: "RepoSpec \<Rightarrow> bool" where
  "wf_spec r \<longleftrightarrow> Owner r \<noteq> [] \<and> Name r \<noteq> [] \<and>
     CHR ''/'' \<notin> set (Owner r) \<and> CHR ''/'' \<notin> set (Name r)"

lemma ParseRepoSpec_print: "wf_spec r \<Longrightarrow> ParseRepoSpec (RepoSpec_String r) = Inr r"
  by (simp add: ParseRepoSpec_def RepoSpec_String_def wf_spec_def Let_def split_on_append split_on_free)

lemma ParseRepoSpec_InrD:
  assumes "ParseRepoSpec s = Inr r"
  shows "RepoSpec_String r = s \<and> wf_spec r"
proof -
  obtain a b where parts: "split_on (CHR ''/'') s = [a, b]" and ne: "a \<noteq> []" "b \<noteq> []"
    and r: "r = \<lparr>Owner = a, Name = b\<rparr>"
    using assms by (auto simp: ParseRepoSpec_def Let_def length_Suc_conv numeral_2_eq_2 split: if_splits)
  have "join_with (CHR ''/'') [a, b] = s"
    using join_split_on [of "CHR ''/''" s] by (simp add: parts)
  moreover have "CHR ''/'' \<notin> set a" "CHR ''/'' \<notin> set b"
    using split_on_parts [of _ "CHR ''/''" s] by (auto simp: parts)
  ultimately show ?thesis using ne by (simp add: r RepoSpec_String_def wf_spec_def)
qed

lemma ParseRepoSpec_InlD: "ParseRepoSpec s = Inl e \<Longrightarrow> e = repospec_ErrInvalidRepoFormat"
  by (auto simp: ParseRepoSpec_def Let_def split: if_splits)

end
