(* ===== verification/Go_Stdlib.thy ===== *)
theory Go_Stdlib
  imports Go_Errors "HOL-Library.Word"
begin

text \<open>
  The parts of Go's standard library the program relies on: \<open>path.Base\<close>, the character
  count behind PostgreSQL's \<open>VARCHAR(n)\<close>, 64-bit durations, and JSON documents as
  \<open>encoding/json\<close> reads them into a struct of strings.
\<close>

section \<open>path.Base\<close>

text \<open>
  \<open>path.Base(p)\<close>: \<open>"."\<close> for the empty path; otherwise trailing slashes are removed and the
  part after the last slash is returned, \<open>"/"\<close> if nothing is left.
\<close>

definition strip_slashes :: "string \<Rightarrow> string" where
  "strip_slashes p = rev (dropWhile (\<lambda>c. c = CHR ''/'') (rev p))"

definition after_last_slash :: "string \<Rightarrow> string" where
  "after_last_slash p = rev (takeWhile (\<lambda>c. c \<noteq> CHR ''/'') (rev p))"

definition path_Base :: "string \<Rightarrow> string" where
  "path_Base p =
     (if p = [] then ''.''
      else (let b = after_last_slash (strip_slashes p) in if b = [] then ''/'' else b))"

lemma path_Base_segment:
  assumes "seg \<noteq> []" and "CHR ''/'' \<notin> set seg"
  shows "path_Base (dir @ CHR ''/'' # seg) = seg"
proof -
  have "strip_slashes (dir @ CHR ''/'' # seg) = dir @ CHR ''/'' # seg"
    using assms by (cases seg rule: rev_cases) (auto simp: strip_slashes_def)
  moreover have "after_last_slash (dir @ CHR ''/'' # seg) = seg"
  proof -
    have tw: "takeWhile (\<lambda>c. c \<noteq> CHR ''/'') (rev seg) = rev seg"
      using assms by auto
    show ?thesis by (simp add: after_last_slash_def takeWhile_tail tw)
  qed
  ultimately show ?thesis using assms by (simp add: path_Base_def Let_def)
qed

section \<open>Character count\<close>

text \<open>
  Strings are byte strings in UTF-8; PostgreSQL counts characters, so a continuation byte
  (binary 10xxxxxx) does not count.
\<close>

definition char_count :: "string \<Rightarrow> nat" where
  "char_count s = length (filter (\<lambda>c. \<not> (128 \<le> (of_char c :: nat) \<and> (of_char c :: nat) < 192)) s)"

lemma char_count_le: "char_count s \<le> length s"
  by (simp add: char_count_def)

section \<open>Quoting\<close>

text \<open>
  The verb \<open>%q\<close> on ASCII text: double quotes around, quote and backslash escaped, control
  characters as their letter or two hexadecimal digits. Bytes above 127 are left as they are.
\<close>

definition hex_digit :: "nat \<Rightarrow> char" where
  "hex_digit n = char_of (if n < 10 then 48 + n else 87 + n)"

definition quote_char :: "char \<Rightarrow> string" where
  "quote_char c =
     (let n = (of_char c :: nat) in
      if n = 34 \<or> n = 92 then [CHR 0x5C, c]
      else if n < 32 \<or> n = 127
      then (case map_of [(7, CHR ''a''), (8, CHR ''b''), (9, CHR ''t''), (10, CHR ''n''), (11, CHR ''v''),
                         (12, CHR ''f''), (13, CHR ''r'')] n of
              Some x \<Rightarrow> [CHR 0x5C, x]
            | None \<Rightarrow> [CHR 0x5C, CHR ''x'', hex_digit (n div 16), hex_digit (n mod 16)])
      else [c])"

definition Quote :: "string \<Rightarrow> string" where
  "Quote s = [CHR 0x22] @ concat (map quote_char s) @ [CHR 0x22]"

section \<open>Durations\<close>

text \<open>\<open>time.Duration\<close> is a signed 64-bit count of nanoseconds; products wrap.\<close>

type_synonym duration = "64 word"

definition time_Millisecond :: duration where
  "time_Millisecond = 1000000"

definition time_Second :: duration where
  "time_Second = 1000000000"

text \<open>
  \<open>Time.Sub\<close>: a difference that does not fit is the largest or smallest duration. \<open>Milliseconds\<close>
  and \<open>Microseconds\<close> divide towards zero.
\<close>

definition time_Sub :: "int \<Rightarrow> int \<Rightarrow> duration" where
  "time_Sub t u = word_of_int (max (- (2 ^ 63)) (min (2 ^ 63 - 1) (t - u)))"

definition Milliseconds :: "duration \<Rightarrow> int" where
  "Milliseconds d = sgn (sint d) * (\<bar>sint d\<bar> div 1000000)"

definition Microseconds :: "duration \<Rightarrow> int" where
  "Microseconds d = sgn (sint d) * (\<bar>sint d\<bar> div 1000)"

lemma sint_word_of_int_range: "- (2 ^ 63) \<le> v \<Longrightarrow> v < 2 ^ 63 \<Longrightarrow> sint (word_of_int v :: 64 word) = v"
  by (simp add: sint_sbintrunc' signed_take_bit_int_eq_self)

lemma sint_time_Sub: "sint (time_Sub t u) = max (- (2 ^ 63)) (min (2 ^ 63 - 1) (t - u))"
  unfolding time_Sub_def by (rule sint_word_of_int_range) simp_all

section \<open>JSON documents\<close>

text \<open>
  A message body is represented by the JSON document its bytes denote; \<open>JMalformed\<close> stands
  for bytes that are no JSON text. Members keep their order, since a later duplicate
  overrides an earlier one.
\<close>

datatype json =
    JMalformed
  | JNull
  | JBool bool
  | JNumber int
  | JString string
  | JArray "json list"
  | JObject "(string \<times> json) list"

text \<open>
  Letter case. Strings are compared with ASCII names, so of the runes outside ASCII only those
  count that are mapped to an ASCII letter; a table lists their encodings.
\<close>

definition lower :: "char \<Rightarrow> char" where
  "lower c = (let n = (of_char c :: nat) in if 65 \<le> n \<and> n \<le> 90 then char_of (n + 32) else c)"

function fold_runes :: "(string \<times> char) list \<Rightarrow> string \<Rightarrow> string" where
  "fold_runes tab [] = []"
| "fold_runes tab (c # s) =
     (case find (\<lambda>(p, _). p \<noteq> [] \<and> take (length p) (c # s) = p) tab of
        None \<Rightarrow> lower c # fold_runes tab s
      | Some (p, x) \<Rightarrow> x # fold_runes tab (drop (length p) (c # s)))"
  by pat_completeness auto
termination
proof (relation "measure (length \<circ> snd)")
  fix tab :: "(string \<times> char) list" and c s y p x
  assume "find (\<lambda>(p, _). p \<noteq> [] \<and> take (length p) (c # s) = p) tab = Some y" "(p, x) = y"
  then have "p \<noteq> []" by (auto simp: find_Some_iff)
  then show "((tab, drop (length p) (c # s)), tab, c # s) \<in> measure (length \<circ> snd)" by (cases p) simp_all
qed simp_all

text \<open>
  \<open>json.Unmarshal\<close> matches a member name with a field name up to Unicode case folding: the long s
  folds to \<open>s\<close>, the Kelvin sign to \<open>k\<close>.
\<close>

definition fold_name :: "string \<Rightarrow> string" where
  "fold_name = fold_runes [([CHR 0xC5, CHR 0xBF], CHR ''s''), ([CHR 0xE2, CHR 0x84, CHR 0xAA], CHR ''k'')]"

definition same_field :: "string \<Rightarrow> string \<Rightarrow> bool" where
  "same_field a b \<longleftrightarrow> fold_name a = fold_name b"

text \<open>
  Reading one string field out of the members of an object: the last matching member
  counts, \<open>null\<close> leaves the field as it is, any other non-string value is a type error.
\<close>

fun read_field :: "string \<Rightarrow> string \<Rightarrow> (string \<times> json) list \<Rightarrow> gerr + string" where
  "read_field f v [] = Inr v"
| "read_field f v ((k, x) # ms) =
     (if same_field k f
      then (case x of
              JString s \<Rightarrow> read_field f s ms
            | JNull \<Rightarrow> read_field f v ms
            | _ \<Rightarrow> Inl (ErrorString (''json: cannot unmarshal value into Go struct field '' @ f)))
      else read_field f v ms)"

text \<open>
  \<open>json.Unmarshal\<close> into a struct whose fields are strings: the field values in the order of
  the given names. \<open>null\<close> leaves the zero value; anything else that is not an object is an
  error, and so is a field of the wrong type.
\<close>

fun read_fields :: "string list \<Rightarrow> (string \<times> json) list \<Rightarrow> gerr + string list" where
  "read_fields [] ms = Inr []"
| "read_fields (f # fs) ms =
     (case read_field f [] ms of
        Inl e \<Rightarrow> Inl e
      | Inr v \<Rightarrow> (case read_fields fs ms of Inl e \<Rightarrow> Inl e | Inr vs \<Rightarrow> Inr (v # vs)))"

fun unmarshal_struct :: "string list \<Rightarrow> json \<Rightarrow> gerr + string list" where
  "unmarshal_struct fs (JObject ms) = read_fields fs ms"
| "unmarshal_struct fs JNull = Inr (map (\<lambda>_. []) fs)"
| "unmarshal_struct fs JMalformed = Inl (ErrorString ''invalid character in JSON text'')"
| "unmarshal_struct fs _ = Inl (ErrorString ''json: cannot unmarshal value into Go struct'')"

lemma read_field_infra: "read_field f v ms = Inl e \<Longrightarrow> infra e"
  by (induction f v ms rule: read_field.induct) (auto split: if_splits json.splits)

lemma read_fields_infra: "read_fields fs ms = Inl e \<Longrightarrow> infra e"
  by (induction fs) (auto split: sum.splits dest: read_field_infra)

lemma unmarshal_struct_infra: "unmarshal_struct fs j = Inl e \<Longrightarrow> infra e"
  by (cases j) (auto dest: read_fields_infra)

lemma length_read_fields: "read_fields fs ms = Inr vs \<Longrightarrow> length vs = length fs"
  by (induction fs arbitrary: vs) (auto split: sum.splits)

lemma length_unmarshal_struct: "unmarshal_struct fs j = Inr vs \<Longrightarrow> length vs = length fs"
  by (cases j) (auto dest: length_read_fields)

end
