(* ===== verification/Schema.thy ===== *)
theory Schema
  imports Go_Stdlib
begin

text \<open>
  The persistent data: the Go row structs (\<open>Subscription\<close>, \<open>Repository\<close>, \<open>Saga\<close>,
  \<open>Message\<close>) and the four tables the migrations create. A serial column is a counter that
  only grows. The constraints of the schema are collected in \<open>db_ok\<close>.
\<close>

section \<open>Rows\<close>

datatype sub_status = StatusPending | StatusConfirmed | StatusFailed

record Subscription =
  sub_ID :: nat
  sub_Email :: string
  sub_Repo :: string
  sub_Token :: string
  sub_Confirmed :: bool
  sub_Status :: sub_status
  sub_CreatedAt :: int

record Subscriber =
  subscriber_ID :: nat
  subscriber_Email :: string
  subscriber_Token :: string

record Repository =
  repo_ID :: nat
  repo_Repo :: string
  repo_LastSeenTag :: string
  repo_LastCheckedAt :: "int option"
  repo_LastReleaseAt :: "int option"

datatype saga_state =
    StateSubscriptionCreated
  | StateCompleted
  | StateCompensating
  | StateFailed

record Saga =
  saga_ID :: string
  saga_SubscriptionID :: nat
  saga_Email :: string
  saga_Repo :: string
  saga_State :: saga_state
  saga_Attempts :: nat
  saga_LastError :: "string option"
  saga_CreatedAt :: int
  saga_UpdatedAt :: int

record Message =
  msg_ID :: nat
  msg_SagaID :: "string option"
  msg_RoutingKey :: string
  msg_MessageID :: string
  msg_Payload :: json
  msg_CreatedAt :: int
  msg_PublishedAt :: "int option"

section \<open>Tables\<close>

record db =
  subscriptions :: "Subscription list"
  sub_seq :: nat
  repositories :: "Repository list"
  repo_seq :: nat
  sagas :: "Saga list"
  outbox :: "Message list"
  outbox_seq :: nat

definition empty_db :: db where
  "empty_db = \<lparr>subscriptions = [], sub_seq = 0, repositories = [], repo_seq = 0,
     sagas = [], outbox = [], outbox_seq = 0\<rparr>"

text \<open>Column types: \<open>VARCHAR(255)\<close>, and the largest value of a \<open>SERIAL\<close> sequence.\<close>

definition varchar :: "nat \<Rightarrow> string \<Rightarrow> bool" where
  "varchar n s \<longleftrightarrow> char_count s \<le> n"

definition serial_max :: nat where
  "serial_max = 2147483647"

definition bigserial_max :: nat where
  "bigserial_max = 9223372036854775807"

text \<open>
  A rolled back transaction leaves the tables as they were but not the sequences: numbers
  drawn by it are gone.
\<close>

definition restore :: "db \<Rightarrow> db \<Rightarrow> db" where
  "restore old new = old\<lparr>sub_seq := sub_seq new, repo_seq := repo_seq new, outbox_seq := outbox_seq new\<rparr>"

lemma restore_simps [simp]:
  "subscriptions (restore old new) = subscriptions old"
  "repositories (restore old new) = repositories old"
  "sagas (restore old new) = sagas old"
  "outbox (restore old new) = outbox old"
  "sub_seq (restore old new) = sub_seq new"
  "repo_seq (restore old new) = repo_seq new"
  "outbox_seq (restore old new) = outbox_seq new"
  by (simp_all add: restore_def)

section \<open>Constraints\<close>

text \<open>
  What the schema and the statements keep true: primary keys and unique indexes, ids drawn
  from their sequence (so never 0), the unique pair (email, repo), and that a row with
  status confirmed carries the confirmed flag.
\<close>

abbreviation email_repo :: "Subscription \<Rightarrow> string \<times> string" where
  "email_repo s \<equiv> (sub_Email s, sub_Repo s)"

definition subs_ok :: "Subscription list \<Rightarrow> nat \<Rightarrow> bool" where
  "subs_ok rows n \<longleftrightarrow>
     distinct (map sub_ID rows) \<and> distinct (map sub_Token rows) \<and> distinct (map email_repo rows) \<and>
     (\<forall>s\<in>set rows. 1 \<le> sub_ID s \<and> sub_ID s \<le> n \<and> (sub_Status s = StatusConfirmed \<longrightarrow> sub_Confirmed s))"

definition sagas_ok :: "Saga list \<Rightarrow> bool" where
  "sagas_ok rows \<longleftrightarrow> distinct (map saga_ID rows)"

definition outbox_ok :: "Message list \<Rightarrow> nat \<Rightarrow> bool" where
  "outbox_ok rows n \<longleftrightarrow>
     distinct (map msg_ID rows) \<and> distinct (map msg_MessageID rows) \<and>
     (\<forall>m\<in>set rows. 1 \<le> msg_ID m \<and> msg_ID m \<le> n)"

definition repos_ok :: "Repository list \<Rightarrow> nat \<Rightarrow> bool" where
  "repos_ok rows n \<longleftrightarrow>
     distinct (map repo_ID rows) \<and> distinct (map repo_Repo rows) \<and>
     (\<forall>r\<in>set rows. 1 \<le> repo_ID r \<and> repo_ID r \<le> n)"

definition db_ok :: "db \<Rightarrow> bool" where
  "db_ok d \<longleftrightarrow> subs_ok (subscriptions d) (sub_seq d) \<and> sagas_ok (sagas d) \<and>
     outbox_ok (outbox d) (outbox_seq d) \<and> repos_ok (repositories d) (repo_seq d)"

definition seq_le :: "db \<Rightarrow> db \<Rightarrow> bool" where
  "seq_le d d' \<longleftrightarrow> sub_seq d \<le> sub_seq d' \<and> repo_seq d \<le> repo_seq d' \<and> outbox_seq d \<le> outbox_seq d'"

lemma seq_le_refl [simp]: "seq_le d d"
  by (simp add: seq_le_def)

lemma seq_le_trans [trans]: "seq_le a b \<Longrightarrow> seq_le b c \<Longrightarrow> seq_le a c"
  by (auto simp: seq_le_def)

lemma empty_db_ok: "db_ok empty_db"
  by (simp add: db_ok_def empty_db_def subs_ok_def sagas_ok_def outbox_ok_def repos_ok_def)

lemma subs_ok_mono: "subs_ok rows n \<Longrightarrow> n \<le> m \<Longrightarrow> subs_ok rows m"
  by (fastforce simp: subs_ok_def)

lemma outbox_ok_mono: "outbox_ok rows n \<Longrightarrow> n \<le> m \<Longrightarrow> outbox_ok rows m"
  by (fastforce simp: outbox_ok_def)

lemma repos_ok_mono: "repos_ok rows n \<Longrightarrow> n \<le> m \<Longrightarrow> repos_ok rows m"
  by (fastforce simp: repos_ok_def)

lemma restore_ok: "db_ok old \<Longrightarrow> seq_le old new \<Longrightarrow> db_ok (restore old new)"
  by (auto simp: db_ok_def seq_le_def intro: subs_ok_mono outbox_ok_mono repos_ok_mono)

lemma restore_seq_le: "seq_le old new \<Longrightarrow> seq_le old (restore old new)"
  by (simp add: seq_le_def)

text \<open>Appending a fresh row, and rewriting rows without touching a key, keep the constraints.\<close>

lemma subs_ok_snoc:
  assumes "subs_ok rows n" "sub_ID s = Suc n" "sub_Token s \<notin> sub_Token ` set rows"
    "email_repo s \<notin> email_repo ` set rows" "sub_Status s = StatusConfirmed \<longrightarrow> sub_Confirmed s"
  shows "subs_ok (rows @ [s]) (Suc n)"
proof -
  have "Suc n \<notin> sub_ID ` set rows" using assms(1) by (fastforce simp: subs_ok_def)
  then show ?thesis
    using assms(2-) subs_ok_mono [OF assms(1), of "Suc n"] by (simp add: subs_ok_def)
qed

lemma subs_ok_upd:
  assumes "subs_ok rows n" "\<And>s. sub_ID (f s) = sub_ID s" "\<And>s. sub_Token (f s) = sub_Token s"
    "\<And>s. email_repo (f s) = email_repo s"
    "\<And>s. sub_Status (f s) = StatusConfirmed \<Longrightarrow> sub_Confirmed (f s)"
  shows "subs_ok (upd_rows P f rows) n"
  using assms by (auto simp: subs_ok_def row_simps elim!: in_upd_rowsE)

lemma subs_ok_del: "subs_ok rows n \<Longrightarrow> subs_ok (del_rows P rows) n"
  by (auto simp: subs_ok_def distinct_map_del_rows)

lemma outbox_ok_snoc:
  assumes "outbox_ok rows n" "msg_ID m = Suc n" "msg_MessageID m \<notin> msg_MessageID ` set rows"
  shows "outbox_ok (rows @ [m]) (Suc n)"
proof -
  have "Suc n \<notin> msg_ID ` set rows" using assms(1) by (fastforce simp: outbox_ok_def)
  then show ?thesis
    using assms(2-) outbox_ok_mono [OF assms(1), of "Suc n"] by (simp add: outbox_ok_def)
qed

lemma outbox_ok_upd:
  assumes "outbox_ok rows n" "\<And>m. msg_ID (f m) = msg_ID m" "\<And>m. msg_MessageID (f m) = msg_MessageID m"
  shows "outbox_ok (upd_rows P f rows) n"
  using assms by (auto simp: outbox_ok_def row_simps elim!: in_upd_rowsE)

lemma repos_ok_snoc:
  assumes "repos_ok rows n" "repo_ID r = Suc n" "repo_Repo r \<notin> repo_Repo ` set rows"
  shows "repos_ok (rows @ [r]) (Suc n)"
proof -
  have "Suc n \<notin> repo_ID ` set rows" using assms(1) by (fastforce simp: repos_ok_def)
  then show ?thesis
    using assms(2-) repos_ok_mono [OF assms(1), of "Suc n"] by (simp add: repos_ok_def)
qed

lemma repos_ok_upd:
  assumes "repos_ok rows n" "\<And>r. repo_ID (f r) = repo_ID r" "\<And>r. repo_Repo (f r) = repo_Repo r"
  shows "repos_ok (upd_rows P f rows) n"
  using assms by (auto simp: repos_ok_def row_simps elim!: in_upd_rowsE)

lemma sagas_ok_upd:
  "sagas_ok rows \<Longrightarrow> (\<And>g. saga_ID (f g) = saga_ID g) \<Longrightarrow> sagas_ok (upd_rows P f rows)"
  by (simp add: sagas_ok_def row_simps)

lemma db_ok_parts:
  assumes "db_ok d"
  shows "subs_ok (subscriptions d) (sub_seq d)" "sagas_ok (sagas d)"
    "outbox_ok (outbox d) (outbox_seq d)" "repos_ok (repositories d) (repo_seq d)"
  using assms by (simp_all add: db_ok_def)

end
