(* ===== verification/Logging.thy ===== *)
theory Logging
  imports Go_Stdlib
begin

text \<open>
  Which log lines are written (\<open>internal/logging/logging.go\<close> and the level chosen by the request
  logger in \<open>internal/middleware/logging.go\<close>). Strings are byte strings in UTF-8, as in Go; the
  text of a line is not modelled.
\<close>

section \<open>strings.TrimSpace and strings.ToLower\<close>

text \<open>The encodings of the runes \<open>unicode.IsSpace\<close> accepts.\<close>

definition space_runes :: "string list" where
  "space_runes =
     [[CHR 0x09], [CHR 0x0A], [CHR 0x0B], [CHR 0x0C], [CHR 0x0D], [CHR 0x20], [CHR 0xC2, CHR 0x85], [CHR 0xC2, CHR 0xA0],
      [CHR 0xE1, CHR 0x9A, CHR 0x80]] @
     map (\<lambda>c. [CHR 0xE2, CHR 0x80, c])
       [CHR 0x80, CHR 0x81, CHR 0x82, CHR 0x83, CHR 0x84, CHR 0x85, CHR 0x86, CHR 0x87, CHR 0x88, CHR 0x89, CHR 0x8A,
        CHR 0xA8, CHR 0xA9, CHR 0xAF] @
     [[CHR 0xE2, CHR 0x81, CHR 0x9F], [CHR 0xE3, CHR 0x80, CHR 0x80]]"

function trim_by :: "string list \<Rightarrow> string \<Rightarrow> string" where
  "trim_by ps s =
     (case find (\<lambda>p. p \<noteq> [] \<and> take (length p) s = p) ps of
        None \<Rightarrow> s
      | Some p \<Rightarrow> trim_by ps (drop (length p) s))"
  by pat_completeness auto
termination
proof (relation "measure (length \<circ> snd)")
  fix ps :: "string list" and s p
  assume "find (\<lambda>p. p \<noteq> [] \<and> take (length p) s = p) ps = Some p"
  then have "p \<noteq> []" "take (length p) s = p" by (auto simp: find_Some_iff)
  then have "0 < length p" "s \<noteq> []" by auto
  then show "((ps, drop (length p) s), ps, s) \<in> measure (length \<circ> snd)" by simp
qed simp

declare trim_by.simps [simp del]

definition TrimSpace :: "string \<Rightarrow> string" where
  "TrimSpace s = rev (trim_by (map rev space_runes) (rev (trim_by space_runes s)))"

text \<open>
  Lower case: besides the ASCII capitals, the capital I with a dot above and the Kelvin sign become
  ASCII letters.
\<close>

definition ToLower :: "string \<Rightarrow> string" where
  "ToLower = fold_runes [([CHR 0xC4, CHR 0xB0], CHR ''i''), ([CHR 0xE2, CHR 0x84, CHR 0xAA], CHR ''k'')]"

section \<open>Levels\<close>

datatype Level = LevelDebug | LevelInfo | LevelWarn | LevelError

fun level_value :: "Level \<Rightarrow> int" where
  "level_value LevelDebug = - 4"
| "level_value LevelInfo = 0"
| "level_value LevelWarn = 4"
| "level_value LevelError = 8"

definition parseLevel :: "string \<Rightarrow> Level" where
  "parseLevel level =
     (let s = ToLower (TrimSpace level) in
      if s = ''debug'' then LevelDebug
      else if s = ''warn'' \<or> s = ''warning'' then LevelWarn
      else if s = ''error'' then LevelError
      else LevelInfo)"

text \<open>\<open>Setup\<close>: the handler that becomes the default drops what is below its level.\<close>

record Logger =
  logger_Level :: Level

definition Setup_logger :: "string \<Rightarrow> Logger" where
  "Setup_logger level = \<lparr>logger_Level = parseLevel level\<rparr>"

definition Enabled :: "Logger \<Rightarrow> Level \<Rightarrow> bool" where
  "Enabled lg l \<longleftrightarrow> level_value (logger_Level lg) \<le> level_value l"

definition request_level :: "int \<Rightarrow> Level" where
  "request_level status =
     (if 500 \<le> status then LevelError else if 400 \<le> status then LevelWarn else LevelInfo)"

section \<open>What is logged\<close>

text \<open>Blanks before a level do not count.\<close>

lemma trim_by_prefix:
  assumes "p \<in> set ps" "p \<noteq> []" "\<And>q. q \<in> set ps \<Longrightarrow> q \<noteq> [] \<Longrightarrow> take (length q) (p @ s) = q \<Longrightarrow> q = p"
  shows "trim_by ps (p @ s) = trim_by ps s"
proof -
  have "find (\<lambda>q. q \<noteq> [] \<and> take (length q) (p @ s) = q) ps = Some p"
  proof (cases "find (\<lambda>q. q \<noteq> [] \<and> take (length q) (p @ s) = q) ps")
    case None
    then show ?thesis using assms(1,2) by (auto simp: find_None_iff)
  next
    case (Some q)
    then have "q \<in> set ps" "q \<noteq> []" "take (length q) (p @ s) = q" by (auto simp: find_Some_iff)
    then show ?thesis using assms(3) Some by simp
  qed
  then show ?thesis by (subst trim_by.simps) simp
qed

lemma space_runes_prefix_free:
  "\<forall>p\<in>set space_runes. p \<noteq> [] \<and> (\<forall>q\<in>set space_runes. take (length p) q = p \<longrightarrow> q = p)"
  by (simp add: space_runes_def)

lemma TrimSpace_blank:
  assumes "p \<in> set space_runes"
  shows "TrimSpace (p @ s) = TrimSpace s"
proof -
  have "q = p" if q: "q \<in> set space_runes" "take (length q) (p @ s) = q" for q
  proof (cases "length q \<le> length p")
    case True
    then have "take (length q) p = q" using q(2) by simp
    then show ?thesis using space_runes_prefix_free assms q(1) by metis
  next
    case False
    then have "take (length p) q = p" using arg_cong [OF q(2), of "take (length p)"] by (simp add: min_def)
    then show ?thesis using space_runes_prefix_free assms q(1) by metis
  qed
  then have "trim_by space_runes (p @ s) = trim_by space_runes s"
    using assms space_runes_prefix_free by (intro trim_by_prefix) auto
  then show ?thesis by (simp add: TrimSpace_def)
qed

lemma parseLevel_blank: "p \<in> set space_runes \<Longrightarrow> parseLevel (p @ s) = parseLevel s"
  by (simp add: parseLevel_def TrimSpace_blank)

text \<open>A failed request is logged under every setting, a rejected one unless only errors are asked for.\<close>

lemma failures_logged:
  "500 \<le> status \<Longrightarrow> Enabled (Setup_logger level) (request_level status)"
  "400 \<le> status \<Longrightarrow> Enabled (Setup_logger level) (request_level status) \<longleftrightarrow>
     500 \<le> status \<or> parseLevel level \<noteq> LevelError"
  "Enabled (Setup_logger level) LevelError"
  by (cases "parseLevel level"; simp add: Enabled_def Setup_logger_def request_level_def)+

lemma level_names:
  "parseLevel '' Debug '' = LevelDebug" "parseLevel ''WARN'' = LevelWarn" "parseLevel ''warning'' = LevelWarn"
  "parseLevel ''Error'' = LevelError" "parseLevel [] = LevelInfo" "parseLevel ''verbose'' = LevelInfo"
  by code_simp+

end
