(* ===== verification/World.thy ===== *)
theory World
  imports Schema Logging
begin

text \<open>
  The two processes see the outside through calls that may fail: PostgreSQL statements,
  Redis commands, HTTP requests to GitHub, AMQP publishes, SMTP deliveries, UUIDs and
  clocks. None of that code is part of the repository, so it is a parameter of the model:
  an \<open>env\<close> answers each call as a function of the whole history of calls made so far, and
  every theorem holds for every \<open>env\<close> unless it says what it assumes of it.
  SQL statements are translated to functions on the tables; the environment decides only
  whether the statement is refused, executed, or executed with the answer lost.
\<close>

section \<open>Calls to the outside\<close>

record http_request =
  req_URL :: string
  req_Header :: "(string \<times> string) list"

record http_response =
  StatusCode :: int
  Body :: json

record amqp_Publishing =
  pub_Exchange :: string
  pub_RoutingKey :: string
  pub_ContentType :: string
  pub_Persistent :: bool
  pub_MessageId :: string
  pub_Body :: json

record mail =
  mail_Addr :: string
  mail_Auth :: "(string \<times> string \<times> string) option"
  mail_From :: string
  mail_To :: "string list"
  mail_Msg :: string

text \<open>
  The calls with which the processes set themselves up and tear themselves down: connections,
  the AMQP topology (with all the flags of the client library), servers.
\<close>

datatype setup_call =
    DbConnect string
  | DbClose
  | MigrateNew string string
  | MigrateUp
  | RedisParseURL string
  | RedisPing
  | RedisClose
  | AmqpDial string
  | AmqpChannel
  | ExchangeDeclare string string bool bool bool bool
  | QueueDeclare string bool bool bool bool "(string \<times> string) list"
  | QueueBind string string string bool
  | Qos int int bool
  | Consume string string bool bool bool bool
  | ChannelClose
  | ConnClose
  | GrpcNewClient string
  | GrpcConnClose
  | GrpcGracefulStop
  | HttpShutdown

datatype io_event =
    PgStatement string
  | UuidNew string
  | TimeNow
  | CtxPoll
  | Wait duration
  | RedisGET string
  | RedisSET string string duration bool
  | RedisEXISTS string
  | HttpDo http_request
  | AmqpPublish amqp_Publishing bool
  | SmtpSendMail mail bool
  | GrpcInvoke bool
  | Settled bool
  | Setup setup_call bool
  | RequestLine Level string string int int string string

type_synonym history = "io_event list"

text \<open>
  The answer to a statement: executed, refused without effect, or executed while the
  client sees an error (the connection broke before the answer arrived).
\<close>

datatype pg_answer = PgOk | PgRefused string | PgReplyLost string

text \<open>The answer to a Redis read: a value, the nil reply, or an error.\<close>

datatype redis_reply = RedisValue string | RedisNil | RedisError string

text \<open>The fate of a remote procedure call.\<close>

datatype rpc_fate = RpcDelivered | RpcUnreached string | RpcReplyLost string

record env =
  pg :: "history \<Rightarrow> pg_answer"
  pg_now :: "history \<Rightarrow> int"
  pg_rank :: "history \<Rightarrow> nat \<Rightarrow> nat"
  pg_rank_text :: "history \<Rightarrow> string \<Rightarrow> nat"
  pg_uuid :: "string \<Rightarrow> string option"
  uuid_NewString :: "history \<Rightarrow> string"
  time_Now :: "history \<Rightarrow> int"
  ctx_Done :: "history \<Rightarrow> bool"
  redis_GET :: "history \<Rightarrow> string \<Rightarrow> redis_reply"
  redis_SET :: "history \<Rightarrow> string \<Rightarrow> string \<Rightarrow> string option"
  redis_EXISTS :: "history \<Rightarrow> string \<Rightarrow> string + nat"
  http_Do :: "history \<Rightarrow> http_request \<Rightarrow> string + http_response"
  amqp_Publish :: "history \<Rightarrow> amqp_Publishing \<Rightarrow> string option"
  smtp_SendMail :: "history \<Rightarrow> mail \<Rightarrow> string option"
  grpc_Invoke :: "history \<Rightarrow> rpc_fate"
  setup_Do :: "history \<Rightarrow> setup_call \<Rightarrow> string option"
  migrate_Applied :: "history \<Rightarrow> nat list"

text \<open>
  What PostgreSQL documents of its UUID input: the empty text is no UUID, and the form it
  stores is accepted again as it is.
\<close>

definition uuid_column :: "env \<Rightarrow> bool" where
  "uuid_column E \<longleftrightarrow> (\<forall>s u. pg_uuid E s = Some u \<longrightarrow> s \<noteq> [] \<and> pg_uuid E u = Some u)"

section \<open>The world\<close>

text \<open>
  The series of \<open>internal/metrics\<close>: the counters with their labels, and for the two histograms how
  often each duration (in nanoseconds) was observed; the buckets they are exported in are the
  client library's.
\<close>

datatype metric =
    SubscriptionsCreated
  | SubscriptionsConfirmed
  | Unsubscribes
  | ScannerRunsTotal
  | ReleasesDetected
  | NotificationsSent
  | ScannerErrorsTotal string
  | GitHubAPICalls string string
  | HTTPRequestsTotal string string int
  | HTTPRequestDuration string string duration
  | ScannerCycleDuration duration

record world =
  hist :: history
  db :: db
  metrics :: "metric \<Rightarrow> nat"
  ScannerLastRunTimestamp :: int

definition init_world :: world where
  "init_world = \<lparr>hist = [], db = empty_db, metrics = (\<lambda>_. 0), ScannerLastRunTimestamp = 0\<rparr>"

type_synonym ('w, 'a) act = "'w \<Rightarrow> (gerr + 'a) \<times> 'w"

definition logged :: "io_event \<Rightarrow> world \<Rightarrow> world" where
  "logged e w = w\<lparr>hist := e # hist w\<rparr>"

definition metric_inc :: "metric \<Rightarrow> world \<Rightarrow> world" where
  "metric_inc m w = w\<lparr>metrics := (metrics w)(m := Suc (metrics w m))\<rparr>"

definition set_last_run :: "int \<Rightarrow> world \<Rightarrow> world" where
  "set_last_run t w = w\<lparr>ScannerLastRunTimestamp := t\<rparr>"

lemma logged_simps [simp]:
  "hist (logged e w) = e # hist w" "db (logged e w) = db w" "metrics (logged e w) = metrics w"
  "ScannerLastRunTimestamp (logged e w) = ScannerLastRunTimestamp w"
  by (simp_all add: logged_def)

lemma metric_inc_simps [simp]:
  "hist (metric_inc m w) = hist w" "db (metric_inc m w) = db w"
  "metrics (metric_inc m w) = (metrics w)(m := Suc (metrics w m))"
  "ScannerLastRunTimestamp (metric_inc m w) = ScannerLastRunTimestamp w"
  by (simp_all add: metric_inc_def)

lemma set_last_run_simps [simp]:
  "hist (set_last_run t w) = hist w" "db (set_last_run t w) = db w" "metrics (set_last_run t w) = metrics w"
  "ScannerLastRunTimestamp (set_last_run t w) = t"
  by (simp_all add: set_last_run_def)

definition new_uuid :: "env \<Rightarrow> world \<Rightarrow> string \<times> world" where
  "new_uuid E w = (let u = uuid_NewString E (hist w) in (u, logged (UuidNew u) w))"

definition now :: "env \<Rightarrow> world \<Rightarrow> int \<times> world" where
  "now E w = (time_Now E (hist w), logged TimeNow w)"

definition time_Since :: "env \<Rightarrow> int \<Rightarrow> world \<Rightarrow> duration \<times> world" where
  "time_Since E start w = (case now E w of (t, w1) \<Rightarrow> (time_Sub t start, w1))"

text \<open>
  \<open>select { case <-ctx.Done(): ...; case <-time.After(d): ... }\<close>: the environment decides
  which branch is taken.
\<close>

definition backoff_or_done :: "env \<Rightarrow> duration \<Rightarrow> world \<Rightarrow> bool \<times> world" where
  "backoff_or_done E d w =
     (if ctx_Done E (hist w) then (True, logged CtxPoll w) else (False, logged (Wait d) w))"

text \<open>A set-up call: the environment answers with nothing or with an error.\<close>

definition do_setup :: "env \<Rightarrow> setup_call \<Rightarrow> (world, unit) act" where
  "do_setup E c w =
     (case setup_Do E (hist w) c of
        None \<Rightarrow> (Inr (), logged (Setup c True) w)
      | Some m \<Rightarrow> (Inl (ErrorString m), logged (Setup c False) w))"

lemma new_uuid_db [simp]: "db (snd (new_uuid E w)) = db w"
  by (simp add: new_uuid_def Let_def)

lemma now_db [simp]: "db (snd (now E w)) = db w"
  by (simp add: now_def)

lemma time_Since_simps [simp]:
  "time_Since E start w = (time_Sub (time_Now E (hist w)) start, logged TimeNow w)"
  by (simp add: time_Since_def now_def)

lemma backoff_or_done_db [simp]: "db (snd (backoff_or_done E d w)) = db w"
  by (simp add: backoff_or_done_def)

text \<open>A later history extends an earlier one.\<close>

definition extends :: "history \<Rightarrow> history \<Rightarrow> bool" where
  "extends h h' \<longleftrightarrow> (\<exists>evs. h' = evs @ h)"

lemma extends_refl [simp, intro]: "extends h h"
  by (simp add: extends_def)

lemma extends_trans [trans]: "extends a b \<Longrightarrow> extends b c \<Longrightarrow> extends a c"
  by (auto simp: extends_def)

lemma extends_Cons: "extends h h' \<Longrightarrow> extends h (e # h')"
  unfolding extends_def by (metis append_Cons)

lemma extends_set: "extends h h' \<Longrightarrow> set h \<subseteq> set h'"
  by (auto simp: extends_def)

text \<open>A later history adds only events of a kind.\<close>

definition adds :: "(io_event \<Rightarrow> bool) \<Rightarrow> history \<Rightarrow> history \<Rightarrow> bool" where
  "adds P h h' \<longleftrightarrow> (\<exists>evs. h' = evs @ h \<and> (\<forall>e\<in>set evs. P e))"

lemma adds_refl [simp]: "adds P h h"
  by (simp add: adds_def)

lemma adds_Cons: "adds P h h' \<Longrightarrow> P e \<Longrightarrow> adds P h (e # h')"
  unfolding adds_def by (metis append_Cons set_ConsD)

lemma adds_trans [trans]: "adds P a b \<Longrightarrow> adds P b c \<Longrightarrow> adds P a c"
  by (auto simp: adds_def)

section \<open>Ticker loops\<close>

text \<open>
  The background jobs share one loop: the job runs at once, a ticker is created, and then a
  \<open>select\<close> runs the job on every tick until the context is cancelled. The list says which
  branch each \<open>select\<close> takes. \<open>time.NewTicker\<close> panics on an interval that is not positive.
\<close>

datatype ticked = Tick | Cancelled

datatype run_end = Running | Stopped | Panicked

fun ticker_loop :: "('w \<Rightarrow> 'w) \<Rightarrow> ticked list \<Rightarrow> 'w \<Rightarrow> run_end \<times> 'w" where
  "ticker_loop job [] w = (Running, w)"
| "ticker_loop job (Cancelled # ts) w = (Stopped, w)"
| "ticker_loop job (Tick # ts) w = ticker_loop job ts (job w)"

definition ticker_run :: "('w \<Rightarrow> 'w) \<Rightarrow> duration \<Rightarrow> ticked list \<Rightarrow> 'w \<Rightarrow> run_end \<times> 'w" where
  "ticker_run job interval ts w =
     (if sint interval \<le> 0 then (Panicked, job w) else ticker_loop job ts (job w))"

lemma ticker_loop_keeps:
  "ticker_loop job ts w = (e, w') \<Longrightarrow> P w \<Longrightarrow> (\<And>v. P v \<Longrightarrow> P (job v)) \<Longrightarrow> P w'"
  by (induction job ts w rule: ticker_loop.induct) auto

lemma ticker_run_keeps:
  "ticker_run job interval ts w = (e, w') \<Longrightarrow> P w \<Longrightarrow> (\<And>v. P v \<Longrightarrow> P (job v)) \<Longrightarrow> P w'"
  by (auto simp: ticker_run_def split: if_splits intro: ticker_loop_keeps)

lemma ticker_loop_rounds:
  "ticker_loop job ts w =
     (if Cancelled \<in> set ts then Stopped else Running,
      (job ^^ length (takeWhile (\<lambda>t. t = Tick) ts)) w)"
  by (induction job ts w rule: ticker_loop.induct) (auto simp: funpow_swap1)

section \<open>Statements and transactions\<close>

text \<open>The errors PostgreSQL raises for the statements of this program.\<close>

definition pq_too_long :: gerr where
  "pq_too_long = ErrorString ''pq: value too long for type character varying(255)''"

definition pq_duplicate :: "string \<Rightarrow> gerr" where
  "pq_duplicate c = ErrorString (''pq: duplicate key value violates unique constraint '' @ c)"

definition pq_sequence_max :: gerr where
  "pq_sequence_max = ErrorString ''pq: nextval: reached maximum value of sequence''"

definition pq_bad_uuid :: gerr where
  "pq_bad_uuid = ErrorString ''pq: invalid input syntax for type uuid''"

lemma pq_errors_infra [simp]:
  "infra pq_too_long" "infra (pq_duplicate c)" "infra pq_sequence_max" "infra pq_bad_uuid"
  by (simp_all add: pq_too_long_def pq_duplicate_def pq_sequence_max_def pq_bad_uuid_def)

record pg_tx =
  tx_tables :: db
  tx_now :: int

datatype executor = OnDB | OnTx pg_tx

text \<open>
  One statement: \<open>body\<close> gets the value of \<open>NOW()\<close> (the transaction's start inside a
  transaction) and the tables.
\<close>

definition stmt_now :: "env \<Rightarrow> executor \<Rightarrow> world \<Rightarrow> int" where
  "stmt_now E ext w = (case ext of OnDB \<Rightarrow> pg_now E (hist w) | OnTx tx \<Rightarrow> tx_now tx)"

definition run_stmt ::
  "env \<Rightarrow> executor \<Rightarrow> string \<Rightarrow> (int \<Rightarrow> db \<Rightarrow> (gerr + 'a) \<times> db) \<Rightarrow> (world, 'a) act" where
  "run_stmt E ext name body w =
     (let w' = logged (PgStatement name) w; (r, d) = body (stmt_now E ext w) (db w) in
      case pg E (hist w) of
        PgOk \<Rightarrow> (r, w'\<lparr>db := d\<rparr>)
      | PgRefused m \<Rightarrow> (Inl (ErrorString m), w')
      | PgReplyLost m \<Rightarrow> (Inl (ErrorString m), w'\<lparr>db := d\<rparr>))"

definition BeginTxx :: "env \<Rightarrow> (world, pg_tx) act" where
  "BeginTxx E w =
     (let w' = logged (PgStatement ''BEGIN'') w in
      case pg E (hist w) of
        PgOk \<Rightarrow> (Inr \<lparr>tx_tables = db w, tx_now = pg_now E (hist w)\<rparr>, w')
      | PgRefused m \<Rightarrow> (Inl (ErrorString m), w')
      | PgReplyLost m \<Rightarrow> (Inl (ErrorString m), w'))"

definition Rollback :: "pg_tx \<Rightarrow> world \<Rightarrow> world" where
  "Rollback tx w = w\<lparr>db := restore (tx_tables tx) (db w)\<rparr>"

definition Commit :: "env \<Rightarrow> pg_tx \<Rightarrow> (world, unit) act" where
  "Commit E tx w =
     (let w' = logged (PgStatement ''COMMIT'') w in
      case pg E (hist w) of
        PgOk \<Rightarrow> (Inr (), w')
      | PgRefused m \<Rightarrow> (Inl (ErrorString m), Rollback tx w')
      | PgReplyLost m \<Rightarrow> (Inl (ErrorString m), w'))"

lemma run_stmtE:
  assumes "run_stmt E ext name body w = (r, w')"
  obtains
    (ok) "pg E (hist w) = PgOk" "body (stmt_now E ext w) (db w) = (r, db w')"
      "w' = (logged (PgStatement name) w)\<lparr>db := db w'\<rparr>"
  | (refused) m where "r = Inl (ErrorString m)" "w' = logged (PgStatement name) w"
  | (lost) m r' where "r = Inl (ErrorString m)" "body (stmt_now E ext w) (db w) = (r', db w')"
      "w' = (logged (PgStatement name) w)\<lparr>db := db w'\<rparr>"
  using assms by (auto simp: run_stmt_def Let_def split: pg_answer.splits prod.splits)

text \<open>A statement whose body keeps a property of the tables keeps it whatever the answer.\<close>

lemma run_stmt_keeps:
  assumes "run_stmt E ext name body w = (r, w')" "P (db w)"
    and "\<And>n. P (snd (body n (db w)))"
  shows "P (db w')"
  using assms(1)
proof (cases rule: run_stmtE)
  case ok
  then show ?thesis using assms(3) [of "stmt_now E ext w"] by simp
next
  case (refused m)
  then show ?thesis using assms(2) by simp
next
  case (lost m r')
  then show ?thesis using assms(3) [of "stmt_now E ext w"] by simp
qed

lemma run_stmt_hist: "run_stmt E ext name body w = (r, w') \<Longrightarrow> hist w' = PgStatement name # hist w"
  by (erule run_stmtE) (metis logged_simps(1) world.select_convs(1) world.surjective world.update_convs(2))+

lemma run_stmt_metrics [frame_simps]: "metrics (snd (run_stmt E ext name body w)) = metrics w"
  by (auto simp: run_stmt_def Let_def split: pg_answer.splits prod.splits)

lemma run_stmt_Inr:
  assumes "run_stmt E ext name body w = (Inr x, w')"
  shows "body (stmt_now E ext w) (db w) = (Inr x, db w') \<and> pg E (hist w) = PgOk"
  using assms by (cases rule: run_stmtE) auto

lemma run_stmt_infra:
  assumes "run_stmt E ext name body w = (Inl e, w')" "\<And>n d e. fst (body n d) = Inl e \<Longrightarrow> infra e"
  shows "infra e"
  using assms(1)
proof (cases rule: run_stmtE)
  case ok
  then show ?thesis using assms(2) [of "stmt_now E ext w" "db w"] by simp
qed auto

text \<open>When the environment executes every statement, a statement is just its body.\<close>

definition pg_up :: "env \<Rightarrow> bool" where
  "pg_up E \<longleftrightarrow> (\<forall>h. pg E h = PgOk)"

lemma run_stmt_up:
  "pg_up E \<Longrightarrow> run_stmt E ext name body w =
     (case body (stmt_now E ext w) (db w) of (r, d) \<Rightarrow> (r, (logged (PgStatement name) w)\<lparr>db := d\<rparr>))"
  by (auto simp: run_stmt_def pg_up_def Let_def split: prod.splits)

lemma BeginTxx_Inr:
  assumes "BeginTxx E w = (Inr tx, w')"
  shows "tx_tables tx = db w \<and> db w' = db w"
  using assms by (auto simp: BeginTxx_def Let_def split: pg_answer.splits)

lemma BeginTxx_db: "BeginTxx E w = (r, w') \<Longrightarrow> db w' = db w"
  by (auto simp: BeginTxx_def Let_def split: pg_answer.splits)

lemma BeginTxx_infra: "BeginTxx E w = (Inl e, w') \<Longrightarrow> infra e"
  by (auto simp: BeginTxx_def Let_def split: pg_answer.splits)

lemma Commit_cases:
  assumes "Commit E tx w = (r, w')"
  obtains (kept) "db w' = db w" "r = Inr () \<or> (\<exists>m. r = Inl (ErrorString m))"
  | (undone) m where "r = Inl (ErrorString m)" "db w' = restore (tx_tables tx) (db w)"
  using assms by (auto simp: Commit_def Rollback_def Let_def split: pg_answer.splits)

lemma Rollback_db [simp]: "db (Rollback tx w) = restore (tx_tables tx) (db w)"
  by (simp add: Rollback_def)

lemma Rollback_hist [simp]: "hist (Rollback tx w) = hist w"
  by (simp add: Rollback_def)

lemma Rollback_metrics [simp]: "metrics (Rollback tx w) = metrics w"
  by (simp add: Rollback_def)

text \<open>
  The invariant every operation on the database keeps: the constraints hold and no sequence
  runs backwards.
\<close>

definition grows :: "db \<Rightarrow> db \<Rightarrow> bool" where
  "grows d d' \<longleftrightarrow> (db_ok d \<longrightarrow> db_ok d') \<and> seq_le d d'"

lemma grows_refl [simp, intro]: "grows d d"
  by (simp add: grows_def)

lemma grows_trans [trans]: "grows a b \<Longrightarrow> grows b c \<Longrightarrow> grows a c"
  by (auto simp: grows_def intro: seq_le_trans)

lemma grows_ok: "grows d d' \<Longrightarrow> db_ok d \<Longrightarrow> db_ok d'"
  by (simp add: grows_def)

lemma grows_restore: "grows d d' \<Longrightarrow> grows d (restore d d')"
  by (auto simp: grows_def restore_ok restore_seq_le)

lemma run_stmt_grows:
  assumes "run_stmt E ext name body w = (r, w')" "\<And>n d. grows d (snd (body n d))"
  shows "grows (db w) (db w')"
  by (rule run_stmt_keeps [OF assms(1), of "grows (db w)"]) (auto intro: assms(2))

end
