(* ===== verification/Subscription_Store.thy ===== *)
theory Subscription_Store
  imports World
begin

text \<open>
  The store of the subscription domain (\<open>internal/subscription/store.go\<close>): every statement
  on the \<open>subscriptions\<close> table. The lemmas give, for each operation, what a success means
  for the table, which rows stay, and that the constraints of the schema are kept under
  every answer of the database.
\<close>

section \<open>Statements\<close>

definition insert_subscription ::
  "string \<Rightarrow> string \<Rightarrow> string \<Rightarrow> bool \<Rightarrow> int \<Rightarrow> db \<Rightarrow> (gerr + nat) \<times> db" where
  "insert_subscription email repo token confirmed t d =
     (if serial_max \<le> sub_seq d
      then (Inl pq_sequence_max, d)
      else
       (let n = Suc (sub_seq d); d1 = d\<lparr>sub_seq := n\<rparr> in
        if \<not> (varchar 255 email \<and> varchar 255 repo \<and> varchar 255 token)
        then (Inl pq_too_long, d1)
        else if token \<in> sub_Token ` set (subscriptions d)
        then (Inl (pq_duplicate ''subscriptions_token_key''), d1)
        else if (email, repo) \<in> email_repo ` set (subscriptions d)
        then (Inl (pq_duplicate ''subscriptions_email_repo_key''), d1)
        else (Inr n, d1\<lparr>subscriptions := subscriptions d @
                [\<lparr>sub_ID = n, sub_Email = email, sub_Repo = repo, sub_Token = token,
                  sub_Confirmed = confirmed, sub_Status = StatusPending, sub_CreatedAt = t\<rparr>]\<rparr>)))"

definition CreateSubscription :: "env \<Rightarrow> Subscription \<Rightarrow> (world, unit) act" where
  "CreateSubscription E sub w =
     (case run_stmt E OnDB ''INSERT INTO subscriptions''
             (insert_subscription (sub_Email sub) (sub_Repo sub) (sub_Token sub) (sub_Confirmed sub)) w of
        (Inl e, w') \<Rightarrow> (Inl e, w')
      | (Inr _, w') \<Rightarrow> (Inr (), w'))"

definition subscription_CreateInTx ::
  "env \<Rightarrow> executor \<Rightarrow> string \<Rightarrow> string \<Rightarrow> string \<Rightarrow> (world, nat) act" where
  "subscription_CreateInTx E ext email repo token =
     run_stmt E ext ''INSERT INTO subscriptions RETURNING id''
       (insert_subscription email repo token False)"

definition GetSubscriptionByToken :: "env \<Rightarrow> string \<Rightarrow> (world, Subscription option) act" where
  "GetSubscriptionByToken E token =
     run_stmt E OnDB ''SELECT FROM subscriptions WHERE token''
       (\<lambda>_ d. (Inr (lookup_by sub_Token token (subscriptions d)), d))"

definition GetSubscriptionByEmailAndRepo ::
  "env \<Rightarrow> string \<Rightarrow> string \<Rightarrow> (world, Subscription option) act" where
  "GetSubscriptionByEmailAndRepo E email repo =
     run_stmt E OnDB ''SELECT FROM subscriptions WHERE email AND repo''
       (\<lambda>_ d. (Inr (lookup_by email_repo (email, repo) (subscriptions d)), d))"

definition ConfirmSubscription :: "env \<Rightarrow> string \<Rightarrow> (world, unit) act" where
  "ConfirmSubscription E token =
     run_stmt E OnDB ''UPDATE subscriptions SET confirmed, status WHERE token''
       (\<lambda>_ d. (Inr (), d\<lparr>subscriptions :=
          upd_rows (\<lambda>s. sub_Token s = token)
            (\<lambda>s. s\<lparr>sub_Confirmed := True, sub_Status := StatusConfirmed\<rparr>) (subscriptions d)\<rparr>))"

definition mark_failed_stmt :: "nat \<Rightarrow> int \<Rightarrow> db \<Rightarrow> (gerr + nat) \<times> db" where
  "mark_failed_stmt sid _ d =
     (Inr (affected (\<lambda>s. sub_ID s = sid) (subscriptions d)),
      d\<lparr>subscriptions := upd_rows (\<lambda>s. sub_ID s = sid) (\<lambda>s. s\<lparr>sub_Status := StatusFailed\<rparr>)
          (subscriptions d)\<rparr>)"

definition MarkFailed :: "env \<Rightarrow> nat \<Rightarrow> (world, unit) act" where
  "MarkFailed E sid w =
     (case run_stmt E OnDB ''UPDATE subscriptions SET status WHERE id''
             (mark_failed_stmt sid) w of
        (Inl e, w') \<Rightarrow> (Inl (Errorf (''mark subscription '' @ dec sid @ '' failed'') e), w')
      | (Inr n, w') \<Rightarrow>
          (if n = 0
           then (Inl (ErrorString (''mark subscription '' @ dec sid @ '' failed: no rows updated'')), w')
           else (Inr (), w')))"

text \<open>
  The update of a re-subscription. The unique index on \<open>token\<close> can refuse it; the guard
  \<open>status = 'failed'\<close> makes it touch no row when the row is not in the failed state.
\<close>

definition reactivate_row :: "string \<Rightarrow> Subscription \<Rightarrow> Subscription" where
  "reactivate_row token s = s\<lparr>sub_Token := token, sub_Confirmed := False, sub_Status := StatusPending\<rparr>"

definition reactivate_stmt :: "nat \<Rightarrow> string \<Rightarrow> int \<Rightarrow> db \<Rightarrow> (gerr + nat) \<times> db" where
  "reactivate_stmt sid token _ d =
     (let P = (\<lambda>s. sub_ID s = sid \<and> sub_Status s = StatusFailed) in
      if affected P (subscriptions d) = 0 then (Inr 0, d)
      else if \<not> varchar 255 token
      then (Inl pq_too_long, d)
      else if token \<in> sub_Token ` {s \<in> set (subscriptions d). \<not> P s}
      then (Inl (pq_duplicate ''subscriptions_token_key''), d)
      else (Inr (affected P (subscriptions d)),
            d\<lparr>subscriptions := upd_rows P (reactivate_row token) (subscriptions d)\<rparr>))"

definition ReactivateInTx :: "env \<Rightarrow> executor \<Rightarrow> nat \<Rightarrow> string \<Rightarrow> (world, unit) act" where
  "ReactivateInTx E ext sid token w =
     (case run_stmt E ext ''UPDATE subscriptions SET token, confirmed, status WHERE id AND status''
             (reactivate_stmt sid token) w of
        (Inl e, w') \<Rightarrow> (Inl (Errorf (''reactivate subscription '' @ dec sid) e), w')
      | (Inr n, w') \<Rightarrow>
          (if n = 0
           then (Inl (ErrorString (''reactivate subscription '' @ dec sid @
                   '': not in failed state (already reactivated?)'')), w')
           else (Inr (), w')))"

definition DeleteSubscription :: "env \<Rightarrow> string \<Rightarrow> (world, unit) act" where
  "DeleteSubscription E token =
     run_stmt E OnDB ''DELETE FROM subscriptions WHERE token''
       (\<lambda>_ d. (Inr (), d\<lparr>subscriptions := del_rows (\<lambda>s. sub_Token s = token) (subscriptions d)\<rparr>))"

text \<open>
  Queries with several rows. Where SQL leaves the order open the environment chooses it
  (\<open>pg_rank\<close>, \<open>pg_rank_text\<close>); \<open>ORDER BY created_at\<close> sorts on top of that choice.
\<close>

definition GetSubscriptionsByEmail :: "env \<Rightarrow> string \<Rightarrow> (world, Subscription list) act" where
  "GetSubscriptionsByEmail E email w =
     run_stmt E OnDB ''SELECT FROM subscriptions WHERE email ORDER BY created_at''
       (\<lambda>_ d. (Inr (sort_key sub_CreatedAt (sort_key (pg_rank E (hist w) \<circ> sub_ID)
                 (filter (\<lambda>s. sub_Email s = email) (subscriptions d)))), d)) w"

definition GetActiveRepos :: "env \<Rightarrow> (world, string list) act" where
  "GetActiveRepos E w =
     run_stmt E OnDB ''SELECT DISTINCT repo FROM subscriptions WHERE confirmed''
       (\<lambda>_ d. (Inr (sort_key (pg_rank_text E (hist w))
                 (remdups (map sub_Repo (filter sub_Confirmed (subscriptions d))))), d)) w"

definition GetSubscribersByRepo :: "env \<Rightarrow> string \<Rightarrow> (world, Subscription list) act" where
  "GetSubscribersByRepo E repo w =
     run_stmt E OnDB ''SELECT FROM subscriptions WHERE repo AND confirmed''
       (\<lambda>_ d. (Inr (sort_key (pg_rank E (hist w) \<circ> sub_ID)
                 (filter (\<lambda>s. sub_Repo s = repo \<and> sub_Confirmed s) (subscriptions d))), d)) w"

section \<open>Constraints are kept\<close>

lemma insert_subscription_grows: "grows d (snd (insert_subscription email repo token c t d))"
  by (auto simp: insert_subscription_def Let_def grows_def db_ok_def seq_le_def
        intro: subs_ok_mono subs_ok_snoc)

lemma subs_ok_reactivate:
  fixes sid :: nat
  defines "P \<equiv> \<lambda>s. sub_ID s = sid \<and> sub_Status s = StatusFailed"
  assumes ok: "subs_ok rows n" and fresh: "token \<notin> sub_Token ` {s \<in> set rows. \<not> P s}"
  shows "subs_ok (upd_rows P (reactivate_row token) rows) n"
proof -
  have one: "x = y" if "x \<in> set rows" "y \<in> set rows" "P x" "P y" for x y
    using ok that unfolding subs_ok_def P_def by (simp add: distinct_map inj_on_def)
  have "distinct (map sub_Token (upd_rows P (reactivate_row token) rows))"
    by (rule distinct_map_upd_fresh [where k = token])
      (use ok fresh one in \<open>auto simp: subs_ok_def reactivate_row_def\<close>)
  moreover have "map sub_ID (upd_rows P (reactivate_row token) rows) = map sub_ID rows"
    "map email_repo (upd_rows P (reactivate_row token) rows) = map email_repo rows"
    by (simp_all add: row_simps reactivate_row_def)
  ultimately show ?thesis
    using ok by (auto simp: subs_ok_def reactivate_row_def elim!: in_upd_rowsE)
qed

lemma reactivate_stmt_grows: "grows d (snd (reactivate_stmt sid token t d))"
  by (simp add: reactivate_stmt_def Let_def grows_def db_ok_def seq_le_def subs_ok_reactivate)

lemma upd_subscriptions_grows:
  assumes "\<And>s. sub_ID (f s) = sub_ID s" "\<And>s. sub_Token (f s) = sub_Token s"
    "\<And>s. email_repo (f s) = email_repo s"
    "\<And>s. sub_Status (f s) = StatusConfirmed \<Longrightarrow> sub_Confirmed (f s)"
  shows "grows d (d\<lparr>subscriptions := upd_rows P f (subscriptions d)\<rparr>)"
  using assms by (simp add: grows_def db_ok_def seq_le_def subs_ok_upd)

lemma mark_failed_stmt_grows: "grows d (snd (mark_failed_stmt sid t d))"
  unfolding mark_failed_stmt_def snd_conv by (rule upd_subscriptions_grows) auto

lemma del_subscriptions_grows: "grows d (d\<lparr>subscriptions := del_rows P (subscriptions d)\<rparr>)"
  by (simp add: grows_def db_ok_def seq_le_def subs_ok_del)

lemma CreateSubscription_grows: "CreateSubscription E sub w = (r, w') \<Longrightarrow> grows (db w) (db w')"
  unfolding CreateSubscription_def
  by (auto split: prod.splits sum.splits elim: run_stmt_grows intro: insert_subscription_grows)

lemma subscription_CreateInTx_grows:
  "subscription_CreateInTx E ext email repo token w = (r, w') \<Longrightarrow> grows (db w) (db w')"
  unfolding subscription_CreateInTx_def by (erule run_stmt_grows) (rule insert_subscription_grows)

lemma ConfirmSubscription_grows: "ConfirmSubscription E token w = (r, w') \<Longrightarrow> grows (db w) (db w')"
  unfolding ConfirmSubscription_def by (erule run_stmt_grows) (simp add: upd_subscriptions_grows)

lemma DeleteSubscription_grows: "DeleteSubscription E token w = (r, w') \<Longrightarrow> grows (db w) (db w')"
  unfolding DeleteSubscription_def by (erule run_stmt_grows) (simp add: del_subscriptions_grows)

lemma MarkFailed_grows: "MarkFailed E sid w = (r, w') \<Longrightarrow> grows (db w) (db w')"
  unfolding MarkFailed_def
  by (auto split: prod.splits sum.splits if_splits elim!: run_stmt_grows intro!: mark_failed_stmt_grows)

lemma ReactivateInTx_grows: "ReactivateInTx E ext sid token w = (r, w') \<Longrightarrow> grows (db w) (db w')"
  unfolding ReactivateInTx_def
  by (auto split: prod.splits sum.splits if_splits elim!: run_stmt_grows intro!: reactivate_stmt_grows)

section \<open>What the operations do\<close>

text \<open>The row of a new subscription.\<close>

definition new_sub :: "nat \<Rightarrow> string \<Rightarrow> string \<Rightarrow> string \<Rightarrow> int \<Rightarrow> Subscription" where
  "new_sub n email repo token t =
     \<lparr>sub_ID = n, sub_Email = email, sub_Repo = repo, sub_Token = token, sub_Confirmed = False,
      sub_Status = StatusPending, sub_CreatedAt = t\<rparr>"

lemma insert_subscription_Inr:
  assumes "insert_subscription email repo token False t d = (Inr n, d')"
  shows "n = Suc (sub_seq d) \<and> token \<notin> sub_Token ` set (subscriptions d) \<and>
     (email, repo) \<notin> email_repo ` set (subscriptions d) \<and>
     d' = d\<lparr>sub_seq := n, subscriptions := subscriptions d @ [new_sub n email repo token t]\<rparr>"
  using assms by (auto simp: insert_subscription_def new_sub_def Let_def split: if_splits)

lemma insert_subscription_infra: "fst (insert_subscription email repo token c t d) = Inl e \<Longrightarrow> infra e"
  by (auto simp: insert_subscription_def Let_def split: if_splits)

lemma subscription_CreateInTx_infra:
  "subscription_CreateInTx E ext email repo token w = (Inl e, w') \<Longrightarrow> infra e"
  unfolding subscription_CreateInTx_def by (erule run_stmt_infra) (rule insert_subscription_infra)

lemma reactivate_stmt_infra: "fst (reactivate_stmt sid token t d) = Inl e \<Longrightarrow> infra e"
  by (auto simp: reactivate_stmt_def Let_def split: if_splits)

lemma ReactivateInTx_infra: "ReactivateInTx E ext sid token w = (Inl e, w') \<Longrightarrow> infra e"
  unfolding ReactivateInTx_def
  by (auto split: prod.splits sum.splits if_splits dest: run_stmt_infra [OF _ reactivate_stmt_infra])

lemma ReactivateInTx_Inr:
  assumes "ReactivateInTx E ext sid token w = (Inr x, w')"
  shows "db w' = (db w)\<lparr>subscriptions := upd_rows (\<lambda>s. sub_ID s = sid \<and> sub_Status s = StatusFailed)
            (reactivate_row token) (subscriptions (db w))\<rparr> \<and>
     (\<exists>s\<in>set (subscriptions (db w)). sub_ID s = sid \<and> sub_Status s = StatusFailed)"
proof -
  obtain n where "reactivate_stmt sid token (stmt_now E ext w) (db w) = (Inr n, db w')" "n \<noteq> 0"
    using assms by (auto simp: ReactivateInTx_def split: prod.splits sum.splits if_splits dest!: run_stmt_Inr)
  then show ?thesis
    by (auto simp: reactivate_stmt_def Let_def affected_0_iff split: if_splits)
qed

lemma MarkFailed_infra: "MarkFailed E sid w = (Inl e, w') \<Longrightarrow> infra e"
  unfolding MarkFailed_def
  by (auto split: prod.splits sum.splits if_splits dest!: run_stmt_infra simp: mark_failed_stmt_def)

lemma MarkFailed_effect:
  assumes "MarkFailed E sid w = (r, w')"
  shows "db w' = db w \<or> db w' = (db w)\<lparr>subscriptions := upd_rows (\<lambda>s. sub_ID s = sid)
            (\<lambda>s. s\<lparr>sub_Status := StatusFailed\<rparr>) (subscriptions (db w))\<rparr>"
proof -
  obtain r0 where run: "run_stmt E OnDB ''UPDATE subscriptions SET status WHERE id''
      (mark_failed_stmt sid) w = (r0, w')"
    using assms by (auto simp: MarkFailed_def split: prod.splits sum.splits if_splits)
  show ?thesis
    by (rule run_stmt_keeps [OF run, where P = "\<lambda>d. d = db w \<or> d = (db w)\<lparr>subscriptions :=
          upd_rows (\<lambda>s. sub_ID s = sid) (\<lambda>s. s\<lparr>sub_Status := StatusFailed\<rparr>) (subscriptions (db w))\<rparr>"])
      (auto simp: mark_failed_stmt_def)
qed

lemma MarkFailed_Inr:
  assumes "MarkFailed E sid w = (Inr x, w')"
  shows "db w' = (db w)\<lparr>subscriptions := upd_rows (\<lambda>s. sub_ID s = sid)
            (\<lambda>s. s\<lparr>sub_Status := StatusFailed\<rparr>) (subscriptions (db w))\<rparr> \<and>
     sid \<in> sub_ID ` set (subscriptions (db w))"
proof -
  obtain n where "mark_failed_stmt sid (stmt_now E OnDB w) (db w) = (Inr n, db w')" "n \<noteq> 0"
    using assms by (auto simp: MarkFailed_def split: prod.splits sum.splits if_splits dest!: run_stmt_Inr)
  then show ?thesis
    by (auto simp: mark_failed_stmt_def affected_pos_iff)
qed

text \<open>With no row of that id the update reports an error and changes nothing.\<close>

lemma MarkFailed_gone:
  assumes "sid \<notin> sub_ID ` set (subscriptions (db w))"
  shows "\<exists>e w'. MarkFailed E sid w = (Inl e, w') \<and> db w' = db w \<and> infra e"
proof -
  obtain r w' where run: "MarkFailed E sid w = (r, w')" by (cases "MarkFailed E sid w")
  have "upd_rows (\<lambda>s. sub_ID s = sid) f (subscriptions (db w)) = subscriptions (db w)" for f
    using assms by (intro upd_rows_none) auto
  then have "db w' = db w" using MarkFailed_effect [OF run] by auto
  moreover have "\<exists>e. r = Inl e"
    using MarkFailed_Inr [of E sid w _ w'] run assms by (cases r) auto
  ultimately show ?thesis using run MarkFailed_infra by auto
qed

lemmas subscription_store_grows = CreateSubscription_grows subscription_CreateInTx_grows
  ConfirmSubscription_grows DeleteSubscription_grows MarkFailed_grows ReactivateInTx_grows

end
