(* ===== verification/Saga_Store.thy ===== *)
theory Saga_Store
  imports World
begin

text \<open>
  The store of the saga table (\<open>internal/orchestrator/store.go\<close>). Saga ids are columns of
  type UUID: the environment's \<open>pg_uuid\<close> says which texts PostgreSQL accepts and the form it
  stores. The lemmas describe the one state an update writes and that nothing but the saga
  table changes.
\<close>

section \<open>Statements\<close>

definition insert_saga :: "env \<Rightarrow> Saga \<Rightarrow> int \<Rightarrow> db \<Rightarrow> (gerr + unit) \<times> db" where
  "insert_saga E sg t d =
     (case pg_uuid E (saga_ID sg) of
        None \<Rightarrow> (Inl pq_bad_uuid, d)
      | Some u \<Rightarrow>
          (if \<not> (varchar 255 (saga_Email sg) \<and> varchar 255 (saga_Repo sg)) then (Inl pq_too_long, d)
           else if u \<in> saga_ID ` set (sagas d) then (Inl (pq_duplicate ''saga_pkey''), d)
           else (Inr (), d\<lparr>sagas := sagas d @
                  [\<lparr>saga_ID = u, saga_SubscriptionID = saga_SubscriptionID sg,
                    saga_Email = saga_Email sg, saga_Repo = saga_Repo sg, saga_State = saga_State sg,
                    saga_Attempts = 0, saga_LastError = None, saga_CreatedAt = t,
                    saga_UpdatedAt = t\<rparr>]\<rparr>)))"

definition saga_CreateInTx :: "env \<Rightarrow> executor \<Rightarrow> Saga \<Rightarrow> (world, unit) act" where
  "saga_CreateInTx E ext sg w =
     (case run_stmt E ext ''INSERT INTO saga'' (insert_saga E sg) w of
        (Inl e, w') \<Rightarrow> (Inl (Errorf ''insert saga'' e), w')
      | (Inr _, w') \<Rightarrow> (Inr (), w'))"

definition select_saga :: "env \<Rightarrow> string \<Rightarrow> int \<Rightarrow> db \<Rightarrow> (gerr + Saga option) \<times> db" where
  "select_saga E sid _ d =
     (case pg_uuid E sid of
        None \<Rightarrow> (Inl pq_bad_uuid, d)
      | Some u \<Rightarrow> (Inr (lookup_by saga_ID u (sagas d)), d))"

definition GetByID :: "env \<Rightarrow> string \<Rightarrow> (world, Saga option) act" where
  "GetByID E sid w =
     (case run_stmt E OnDB ''SELECT FROM saga WHERE id'' (select_saga E sid) w of
        (Inl e, w') \<Rightarrow> (Inl (Errorf (''get saga '' @ sid) e), w')
      | (Inr sg, w') \<Rightarrow> (Inr sg, w'))"

definition update_saga ::
  "env \<Rightarrow> string \<Rightarrow> saga_state \<Rightarrow> string option \<Rightarrow> int \<Rightarrow> db \<Rightarrow> (gerr + nat) \<times> db" where
  "update_saga E sid st le t d =
     (case pg_uuid E sid of
        None \<Rightarrow> (Inl pq_bad_uuid, d)
      | Some u \<Rightarrow>
          (Inr (affected (\<lambda>g. saga_ID g = u) (sagas d)),
           d\<lparr>sagas := upd_rows (\<lambda>g. saga_ID g = u)
               (\<lambda>g. g\<lparr>saga_State := st, saga_LastError := le, saga_UpdatedAt := t\<rparr>) (sagas d)\<rparr>))"

definition UpdateState :: "env \<Rightarrow> string \<Rightarrow> saga_state \<Rightarrow> string \<Rightarrow> (world, unit) act" where
  "UpdateState E sid st lastErr w =
     (let le = (if lastErr \<noteq> [] then Some lastErr else None) in
      case run_stmt E OnDB ''UPDATE saga SET state, last_error, updated_at WHERE id''
             (update_saga E sid st le) w of
        (Inl e, w') \<Rightarrow> (Inl (Errorf (''update saga '' @ sid @ '' state'') e), w')
      | (Inr n, w') \<Rightarrow>
          (if n = 0
           then (Inl (ErrorString (''update saga '' @ sid @ '' state: no rows updated (saga not found)'')), w')
           else (Inr (), w')))"

definition FindResumable :: "env \<Rightarrow> int \<Rightarrow> (world, Saga list) act" where
  "FindResumable E before w =
     (case run_stmt E OnDB ''SELECT FROM saga WHERE state IN AND updated_at ORDER BY LIMIT''
             (\<lambda>_ d. (Inr (take 100 (sort_key saga_UpdatedAt
                 (sort_key (pg_rank_text E (hist w) \<circ> saga_ID)
                   (filter (\<lambda>g. saga_State g \<in> {StateSubscriptionCreated, StateCompensating} \<and>
                                saga_UpdatedAt g < before) (sagas d))))), d)) w of
        (Inl e, w') \<Rightarrow> (Inl (Errorf ''find resumable sagas'' e), w')
      | (Inr gs, w') \<Rightarrow> (Inr gs, w'))"

section \<open>Constraints are kept\<close>

lemma insert_saga_grows: "grows d (snd (insert_saga E sg t d))"
  by (simp add: insert_saga_def grows_def db_ok_def sagas_ok_def seq_le_def split: option.splits)

lemma update_saga_grows: "grows d (snd (update_saga E sid st le t d))"
  by (simp add: update_saga_def grows_def db_ok_def sagas_ok_upd seq_le_def split: option.splits)

lemma saga_CreateInTx_grows: "saga_CreateInTx E ext sg w = (r, w') \<Longrightarrow> grows (db w) (db w')"
  unfolding saga_CreateInTx_def
  by (auto split: prod.splits sum.splits elim!: run_stmt_grows intro!: insert_saga_grows)

lemma UpdateState_grows: "UpdateState E sid st le w = (r, w') \<Longrightarrow> grows (db w) (db w')"
  unfolding UpdateState_def Let_def
  by (auto split: prod.splits sum.splits if_splits elim!: run_stmt_grows intro!: update_saga_grows)

section \<open>What the operations do\<close>

text \<open>The row of a new saga.\<close>

definition new_saga :: "string \<Rightarrow> nat \<Rightarrow> string \<Rightarrow> string \<Rightarrow> int \<Rightarrow> Saga" where
  "new_saga u n email repo t =
     \<lparr>saga_ID = u, saga_SubscriptionID = n, saga_Email = email, saga_Repo = repo,
      saga_State = StateSubscriptionCreated, saga_Attempts = 0, saga_LastError = None,
      saga_CreatedAt = t, saga_UpdatedAt = t\<rparr>"

lemma insert_saga_Inr:
  assumes "insert_saga E sg t d = (Inr x, d')" "saga_State sg = StateSubscriptionCreated"
  shows "\<exists>u. pg_uuid E (saga_ID sg) = Some u \<and> u \<notin> saga_ID ` set (sagas d) \<and>
     d' = d\<lparr>sagas := sagas d @ [new_saga u (saga_SubscriptionID sg) (saga_Email sg) (saga_Repo sg) t]\<rparr>"
  using assms by (auto simp: insert_saga_def new_saga_def split: option.splits if_splits)

lemma saga_CreateInTx_Inr:
  assumes "saga_CreateInTx E (OnTx tx) sg w = (Inr x, w')" "saga_State sg = StateSubscriptionCreated"
  shows "\<exists>u. pg_uuid E (saga_ID sg) = Some u \<and> u \<notin> saga_ID ` set (sagas (db w)) \<and>
     db w' = (db w)\<lparr>sagas := sagas (db w) @
        [new_saga u (saga_SubscriptionID sg) (saga_Email sg) (saga_Repo sg) (tx_now tx)]\<rparr>"
proof -
  have "insert_saga E sg (tx_now tx) (db w) = (Inr (), db w')"
    using assms(1) by (auto simp: saga_CreateInTx_def stmt_now_def split: prod.splits sum.splits dest!: run_stmt_Inr)
  then show ?thesis by (rule insert_saga_Inr) (rule assms(2))
qed

lemma saga_CreateInTx_infra: "saga_CreateInTx E ext sg w = (Inl e, w') \<Longrightarrow> infra e"
  unfolding saga_CreateInTx_def
  by (auto split: prod.splits sum.splits dest!: run_stmt_infra
        simp: insert_saga_def split: option.splits if_splits)

lemma GetByID_infra: "GetByID E sid w = (Inl e, w') \<Longrightarrow> infra e"
  unfolding GetByID_def
  by (auto split: prod.splits sum.splits dest!: run_stmt_infra simp: select_saga_def split: option.splits)

lemma GetByID_db: "GetByID E sid w = (r, w') \<Longrightarrow> db w' = db w"
  unfolding GetByID_def
  by (auto split: prod.splits sum.splits
        elim!: run_stmt_keeps [where P = "\<lambda>d. d = db w"] simp: select_saga_def split: option.splits)

lemma GetByID_Inr:
  "GetByID E sid w = (Inr g, w') \<Longrightarrow>
     \<exists>u. pg_uuid E sid = Some u \<and> g = lookup_by saga_ID u (sagas (db w))"
  unfolding GetByID_def
  by (auto split: prod.splits sum.splits option.splits dest!: run_stmt_Inr simp: select_saga_def)

lemma UpdateState_frame:
  assumes "UpdateState E sid st le w = (r, w')"
  shows "subscriptions (db w') = subscriptions (db w) \<and> outbox (db w') = outbox (db w) \<and>
     repositories (db w') = repositories (db w) \<and> seq_le (db w) (db w')"
proof -
  obtain r0 where run: "run_stmt E OnDB ''UPDATE saga SET state, last_error, updated_at WHERE id''
     (update_saga E sid st (if le \<noteq> [] then Some le else None)) w = (r0, w')"
    using assms by (auto simp: UpdateState_def Let_def split: prod.splits sum.splits if_splits)
  show ?thesis
    by (rule run_stmt_keeps [OF run, where P = "\<lambda>d. subscriptions d = subscriptions (db w) \<and>
          outbox d = outbox (db w) \<and> repositories d = repositories (db w) \<and> seq_le (db w) d"])
      (auto simp: update_saga_def seq_le_def split: option.splits)
qed

text \<open>
  After an update every saga row is either untouched or the addressed row in the new state;
  on success the addressed row exists.
\<close>

lemma UpdateState_sagas:
  assumes "UpdateState E sid st le w = (r, w')"
  shows "sagas (db w') = sagas (db w) \<or>
     (\<exists>u t. pg_uuid E sid = Some u \<and>
        sagas (db w') = upd_rows (\<lambda>g. saga_ID g = u)
          (\<lambda>g. g\<lparr>saga_State := st, saga_LastError := if le \<noteq> [] then Some le else None,
                 saga_UpdatedAt := t\<rparr>) (sagas (db w)))"
proof -
  obtain r0 where run: "run_stmt E OnDB ''UPDATE saga SET state, last_error, updated_at WHERE id''
     (update_saga E sid st (if le \<noteq> [] then Some le else None)) w = (r0, w')"
    using assms by (auto simp: UpdateState_def Let_def split: prod.splits sum.splits if_splits)
  show ?thesis
    by (rule run_stmt_keeps [OF run, where P = "\<lambda>d. sagas d = sagas (db w) \<or>
          (\<exists>u t. pg_uuid E sid = Some u \<and> sagas d = upd_rows (\<lambda>g. saga_ID g = u)
            (\<lambda>g. g\<lparr>saga_State := st, saga_LastError := if le \<noteq> [] then Some le else None,
                   saga_UpdatedAt := t\<rparr>) (sagas (db w)))"])
      (auto simp: update_saga_def split: option.splits)
qed

lemma UpdateState_ids:
  assumes "UpdateState E sid st le w = (r, w')"
  shows "saga_ID ` set (sagas (db w')) = saga_ID ` set (sagas (db w))"
proof -
  have "map saga_ID (sagas (db w')) = map saga_ID (sagas (db w))"
    using UpdateState_sagas [OF assms] by (auto simp: row_simps)
  then show ?thesis by (metis set_map)
qed

lemma UpdateState_Inr:
  assumes "UpdateState E sid st le w = (Inr x, w')"
  shows "\<exists>u t. pg_uuid E sid = Some u \<and> u \<in> saga_ID ` set (sagas (db w)) \<and>
     sagas (db w') = upd_rows (\<lambda>g. saga_ID g = u)
       (\<lambda>g. g\<lparr>saga_State := st, saga_LastError := if le \<noteq> [] then Some le else None,
              saga_UpdatedAt := t\<rparr>) (sagas (db w))"
proof -
  obtain n where run: "run_stmt E OnDB ''UPDATE saga SET state, last_error, updated_at WHERE id''
     (update_saga E sid st (if le \<noteq> [] then Some le else None)) w = (Inr n, w')" and "n \<noteq> 0"
    using assms by (auto simp: UpdateState_def Let_def split: prod.splits sum.splits if_splits)
  from run_stmt_Inr [OF run] obtain u where u: "pg_uuid E sid = Some u"
    and n: "n = affected (\<lambda>g. saga_ID g = u) (sagas (db w))"
    and d: "db w' = (db w)\<lparr>sagas := upd_rows (\<lambda>g. saga_ID g = u)
       (\<lambda>g. g\<lparr>saga_State := st, saga_LastError := if le \<noteq> [] then Some le else None,
              saga_UpdatedAt := stmt_now E OnDB w\<rparr>) (sagas (db w))\<rparr>"
    by (auto simp: update_saga_def split: option.splits)
  from n \<open>n \<noteq> 0\<close> have "u \<in> saga_ID ` set (sagas (db w))"
    using affected_0_iff [of "\<lambda>g. saga_ID g = u" "sagas (db w)"] by auto
  with u d show ?thesis by auto
qed

lemma UpdateState_infra: "UpdateState E sid st le w = (Inl e, w') \<Longrightarrow> infra e"
  unfolding UpdateState_def Let_def
  by (auto split: prod.splits sum.splits if_splits dest!: run_stmt_infra
        simp: update_saga_def split: option.splits)

end
