(* ===== verification/Compensation.thy ===== *)
theory Compensation
  imports Subscription_Store Saga_Store
begin

text \<open>
  What the saga components share: the order of the saga states, the relation between two
  versions of the saga table in which no saga left the order, and the interface
  \<open>subscriptionCompensator\<close> (compensation C1, \<open>MarkFailed\<close>) as a locale. The reply consumer,
  the sweeper and the synchronous orchestrator are verified against the interface; the
  subscription store is shown to provide it.
\<close>

section \<open>The saga state machine\<close>

text \<open>
  The edges a saga may take: created to completed, created to compensating, compensating to
  failed. Completed and failed have no way out.
\<close>

inductive saga_edge :: "saga_state \<Rightarrow> saga_state \<Rightarrow> bool" where
  sent: "saga_edge StateSubscriptionCreated StateCompleted"
| failing: "saga_edge StateSubscriptionCreated StateCompensating"
| compensated: "saga_edge StateCompensating StateFailed"

inductive_cases saga_edge_createdE: "saga_edge StateSubscriptionCreated s"
inductive_simps saga_edge_simps: "saga_edge a b"

fun terminal :: "saga_state \<Rightarrow> bool" where
  "terminal StateCompleted = True"
| "terminal StateFailed = True"
| "terminal _ = False"

text \<open>The reflexive-transitive closure, as a function.\<close>

fun legal :: "saga_state \<Rightarrow> saga_state \<Rightarrow> bool" where
  "legal StateSubscriptionCreated _ = True"
| "legal StateCompensating s = (s = StateCompensating \<or> s = StateFailed)"
| "legal StateCompleted s = (s = StateCompleted)"
| "legal StateFailed s = (s = StateFailed)"

lemma legal_refl [simp]: "legal s s"
  by (cases s) auto

lemma legal_trans: "legal a b \<Longrightarrow> legal b c \<Longrightarrow> legal a c"
  by (cases a; cases b) auto

lemma legal_iff_edges: "legal a b \<longleftrightarrow> saga_edge\<^sup>*\<^sup>* a b"
proof
  have c: "saga_edge\<^sup>*\<^sup>* StateSubscriptionCreated b" for b
    by (cases b) (auto intro: saga_edge.intros converse_rtranclp_into_rtranclp)
  show "legal a b \<Longrightarrow> saga_edge\<^sup>*\<^sup>* a b"
    by (cases a) (auto intro: c saga_edge.intros)
next
  assume "saga_edge\<^sup>*\<^sup>* a b"
  then show "legal a b"
    by induction (auto simp: saga_edge_simps elim: legal_trans)
qed

lemma terminal_legal: "terminal s \<Longrightarrow> legal s s' \<Longrightarrow> s' = s"
  by (cases s) auto

text \<open>Two versions of the saga table: same sagas in the same order, each state moved legally.\<close>

definition saga_moved :: "Saga \<Rightarrow> Saga \<Rightarrow> bool" where
  "saga_moved g g' \<longleftrightarrow> saga_ID g' = saga_ID g \<and> saga_SubscriptionID g' = saga_SubscriptionID g \<and>
     saga_Email g' = saga_Email g \<and> saga_Repo g' = saga_Repo g \<and> saga_CreatedAt g' = saga_CreatedAt g \<and>
     legal (saga_State g) (saga_State g') \<and> (terminal (saga_State g) \<longrightarrow> g' = g)"

definition sagas_moved :: "Saga list \<Rightarrow> Saga list \<Rightarrow> bool" where
  "sagas_moved gs gs' \<longleftrightarrow> list_all2 saga_moved gs gs'"

lemma saga_moved_refl [simp]: "saga_moved g g"
  by (simp add: saga_moved_def)

lemma saga_moved_trans: "saga_moved a b \<Longrightarrow> saga_moved b c \<Longrightarrow> saga_moved a c"
  unfolding saga_moved_def by (metis legal_trans)

lemma sagas_moved_refl [simp]: "sagas_moved gs gs"
  by (simp add: sagas_moved_def list_all2_same)

lemma sagas_moved_trans: "sagas_moved a b \<Longrightarrow> sagas_moved b c \<Longrightarrow> sagas_moved a c"
  unfolding sagas_moved_def by (rule list_all2_trans [where ?P2.0 = saga_moved]) (rule saga_moved_trans)

lemma sagas_moved_upd:
  assumes "\<And>g. g \<in> set gs \<Longrightarrow> P g \<Longrightarrow> saga_moved g (f g)"
  shows "sagas_moved gs (upd_rows P f gs)"
  using assms unfolding sagas_moved_def by (induction gs) auto

lemma sagas_moved_lookup:
  "sagas_moved gs gs' \<Longrightarrow> lookup_by saga_ID u gs = Some g \<Longrightarrow>
     \<exists>g'. lookup_by saga_ID u gs' = Some g' \<and> saga_moved g g'"
  unfolding sagas_moved_def
  by (induction rule: list_all2_induct) (auto simp: saga_moved_def split: if_splits)

text \<open>
  An update of a saga that is not in a terminal state, to a state its current one leads to.
\<close>

lemma UpdateState_moves:
  assumes run: "UpdateState E sid st le w = (r, w')"
    and cur: "\<And>u g. pg_uuid E sid = Some u \<Longrightarrow> g \<in> set (sagas (db w)) \<Longrightarrow> saga_ID g = u \<Longrightarrow>
       legal (saga_State g) st \<and> \<not> terminal (saga_State g)"
  shows "sagas_moved (sagas (db w)) (sagas (db w'))"
  using UpdateState_sagas [OF run]
proof (elim disjE exE conjE)
  fix u t
  assume u: "pg_uuid E sid = Some u"
    and upd: "sagas (db w') = upd_rows (\<lambda>g. saga_ID g = u)
       (\<lambda>g. g\<lparr>saga_State := st, saga_LastError := if le \<noteq> [] then Some le else None,
              saga_UpdatedAt := t\<rparr>) (sagas (db w))"
  show ?thesis
    unfolding upd by (rule sagas_moved_upd) (use cur [OF u] in \<open>auto simp: saga_moved_def\<close>)
qed simp

section \<open>The compensator interface\<close>

definition fail_rows :: "nat \<Rightarrow> Subscription list \<Rightarrow> Subscription list" where
  "fail_rows n = upd_rows (\<lambda>s. sub_ID s = n) (\<lambda>s. s\<lparr>sub_Status := StatusFailed\<rparr>)"

text \<open>
  Compensation C1 as the reply consumer and the synchronous orchestrator run it: the saga
  moves to compensating, the subscription is marked failed, the saga moves to failed.
\<close>

definition compensate ::
  "env \<Rightarrow> (nat \<Rightarrow> (world, unit) act) \<Rightarrow> string \<Rightarrow> nat \<Rightarrow> string \<Rightarrow> (world, unit) act" where
  "compensate E mark_failed sagaID subID reason w =
     (case UpdateState E sagaID StateCompensating reason w of
        (Inl e, w1) \<Rightarrow> (Inl (Errorf (''mark saga '' @ sagaID @ '' compensating'') e), w1)
      | (Inr _, w1) \<Rightarrow>
          (case mark_failed subID w1 of
             (Inl e, w2) \<Rightarrow> (Inl (Errorf (''compensate saga '' @ sagaID) e), w2)
           | (Inr _, w2) \<Rightarrow>
               (case UpdateState E sagaID StateFailed reason w2 of
                  (Inl e, w3) \<Rightarrow> (Inl (Errorf (''fail saga '' @ sagaID) e), w3)
                | (Inr _, w3) \<Rightarrow> (Inr (), w3))))"

text \<open>There is a saga with id \<open>u\<close>, and every row that carries the id is in one of the states.\<close>

definition saga_in :: "string \<Rightarrow> saga_state set \<Rightarrow> db \<Rightarrow> bool" where
  "saga_in u sts d \<longleftrightarrow> u \<in> saga_ID ` set (sagas d) \<and> (\<forall>g\<in>set (sagas d). saga_ID g = u \<longrightarrow> saga_State g \<in> sts)"

lemma saga_in_lookup:
  "sagas_ok (sagas d) \<Longrightarrow> lookup_by saga_ID u (sagas d) = Some g \<Longrightarrow> saga_in u {saga_State g} d"
  using lookup_by_SomeD [of saga_ID u "sagas d" g] unfolding saga_in_def sagas_ok_def
  by (metis imageI lookup_by_eq_Some option.inject singletonI)

lemma saga_in_lookupD:
  "saga_in u sts d \<Longrightarrow> lookup_by saga_ID u (sagas d) = Some g \<Longrightarrow> saga_State g \<in> sts"
  unfolding saga_in_def by (blast dest: lookup_by_SomeD)

lemma UpdateState_saga_in:
  assumes "UpdateState E i st le w = (Inr x, w')" "pg_uuid E i = Some u"
  shows "saga_in u {st} (db w')"
proof -
  from UpdateState_Inr [OF assms(1)] assms(2) obtain t where
    "sagas (db w') = upd_rows (\<lambda>g. saga_ID g = u)
       (\<lambda>g. g\<lparr>saga_State := st, saga_LastError := if le \<noteq> [] then Some le else None,
              saga_UpdatedAt := t\<rparr>) (sagas (db w))"
    by auto
  moreover have "u \<in> saga_ID ` set (sagas (db w'))" using UpdateState_Inr [OF assms(1)] assms(2) UpdateState_ids [OF assms(1)] by auto
  ultimately show ?thesis unfolding saga_in_def by (auto dest!: upd_rows_hitD)
qed

lemma UpdateState_from:
  assumes "UpdateState E i st le w = (r, w')" "pg_uuid E i = Some u" "saga_in u sts (db w)"
    "\<And>s. s \<in> sts \<Longrightarrow> legal s st \<and> \<not> terminal s"
  shows "sagas_moved (sagas (db w)) (sagas (db w'))"
  by (rule UpdateState_moves [OF assms(1)]) (use assms(2-) in \<open>auto simp: saga_in_def\<close>)

locale compensator =
  fixes mark_failed :: "nat \<Rightarrow> (world, unit) act"
  assumes mark_effect: "mark_failed n w = (r, w') \<Longrightarrow>
      db w' = db w \<or> db w' = (db w)\<lparr>subscriptions := fail_rows n (subscriptions (db w))\<rparr>"
    and mark_Inr: "mark_failed n w = (Inr x, w') \<Longrightarrow>
      n \<in> sub_ID ` set (subscriptions (db w)) \<and>
      db w' = (db w)\<lparr>subscriptions := fail_rows n (subscriptions (db w))\<rparr>"
    and mark_gone: "n \<notin> sub_ID ` set (subscriptions (db w)) \<Longrightarrow>
      \<exists>e w'. mark_failed n w = (Inl e, w') \<and> db w' = db w"
    and mark_infra: "mark_failed n w = (Inl e, w') \<Longrightarrow> infra e"
begin

lemma mark_sagas: "mark_failed n w = (r, w') \<Longrightarrow> sagas (db w') = sagas (db w)"
  using mark_effect by fastforce

lemma mark_grows:
  assumes "mark_failed n w = (r, w')"
  shows "grows (db w) (db w')"
proof -
  have "grows d (d\<lparr>subscriptions := fail_rows n (subscriptions d)\<rparr>)" for d
    unfolding fail_rows_def by (rule upd_subscriptions_grows) auto
  then show ?thesis using mark_effect [OF assms] by auto
qed

lemma compensate_grows:
  "compensate E mark_failed u n reason w = (r, w') \<Longrightarrow> grows (db w) (db w')"
  unfolding compensate_def
  by (auto split: prod.splits sum.splits dest!: UpdateState_grows mark_grows intro: grows_trans)

lemma compensate_infra: "compensate E mark_failed u n reason w = (Inl e, w') \<Longrightarrow> infra e"
  unfolding compensate_def
  by (auto split: prod.splits sum.splits dest: UpdateState_infra mark_infra)

text \<open>Whatever fails on the way, the saga only moves along its edges.\<close>

lemma compensate_moves:
  assumes run: "compensate E mark_failed i n reason w = (r, w')" and u: "pg_uuid E i = Some u"
    and cur: "saga_in u {StateSubscriptionCreated, StateCompensating} (db w)"
  shows "sagas_moved (sagas (db w)) (sagas (db w'))"
proof -
  obtain q w1 where up: "UpdateState E i StateCompensating reason w = (q, w1)"
    by (cases "UpdateState E i StateCompensating reason w")
  have m1: "sagas_moved (sagas (db w)) (sagas (db w1))"
    by (rule UpdateState_from [OF up u cur]) auto
  show ?thesis
  proof (cases q)
    case (Inl e)
    then show ?thesis using run up m1 by (auto simp: compensate_def)
  next
    case (Inr x)
    obtain m w2 where mk: "mark_failed n w1 = (m, w2)" by (cases "mark_failed n w1")
    have "saga_in u {StateCompensating} (db w2)"
      using UpdateState_saga_in [OF up [unfolded Inr] u] mark_sagas [OF mk] by (simp add: saga_in_def)
    then have "sagas_moved (sagas (db w2)) (sagas (db w3))"
      if "UpdateState E i StateFailed reason w2 = (s, w3)" for s w3
      by (rule UpdateState_from [OF that u]) auto
    then show ?thesis
      using run up Inr mk m1 mark_sagas [OF mk]
      by (auto simp: compensate_def split: prod.splits sum.splits elim: sagas_moved_trans)
  qed
qed

text \<open>A successful compensation leaves the saga failed and the subscription marked.\<close>

lemma compensate_Inr:
  assumes run: "compensate E mark_failed i n reason w = (Inr x, w')" and u: "pg_uuid E i = Some u"
  shows "saga_in u {StateFailed} (db w') \<and> u \<in> saga_ID ` set (sagas (db w')) \<and>
     n \<in> sub_ID ` set (subscriptions (db w)) \<and>
     subscriptions (db w') = fail_rows n (subscriptions (db w)) \<and> outbox (db w') = outbox (db w)"
proof -
  obtain w1 w2 where up: "UpdateState E i StateCompensating reason w = (Inr (), w1)"
    and mk: "mark_failed n w1 = (Inr (), w2)" and fin: "UpdateState E i StateFailed reason w2 = (Inr (), w')"
    using run by (auto simp: compensate_def split: prod.splits sum.splits)
  have "u \<in> saga_ID ` set (sagas (db w'))"
    using UpdateState_Inr [OF fin] u UpdateState_ids [OF fin] by auto
  then show ?thesis
    using UpdateState_frame [OF up] mark_Inr [OF mk] UpdateState_frame [OF fin]
      UpdateState_saga_in [OF fin u] by simp
qed

text \<open>Without the subscription the saga ends up compensating, and the caller gets an error.\<close>

lemma compensate_gone:
  assumes "n \<notin> sub_ID ` set (subscriptions (db w))"
  shows "\<exists>e w'. compensate E mark_failed u n reason w = (Inl e, w') \<and>
     subscriptions (db w') = subscriptions (db w)"
proof -
  obtain q w1 where up: "UpdateState E u StateCompensating reason w = (q, w1)"
    by (cases "UpdateState E u StateCompensating reason w")
  have subs: "subscriptions (db w1) = subscriptions (db w)" using UpdateState_frame [OF up] by simp
  with mark_gone [of n w1] assms obtain e w2 where "mark_failed n w1 = (Inl e, w2)" "db w2 = db w1" by auto
  with up subs show ?thesis by (cases q) (auto simp: compensate_def)
qed

end

interpretation store_compensator: compensator "MarkFailed E" for E
proof
  fix n w r w'
  show "MarkFailed E n w = (r, w') \<Longrightarrow>
      db w' = db w \<or> db w' = (db w)\<lparr>subscriptions := fail_rows n (subscriptions (db w))\<rparr>"
    unfolding fail_rows_def by (rule MarkFailed_effect)
next
  fix n w x w'
  show "MarkFailed E n w = (Inr x, w') \<Longrightarrow> n \<in> sub_ID ` set (subscriptions (db w)) \<and>
      db w' = (db w)\<lparr>subscriptions := fail_rows n (subscriptions (db w))\<rparr>"
    unfolding fail_rows_def by (drule MarkFailed_Inr) (elim conjE, intro conjI)
next
  fix n w
  show "n \<notin> sub_ID ` set (subscriptions (db w)) \<Longrightarrow>
      \<exists>e w'. MarkFailed E n w = (Inl e, w') \<and> db w' = db w"
    using MarkFailed_gone by blast
next
  fix n w e w'
  show "MarkFailed E n w = (Inl e, w') \<Longrightarrow> infra e"
    by (rule MarkFailed_infra)
qed

lemma fail_rows_status:
  "s \<in> set (fail_rows n rows) \<Longrightarrow> sub_ID s = n \<Longrightarrow> sub_Status s = StatusFailed"
  unfolding fail_rows_def by (drule (1) upd_rows_hitD) auto

lemma fail_rows_keep:
  assumes "s \<in> set (fail_rows n rows)" "sub_ID s \<noteq> n"
  shows "s \<in> set rows"
  using assms(1) unfolding fail_rows_def
proof (cases rule: in_upd_rowsE)
  case (hit s')
  then show ?thesis using assms(2) by simp
qed

lemma fail_rows_idem [simp]: "fail_rows n (fail_rows n rows) = fail_rows n rows"
  unfolding fail_rows_def by (induction rows) auto

end
