(* ===== verification/Outbox_Store.thy ===== *)
theory Outbox_Store
  imports World
begin

text \<open>
  The store of the transactional outbox (\<open>internal/outbox/store.go\<close>): enqueueing a command,
  fetching what is not yet published (oldest first, at most a batch), stamping a message as
  published and resetting a saga's messages to unpublished.
\<close>

section \<open>Statements\<close>

definition insert_outbox ::
  "env \<Rightarrow> string option \<Rightarrow> string \<Rightarrow> string \<Rightarrow> json \<Rightarrow> int \<Rightarrow> db \<Rightarrow> (gerr + unit) \<times> db" where
  "insert_outbox E sid routingKey messageID payload t d =
     (let su = (case sid of None \<Rightarrow> Inr None
                | Some s \<Rightarrow> (case pg_uuid E s of None \<Rightarrow> Inl pq_bad_uuid | Some u \<Rightarrow> Inr (Some u)))
      in case su of
        Inl e \<Rightarrow> (Inl e, d)
      | Inr u \<Rightarrow>
          (if bigserial_max \<le> outbox_seq d then (Inl pq_sequence_max, d)
           else
            (let n = Suc (outbox_seq d); d1 = d\<lparr>outbox_seq := n\<rparr> in
             if \<not> (varchar 255 routingKey \<and> varchar 255 messageID) then (Inl pq_too_long, d1)
             else if payload = JMalformed
             then (Inl (ErrorString ''pq: invalid input syntax for type json''), d1)
             else if messageID \<in> msg_MessageID ` set (outbox d)
             then (Inl (pq_duplicate ''idx_outbox_message_id''), d1)
             else (Inr (), d1\<lparr>outbox := outbox d @
                    [\<lparr>msg_ID = n, msg_SagaID = u, msg_RoutingKey = routingKey,
                      msg_MessageID = messageID, msg_Payload = payload, msg_CreatedAt = t,
                      msg_PublishedAt = None\<rparr>]\<rparr>))))"

definition Enqueue ::
  "env \<Rightarrow> executor \<Rightarrow> string \<Rightarrow> string \<Rightarrow> string \<Rightarrow> json \<Rightarrow> (world, unit) act" where
  "Enqueue E ext sagaID routingKey messageID payload w =
     (let sid = (if sagaID \<noteq> [] then Some sagaID else None) in
      case run_stmt E ext ''INSERT INTO outbox''
             (insert_outbox E sid routingKey messageID payload) w of
        (Inl e, w') \<Rightarrow> (Inl (Errorf ''enqueue outbox message'' e), w')
      | (Inr _, w') \<Rightarrow> (Inr (), w'))"

definition unpublished :: "nat \<Rightarrow> Message list \<Rightarrow> Message list" where
  "unpublished limit ms = take limit (sort_key msg_ID (filter (\<lambda>m. msg_PublishedAt m = None) ms))"

definition FetchUnpublished :: "env \<Rightarrow> nat \<Rightarrow> (world, Message list) act" where
  "FetchUnpublished E limit w =
     (case run_stmt E OnDB ''SELECT FROM outbox WHERE published_at IS NULL ORDER BY id LIMIT''
             (\<lambda>_ d. (Inr (unpublished limit (outbox d)), d)) w of
        (Inl e, w') \<Rightarrow> (Inl (Errorf ''fetch unpublished outbox messages'' e), w')
      | (Inr ms, w') \<Rightarrow> (Inr ms, w'))"

definition mark_stmt :: "nat \<Rightarrow> int \<Rightarrow> db \<Rightarrow> (gerr + unit) \<times> db" where
  "mark_stmt mid t d =
     (Inr (), d\<lparr>outbox := upd_rows (\<lambda>m. msg_ID m = mid) (\<lambda>m. m\<lparr>msg_PublishedAt := Some t\<rparr>) (outbox d)\<rparr>)"

definition MarkPublished :: "env \<Rightarrow> nat \<Rightarrow> (world, unit) act" where
  "MarkPublished E mid w =
     (case run_stmt E OnDB ''UPDATE outbox SET published_at WHERE id'' (mark_stmt mid) w of
        (Inl e, w') \<Rightarrow> (Inl (Errorf (''mark outbox message '' @ dec mid @ '' published'') e), w')
      | (Inr _, w') \<Rightarrow> (Inr (), w'))"

definition requeue_stmt :: "env \<Rightarrow> string \<Rightarrow> int \<Rightarrow> db \<Rightarrow> (gerr + unit) \<times> db" where
  "requeue_stmt E sid _ d =
     (case pg_uuid E sid of
        None \<Rightarrow> (Inl pq_bad_uuid, d)
      | Some u \<Rightarrow> (Inr (), d\<lparr>outbox := upd_rows (\<lambda>m. msg_SagaID m = Some u)
                      (\<lambda>m. m\<lparr>msg_PublishedAt := None\<rparr>) (outbox d)\<rparr>))"

definition Requeue :: "env \<Rightarrow> string \<Rightarrow> (world, unit) act" where
  "Requeue E sagaID w =
     (case run_stmt E OnDB ''UPDATE outbox SET published_at = NULL WHERE saga_id''
             (requeue_stmt E sagaID) w of
        (Inl e, w') \<Rightarrow> (Inl (Errorf (''requeue outbox for saga '' @ sagaID) e), w')
      | (Inr _, w') \<Rightarrow> (Inr (), w'))"

section \<open>Constraints are kept\<close>

lemma insert_outbox_grows: "grows d (snd (insert_outbox E sid rk mid p t d))"
  by (auto simp: insert_outbox_def Let_def grows_def db_ok_def seq_le_def
        split: option.splits sum.splits intro: outbox_ok_mono outbox_ok_snoc)

lemma upd_outbox_grows:
  assumes "\<And>m. msg_ID (f m) = msg_ID m" "\<And>m. msg_MessageID (f m) = msg_MessageID m"
  shows "grows d (d\<lparr>outbox := upd_rows P f (outbox d)\<rparr>)"
  using assms by (simp add: grows_def db_ok_def seq_le_def outbox_ok_upd)

lemma Enqueue_grows: "Enqueue E ext sid rk mid p w = (r, w') \<Longrightarrow> grows (db w) (db w')"
  unfolding Enqueue_def Let_def
  by (auto split: prod.splits sum.splits elim!: run_stmt_grows intro!: insert_outbox_grows)

lemma MarkPublished_grows: "MarkPublished E mid w = (r, w') \<Longrightarrow> grows (db w) (db w')"
  unfolding MarkPublished_def mark_stmt_def
  by (auto split: prod.splits sum.splits elim!: run_stmt_grows intro!: upd_outbox_grows)

lemma requeue_stmt_grows: "grows d (snd (requeue_stmt E sid t d))"
  by (auto simp: requeue_stmt_def split: option.splits intro!: upd_outbox_grows)

lemma Requeue_grows: "Requeue E sid w = (r, w') \<Longrightarrow> grows (db w) (db w')"
  unfolding Requeue_def
  by (auto split: prod.splits sum.splits elim!: run_stmt_grows intro!: requeue_stmt_grows)

section \<open>What the operations do\<close>

lemma insert_outbox_Inr:
  assumes "insert_outbox E sid rk mid p t d = (Inr x, d')"
  shows "\<exists>u. (case sid of None \<Rightarrow> u = None | Some s \<Rightarrow> u = pg_uuid E s \<and> u \<noteq> None) \<and>
     mid \<notin> msg_MessageID ` set (outbox d) \<and>
     d' = d\<lparr>outbox_seq := Suc (outbox_seq d), outbox := outbox d @
       [\<lparr>msg_ID = Suc (outbox_seq d), msg_SagaID = u, msg_RoutingKey = rk, msg_MessageID = mid,
         msg_Payload = p, msg_CreatedAt = t, msg_PublishedAt = None\<rparr>]\<rparr>"
  using assms by (auto simp: insert_outbox_def Let_def split: option.splits sum.splits if_splits)

lemma insert_outbox_infra: "fst (insert_outbox E sid rk mid p t d) = Inl e \<Longrightarrow> infra e"
  by (auto simp: insert_outbox_def Let_def split: option.splits sum.splits if_splits)

lemma Enqueue_infra: "Enqueue E ext sid rk mid p w = (Inl e, w') \<Longrightarrow> infra e"
  unfolding Enqueue_def Let_def
  by (auto split: prod.splits sum.splits dest: run_stmt_infra [OF _ insert_outbox_infra])

lemma FetchUnpublished_db: "FetchUnpublished E n w = (r, w') \<Longrightarrow> db w' = db w"
  unfolding FetchUnpublished_def
  by (auto split: prod.splits sum.splits elim!: run_stmt_keeps [where P = "\<lambda>d. d = db w"])

lemma FetchUnpublished_Inr:
  "FetchUnpublished E n w = (Inr ms, w') \<Longrightarrow> ms = unpublished n (outbox (db w))"
  unfolding FetchUnpublished_def by (auto split: prod.splits sum.splits dest!: run_stmt_Inr)

lemma set_unpublished: "m \<in> set (unpublished n ms) \<Longrightarrow> m \<in> set ms \<and> msg_PublishedAt m = None"
  by (auto simp: unpublished_def dest: in_set_takeD)

lemma sorted_unpublished: "sorted (map msg_ID (unpublished n ms))"
  by (simp add: unpublished_def take_map [symmetric] sorted_wrt_take)

lemma distinct_unpublished:
  "distinct (map msg_ID ms) \<Longrightarrow> distinct (map msg_ID (unpublished n ms))"
  by (simp add: unpublished_def take_map [symmetric] distinct_map distinct_take inj_on_def)

text \<open>A full batch never skips a message older than one it contains.\<close>

lemma unpublished_oldest:
  assumes "m \<in> set (unpublished n ms)" "m' \<in> set ms" "msg_PublishedAt m' = None"
    "msg_ID m' < msg_ID m"
  shows "m' \<in> set (unpublished n ms)"
proof (rule ccontr)
  let ?s = "sort_key msg_ID (filter (\<lambda>m. msg_PublishedAt m = None) ms)"
  assume "m' \<notin> set (unpublished n ms)"
  moreover have "m' \<in> set ?s" using assms by simp
  moreover have "set ?s = set (take n ?s) \<union> set (drop n ?s)"
    by (metis append_take_drop_id set_append)
  ultimately have "m' \<in> set (drop n ?s)" by (auto simp: unpublished_def)
  moreover have "sorted (map msg_ID (take n ?s) @ map msg_ID (drop n ?s))"
    by (metis append_take_drop_id map_append sorted_sort_key)
  ultimately have "msg_ID m \<le> msg_ID m'"
    using assms(1) by (auto simp: sorted_append unpublished_def)
  with assms(4) show False by simp
qed

lemma MarkPublished_Inr:
  "MarkPublished E mid w = (Inr x, w') \<Longrightarrow>
     \<exists>t. db w' = (db w)\<lparr>outbox := upd_rows (\<lambda>m. msg_ID m = mid)
            (\<lambda>m. m\<lparr>msg_PublishedAt := Some t\<rparr>) (outbox (db w))\<rparr>"
  unfolding MarkPublished_def
  by (auto split: prod.splits sum.splits dest!: run_stmt_Inr simp: mark_stmt_def) metis

lemma MarkPublished_effect:
  assumes "MarkPublished E mid w = (r, w')"
  shows "db w' = db w \<or> (\<exists>t. db w' = (db w)\<lparr>outbox := upd_rows (\<lambda>m. msg_ID m = mid)
            (\<lambda>m. m\<lparr>msg_PublishedAt := Some t\<rparr>) (outbox (db w))\<rparr>)"
proof -
  obtain r0 where run: "run_stmt E OnDB ''UPDATE outbox SET published_at WHERE id'' (mark_stmt mid) w = (r0, w')"
    using assms by (auto simp: MarkPublished_def split: prod.splits sum.splits)
  show ?thesis
    by (rule run_stmt_keeps [OF run, where P = "\<lambda>d. d = db w \<or> (\<exists>t. d = (db w)\<lparr>outbox :=
          upd_rows (\<lambda>m. msg_ID m = mid) (\<lambda>m. m\<lparr>msg_PublishedAt := Some t\<rparr>) (outbox (db w))\<rparr>)"])
      (auto simp: mark_stmt_def)
qed

lemma Requeue_effect:
  assumes "Requeue E sid w = (r, w')"
  shows "db w' = db w \<or> (\<exists>u. pg_uuid E sid = Some u \<and> db w' = (db w)\<lparr>outbox :=
     upd_rows (\<lambda>m. msg_SagaID m = Some u) (\<lambda>m. m\<lparr>msg_PublishedAt := None\<rparr>) (outbox (db w))\<rparr>)"
proof -
  obtain r0 where run: "run_stmt E OnDB ''UPDATE outbox SET published_at = NULL WHERE saga_id''
      (requeue_stmt E sid) w = (r0, w')"
    using assms by (auto simp: Requeue_def split: prod.splits sum.splits)
  show ?thesis
    by (rule run_stmt_keeps [OF run, where P = "\<lambda>d. d = db w \<or> (\<exists>u. pg_uuid E sid = Some u \<and>
          d = (db w)\<lparr>outbox := upd_rows (\<lambda>m. msg_SagaID m = Some u)
            (\<lambda>m. m\<lparr>msg_PublishedAt := None\<rparr>) (outbox (db w))\<rparr>)"])
      (auto simp: requeue_stmt_def split: option.splits)
qed

end
