(* ===== verification/Notification.thy ===== *)
theory Notification
  imports World
begin

text \<open>
  The wire contract between the monolith and the notifier (\<open>internal/notification\<close>): the
  JSON commands and replies, and the AMQP publisher. The round-trip lemmas say that what one
  process marshals the other one reads back unchanged.
\<close>

section \<open>Commands and replies\<close>

record ConfirmationRequest =
  cr_SagaID :: string
  cr_To :: string
  cr_ConfirmURL :: string

record ReleaseRequest =
  rr_To :: string
  rr_Repo :: string
  rr_Tag :: string
  rr_UnsubscribeURL :: string

record SagaReply =
  rep_SagaID :: string
  rep_Status :: string

definition SagaStatusSent :: string where
  "SagaStatusSent = ''sent''"

definition SagaStatusFailed :: string where
  "SagaStatusFailed = ''failed''"

text \<open>\<open>saga_id\<close> is tagged \<open>omitempty\<close> in the confirmation command.\<close>

definition marshal_ConfirmationRequest :: "ConfirmationRequest \<Rightarrow> json" where
  "marshal_ConfirmationRequest r = JObject
     ((if cr_SagaID r = [] then [] else [(''saga_id'', JString (cr_SagaID r))]) @
      [(''to'', JString (cr_To r)), (''confirm_url'', JString (cr_ConfirmURL r))])"

definition marshal_ReleaseRequest :: "ReleaseRequest \<Rightarrow> json" where
  "marshal_ReleaseRequest r = JObject
     [(''to'', JString (rr_To r)), (''repo'', JString (rr_Repo r)), (''tag'', JString (rr_Tag r)),
      (''unsubscribe_url'', JString (rr_UnsubscribeURL r))]"

definition marshal_SagaReply :: "SagaReply \<Rightarrow> json" where
  "marshal_SagaReply r = JObject
     [(''saga_id'', JString (rep_SagaID r)), (''status'', JString (rep_Status r))]"

definition unmarshal_ConfirmationRequest :: "json \<Rightarrow> gerr + ConfirmationRequest" where
  "unmarshal_ConfirmationRequest j =
     (case unmarshal_struct [''saga_id'', ''to'', ''confirm_url''] j of
        Inl e \<Rightarrow> Inl e
      | Inr vs \<Rightarrow> Inr \<lparr>cr_SagaID = vs ! 0, cr_To = vs ! 1, cr_ConfirmURL = vs ! 2\<rparr>)"

definition unmarshal_ReleaseRequest :: "json \<Rightarrow> gerr + ReleaseRequest" where
  "unmarshal_ReleaseRequest j =
     (case unmarshal_struct [''to'', ''repo'', ''tag'', ''unsubscribe_url''] j of
        Inl e \<Rightarrow> Inl e
      | Inr vs \<Rightarrow> Inr \<lparr>rr_To = vs ! 0, rr_Repo = vs ! 1, rr_Tag = vs ! 2, rr_UnsubscribeURL = vs ! 3\<rparr>)"

definition unmarshal_SagaReply :: "json \<Rightarrow> gerr + SagaReply" where
  "unmarshal_SagaReply j =
     (case unmarshal_struct [''saga_id'', ''status''] j of
        Inl e \<Rightarrow> Inl e
      | Inr vs \<Rightarrow> Inr \<lparr>rep_SagaID = vs ! 0, rep_Status = vs ! 1\<rparr>)"

lemma unmarshal_marshal_ConfirmationRequest:
  "unmarshal_ConfirmationRequest (marshal_ConfirmationRequest r) = Inr r"
  by (simp add: unmarshal_ConfirmationRequest_def marshal_ConfirmationRequest_def same_field_def fold_name_def lower_def)

lemma unmarshal_marshal_ReleaseRequest:
  "unmarshal_ReleaseRequest (marshal_ReleaseRequest r) = Inr r"
  by (simp add: unmarshal_ReleaseRequest_def marshal_ReleaseRequest_def same_field_def fold_name_def lower_def)

lemma unmarshal_marshal_SagaReply: "unmarshal_SagaReply (marshal_SagaReply r) = Inr r"
  by (simp add: unmarshal_SagaReply_def marshal_SagaReply_def same_field_def fold_name_def lower_def)

lemmas wire_roundtrips [simp] = unmarshal_marshal_ConfirmationRequest
  unmarshal_marshal_ReleaseRequest unmarshal_marshal_SagaReply

lemma unmarshal_ConfirmationRequest_infra: "unmarshal_ConfirmationRequest j = Inl e \<Longrightarrow> infra e"
  by (auto simp: unmarshal_ConfirmationRequest_def split: sum.splits dest: unmarshal_struct_infra)

lemma unmarshal_SagaReply_infra: "unmarshal_SagaReply j = Inl e \<Longrightarrow> infra e"
  by (auto simp: unmarshal_SagaReply_def split: sum.splits dest: unmarshal_struct_infra)

section \<open>The broker publisher\<close>

definition ExchangeName :: string where
  "ExchangeName = ''notifications''"

definition RoutingConfirm :: string where
  "RoutingConfirm = ''confirmation''"

definition RoutingRelease :: string where
  "RoutingRelease = ''release''"

definition RoutingSagaReply :: string where
  "RoutingSagaReply = ''saga.reply''"

text \<open>Handing one message to the AMQP channel.\<close>

definition PublishWithContext :: "env \<Rightarrow> amqp_Publishing \<Rightarrow> (world, unit) act" where
  "PublishWithContext E p w =
     (case amqp_Publish E (hist w) p of
        None \<Rightarrow> (Inr (), logged (AmqpPublish p True) w)
      | Some m \<Rightarrow> (Inl (ErrorString m), logged (AmqpPublish p False) w))"

definition broker_message :: "string \<Rightarrow> string \<Rightarrow> json \<Rightarrow> amqp_Publishing" where
  "broker_message routingKey messageID body =
     \<lparr>pub_Exchange = ExchangeName, pub_RoutingKey = routingKey, pub_ContentType = ''application/json'',
      pub_Persistent = True, pub_MessageId = messageID, pub_Body = body\<rparr>"

definition Publish :: "env \<Rightarrow> string \<Rightarrow> string \<Rightarrow> json \<Rightarrow> (world, unit) act" where
  "Publish E routingKey messageID body = PublishWithContext E (broker_message routingKey messageID body)"

definition release_message_id :: "string \<Rightarrow> string \<Rightarrow> string \<Rightarrow> string" where
  "release_message_id repo tag unsubscribeURL =
     ''release:'' @ repo @ '':'' @ tag @ '':'' @ path_Base unsubscribeURL"

definition SendReleaseNotification ::
  "env \<Rightarrow> string \<Rightarrow> string \<Rightarrow> string \<Rightarrow> string \<Rightarrow> (world, unit) act" where
  "SendReleaseNotification E to repo tag unsubscribeURL =
     Publish E RoutingRelease (release_message_id repo tag unsubscribeURL)
       (marshal_ReleaseRequest \<lparr>rr_To = to, rr_Repo = repo, rr_Tag = tag,
          rr_UnsubscribeURL = unsubscribeURL\<rparr>)"

lemma PublishWithContext_frame [frame_simps]:
  "db (snd (PublishWithContext E p w)) = db w"
  "metrics (snd (PublishWithContext E p w)) = metrics w"
  "hist (snd (PublishWithContext E p w)) =
     AmqpPublish p (fst (PublishWithContext E p w) = Inr ()) # hist w"
  by (auto simp: PublishWithContext_def split: option.splits)

text \<open>
  The messages handed to the broker, newest first: every attempt counts, since a failed
  publish may have reached the broker as well.
\<close>

definition published :: "history \<Rightarrow> amqp_Publishing set" where
  "published h = {p. \<exists>ok. AmqpPublish p ok \<in> set h}"

lemma published_simps [simp]:
  "published [] = {}"
  "published (AmqpPublish p ok # h) = insert p (published h)"
  by (auto simp: published_def)

end
