(* ===== verification/Orchestrator.thy ===== *)
theory Orchestrator
  imports Compensation Outbox_Store Notification
begin

text \<open>
  The saga orchestrator (\<open>internal/orchestrator/orchestrator.go\<close>). Step T1 writes the
  subscription, the saga and, on the broker transport, the outbox command in one
  transaction; on the synchronous transport it writes the first two and then calls the
  notifier, completing or compensating the saga with the outcome. The central lemma is the
  atomicity of T1 under every answer of the database, lost commit acknowledgements included.
\<close>

section \<open>Operations\<close>

text \<open>\<open>confirmationSender.SendConfirmation(ctx, email, repo, confirmURL)\<close>; \<open>None\<close> is the nil sender.\<close>

type_synonym confirmation_sender = "string \<Rightarrow> string \<Rightarrow> string \<Rightarrow> (world, unit) act"

text \<open>
  The transaction bracket the three T1 variants share: \<open>BeginTxx\<close>, a deferred \<open>Rollback\<close>
  (which takes effect when the body returns an error and is a no-op after a commit), the
  body, \<open>Commit\<close>.
\<close>

definition saga_tx :: "env \<Rightarrow> (pg_tx \<Rightarrow> (world, 'a) act) \<Rightarrow> (world, 'a) act" where
  "saga_tx E body w =
     (case BeginTxx E w of
        (Inl e, w1) \<Rightarrow> (Inl (Errorf ''begin saga transaction'' e), w1)
      | (Inr tx, w1) \<Rightarrow>
          (case body tx w1 of
             (Inl e, w2) \<Rightarrow> (Inl e, Rollback tx w2)
           | (Inr x, w2) \<Rightarrow>
               (case Commit E tx w2 of
                  (Inl e, w3) \<Rightarrow> (Inl (Errorf ''commit saga transaction'' e), w3)
                | (Inr _, w3) \<Rightarrow> (Inr x, w3))))"

definition enqueueConfirmation ::
  "env \<Rightarrow> pg_tx \<Rightarrow> nat \<Rightarrow> string \<Rightarrow> string \<Rightarrow> string \<Rightarrow> string \<Rightarrow> (world, unit) act" where
  "enqueueConfirmation E tx subID email repo token confirmURL w =
     (case new_uuid E w of (sagaID, w1) \<Rightarrow>
       (let payload = marshal_ConfirmationRequest
              \<lparr>cr_SagaID = sagaID, cr_To = email, cr_ConfirmURL = confirmURL\<rparr>;
            sg = \<lparr>saga_ID = sagaID, saga_SubscriptionID = subID, saga_Email = email, saga_Repo = repo,
                   saga_State = StateSubscriptionCreated, saga_Attempts = 0, saga_LastError = None,
                   saga_CreatedAt = 0, saga_UpdatedAt = 0\<rparr>
        in case saga_CreateInTx E (OnTx tx) sg w1 of
             (Inl e, w2) \<Rightarrow> (Inl (Errorf ''create saga'' e), w2)
           | (Inr _, w2) \<Rightarrow>
               (case Enqueue E (OnTx tx) sagaID RoutingConfirm (''confirm:'' @ token) payload w2 of
                  (Inl e, w3) \<Rightarrow> (Inl (Errorf ''enqueue confirmation command'' e), w3)
                | (Inr _, w3) \<Rightarrow> (Inr (), w3))))"

definition createSubscriptionAndSaga ::
  "env \<Rightarrow> string \<Rightarrow> string \<Rightarrow> string \<Rightarrow> nat \<Rightarrow> (world, nat \<times> string) act" where
  "createSubscriptionAndSaga E email repo token reactivateID =
     saga_tx E (\<lambda>tx w1.
       case (if reactivateID = 0
             then (case subscription_CreateInTx E (OnTx tx) email repo token w1 of
                     (Inl e, w2) \<Rightarrow> (Inl (Errorf ''create subscription'' e), w2)
                   | (Inr subID, w2) \<Rightarrow> (Inr subID, w2))
             else (case ReactivateInTx E (OnTx tx) reactivateID token w1 of
                     (Inl e, w2) \<Rightarrow> (Inl (Errorf ''reactivate subscription'' e), w2)
                   | (Inr _, w2) \<Rightarrow> (Inr reactivateID, w2))) of
         (Inl e, w2) \<Rightarrow> (Inl e, w2)
       | (Inr subID, w2) \<Rightarrow>
           (case new_uuid E w2 of (sagaID, w3) \<Rightarrow>
             (let sg = \<lparr>saga_ID = sagaID, saga_SubscriptionID = subID, saga_Email = email,
                        saga_Repo = repo, saga_State = StateSubscriptionCreated, saga_Attempts = 0,
                        saga_LastError = None, saga_CreatedAt = 0, saga_UpdatedAt = 0\<rparr>
              in case saga_CreateInTx E (OnTx tx) sg w3 of
                   (Inl e, w4) \<Rightarrow> (Inl (Errorf ''create saga'' e), w4)
                 | (Inr _, w4) \<Rightarrow> (Inr (subID, sagaID), w4))))"

definition compensateSync :: "env \<Rightarrow> string \<Rightarrow> nat \<Rightarrow> (world, unit) act" where
  "compensateSync E sagaID subID =
     compensate E (MarkFailed E) sagaID subID ''confirmation email failed (grpc)''"

definition dispatchSync ::
  "env \<Rightarrow> confirmation_sender \<Rightarrow> string \<Rightarrow> nat \<Rightarrow> string \<Rightarrow> string \<Rightarrow> string \<Rightarrow> (world, unit) act" where
  "dispatchSync E send sagaID subID email repo confirmURL w =
     (case send email repo confirmURL w of
        (Inl _, w1) \<Rightarrow> compensateSync E sagaID subID w1
      | (Inr _, w1) \<Rightarrow>
          (case UpdateState E sagaID StateCompleted [] w1 of
             (Inl e, w2) \<Rightarrow> (Inl (Errorf (''complete saga '' @ sagaID) e), w2)
           | (Inr _, w2) \<Rightarrow> (Inr (), w2)))"

definition startConfirmationSync ::
  "env \<Rightarrow> confirmation_sender \<Rightarrow> string \<Rightarrow> string \<Rightarrow> string \<Rightarrow> string \<Rightarrow> (world, unit) act" where
  "startConfirmationSync E send email repo token confirmURL w =
     (case createSubscriptionAndSaga E email repo token 0 w of
        (Inl e, w1) \<Rightarrow> (Inl e, w1)
      | (Inr (subID, sagaID), w1) \<Rightarrow> dispatchSync E send sagaID subID email repo confirmURL w1)"

definition reactivateConfirmationSync ::
  "env \<Rightarrow> confirmation_sender \<Rightarrow> nat \<Rightarrow> string \<Rightarrow> string \<Rightarrow> string \<Rightarrow> string \<Rightarrow> (world, unit) act" where
  "reactivateConfirmationSync E send subscriptionID email repo token confirmURL w =
     (case createSubscriptionAndSaga E email repo token subscriptionID w of
        (Inl e, w1) \<Rightarrow> (Inl e, w1)
      | (Inr (subID, sagaID), w1) \<Rightarrow> dispatchSync E send sagaID subID email repo confirmURL w1)"

definition StartConfirmation ::
  "env \<Rightarrow> confirmation_sender option \<Rightarrow> string \<Rightarrow> string \<Rightarrow> string \<Rightarrow> string \<Rightarrow> (world, unit) act" where
  "StartConfirmation E sender email repo token confirmURL =
     (case sender of
        Some send \<Rightarrow> startConfirmationSync E send email repo token confirmURL
      | None \<Rightarrow>
          saga_tx E (\<lambda>tx w1.
            case subscription_CreateInTx E (OnTx tx) email repo token w1 of
              (Inl e, w2) \<Rightarrow> (Inl (Errorf ''create subscription'' e), w2)
            | (Inr subID, w2) \<Rightarrow> enqueueConfirmation E tx subID email repo token confirmURL w2))"

definition ReactivateConfirmation ::
  "env \<Rightarrow> confirmation_sender option \<Rightarrow> nat \<Rightarrow> string \<Rightarrow> string \<Rightarrow> string \<Rightarrow> string \<Rightarrow> (world, unit) act" where
  "ReactivateConfirmation E sender subscriptionID email repo token confirmURL =
     (case sender of
        Some send \<Rightarrow> reactivateConfirmationSync E send subscriptionID email repo token confirmURL
      | None \<Rightarrow>
          saga_tx E (\<lambda>tx w1.
            case ReactivateInTx E (OnTx tx) subscriptionID token w1 of
              (Inl e, w2) \<Rightarrow> (Inl (Errorf ''reactivate subscription'' e), w2)
            | (Inr _, w2) \<Rightarrow> enqueueConfirmation E tx subscriptionID email repo token confirmURL w2))"

section \<open>Constraints are kept\<close>

lemma enqueueConfirmation_grows:
  "enqueueConfirmation E tx n email repo token url w = (r, w') \<Longrightarrow> grows (db w) (db w')"
  unfolding enqueueConfirmation_def Let_def new_uuid_def
  by (auto split: prod.splits sum.splits dest!: saga_CreateInTx_grows Enqueue_grows intro: grows_trans)

lemma enqueueConfirmation_infra:
  "enqueueConfirmation E tx n email repo token url w = (Inl e, w') \<Longrightarrow> infra e"
  unfolding enqueueConfirmation_def Let_def new_uuid_def
  by (auto split: prod.splits sum.splits dest: saga_CreateInTx_infra Enqueue_infra)

text \<open>
  A transaction has three outcomes for the tables: it never ran or was undone (then the
  client sees an error), or its body succeeded and its rows are there (then the client sees
  success, or an error because the acknowledgement of the commit was lost).
\<close>

lemma saga_txE:
  assumes "saga_tx E body w = (r, w')"
  obtains
    (undone) e d where "r = Inl e" "db w' = restore (db w) d"
      "d = db w \<or> (\<exists>tx w1 q w2. db w1 = db w \<and> body tx w1 = (q, w2) \<and> d = db w2)"
      "infra e \<or> (\<exists>tx w1 w2. body tx w1 = (Inl e, w2))"
  | (committed) tx w1 x w2 where "tx_tables tx = db w" "db w1 = db w" "body tx w1 = (Inr x, w2)"
      "db w' = db w2" "r = Inr x \<or> (\<exists>e. r = Inl e \<and> infra e)"
proof (cases "BeginTxx E w")
  case (Pair b w1)
  show ?thesis
  proof (cases b)
    case (Inl e)
    have "restore (db w) (db w) = db w" by (simp add: restore_def)
    then show ?thesis
      using assms Pair Inl BeginTxx_db [OF Pair] BeginTxx_infra [of E w e w1]
      by (intro undone [of "Errorf ''begin saga transaction'' e" "db w"]) (auto simp: saga_tx_def)
  next
    case (Inr tx)
    have tx: "tx_tables tx = db w" "db w1 = db w" using BeginTxx_Inr Pair Inr by auto
    obtain q w2 where body: "body tx w1 = (q, w2)" by (cases "body tx w1")
    show ?thesis
    proof (cases q)
      case q: (Inl e)
      then show ?thesis
        using assms Pair Inr body tx by (intro undone [of e "db w2"]) (auto simp: saga_tx_def)
    next
      case q: (Inr x)
      obtain m w3 where com: "Commit E tx w2 = (m, w3)" by (cases "Commit E tx w2")
      have res: "w' = w3" "r = (case m of Inl e \<Rightarrow> Inl (Errorf ''commit saga transaction'' e) | Inr _ \<Rightarrow> Inr x)"
        using assms Pair Inr body q com by (auto simp: saga_tx_def split: sum.splits)
      from com show ?thesis
      proof (cases rule: Commit_cases)
        case kept
        then show ?thesis using res tx body q by (intro committed [of tx w1 x w2]) auto
      next
        case (undone m)
        then show ?thesis
          using res tx body
          by (intro that(1) [of "Errorf ''commit saga transaction'' (ErrorString m)" "db w2"]) auto
      qed
    qed
  qed
qed

lemma saga_tx_grows:
  assumes "saga_tx E body w = (r, w')"
    and body: "\<And>tx w1 q w2. db w1 = db w \<Longrightarrow> body tx w1 = (q, w2) \<Longrightarrow> grows (db w) (db w2)"
  shows "grows (db w) (db w')"
  using assms(1)
proof (cases rule: saga_txE)
  case (undone e d)
  then have "grows (db w) d" using body by auto
  then show ?thesis using undone(2) by (simp add: grows_restore)
next
  case (committed tx w1 x w2)
  then show ?thesis using body by simp
qed

section \<open>Step T1\<close>

text \<open>
  \<open>tables_same\<close>: no row of any table differs. \<open>t1_written\<close>: the saga row and its outbox
  command were both appended, for the given subscription.
\<close>

definition tables_same :: "db \<Rightarrow> db \<Rightarrow> bool" where
  "tables_same d d' \<longleftrightarrow> subscriptions d' = subscriptions d \<and> sagas d' = sagas d \<and>
     outbox d' = outbox d \<and> repositories d' = repositories d"

definition confirm_msg ::
  "nat \<Rightarrow> string \<Rightarrow> string option \<Rightarrow> string \<Rightarrow> string \<Rightarrow> string \<Rightarrow> int \<Rightarrow> Message" where
  "confirm_msg n sagaID u email token url t =
     \<lparr>msg_ID = n, msg_SagaID = u, msg_RoutingKey = RoutingConfirm,
      msg_MessageID = ''confirm:'' @ token,
      msg_Payload = marshal_ConfirmationRequest
        \<lparr>cr_SagaID = sagaID, cr_To = email, cr_ConfirmURL = url\<rparr>,
      msg_CreatedAt = t, msg_PublishedAt = None\<rparr>"

definition t1_written :: "env \<Rightarrow> nat \<Rightarrow> string \<Rightarrow> string \<Rightarrow> string \<Rightarrow> string \<Rightarrow> db \<Rightarrow> db \<Rightarrow> bool" where
  "t1_written E n email repo token url d d' \<longleftrightarrow>
     (\<exists>sagaID u t. pg_uuid E sagaID = Some u \<and> u \<notin> saga_ID ` set (sagas d) \<and>
        sagas d' = sagas d @ [new_saga u n email repo t] \<and>
        outbox d' = outbox d @ [confirm_msg (Suc (outbox_seq d)) sagaID (Some u) email token url t] \<and>
        repositories d' = repositories d)"

lemma tables_same_refl [simp]: "tables_same d d"
  by (simp add: tables_same_def)

lemma tables_same_restore: "tables_same d (restore d d')"
  by (simp add: tables_same_def)

lemma enqueueConfirmation_Inr:
  assumes "enqueueConfirmation E tx n email repo token url w = (Inr x, w')" "uuid_column E"
  shows "t1_written E n email repo token url (db w) (db w') \<and>
     subscriptions (db w') = subscriptions (db w)"
proof -
  define sagaID where "sagaID = uuid_NewString E (hist w)"
  define sg where "sg = \<lparr>saga_ID = sagaID, saga_SubscriptionID = n, saga_Email = email, saga_Repo = repo,
     saga_State = StateSubscriptionCreated, saga_Attempts = 0, saga_LastError = None,
     saga_CreatedAt = 0, saga_UpdatedAt = 0\<rparr>"
  define payload where "payload = marshal_ConfirmationRequest
     \<lparr>cr_SagaID = sagaID, cr_To = email, cr_ConfirmURL = url\<rparr>"
  define w1 where "w1 = logged (UuidNew sagaID) w"
  have w1: "db w1 = db w" by (simp add: w1_def)
  obtain w2 where create: "saga_CreateInTx E (OnTx tx) sg w1 = (Inr (), w2)"
    and enq: "Enqueue E (OnTx tx) sagaID RoutingConfirm (''confirm:'' @ token) payload w2 = (Inr (), w')"
    using assms(1)
    by (auto simp: enqueueConfirmation_def new_uuid_def Let_def
          sagaID_def sg_def payload_def w1_def split: prod.splits sum.splits)
  from saga_CreateInTx_Inr [OF create] obtain u where u: "pg_uuid E sagaID = Some u"
    and fresh: "u \<notin> saga_ID ` set (sagas (db w))"
    and w2: "db w2 = (db w)\<lparr>sagas := sagas (db w) @ [new_saga u n email repo (tx_now tx)]\<rparr>"
    by (auto simp: sg_def w1)
  have ne: "sagaID \<noteq> []" using u assms(2) by (auto simp: uuid_column_def)
  have "insert_outbox E (Some sagaID) RoutingConfirm (''confirm:'' @ token) payload (tx_now tx) (db w2) =
      (Inr (), db w')"
    using enq ne by (auto simp: Enqueue_def stmt_now_def split: prod.splits sum.splits dest!: run_stmt_Inr)
  from insert_outbox_Inr [OF this] show ?thesis
    using u fresh
    by (auto simp: t1_written_def confirm_msg_def payload_def w2)
qed

lemma StartConfirmation_T1:
  assumes run: "StartConfirmation E None email repo token url w = (r, w')" and uuid: "uuid_column E"
  shows "(tables_same (db w) (db w') \<and> (\<exists>e. r = Inl e \<and> infra e)) \<or>
     (\<exists>n t. n = Suc (sub_seq (db w)) \<and>
        subscriptions (db w') = subscriptions (db w) @ [new_sub n email repo token t] \<and>
        t1_written E n email repo token url (db w) (db w') \<and>
        (r = Inr () \<or> (\<exists>e. r = Inl e \<and> infra e)))"
proof -
  let ?body = "\<lambda>tx w1. case subscription_CreateInTx E (OnTx tx) email repo token w1 of
      (Inl e, w2) \<Rightarrow> (Inl (Errorf ''create subscription'' e), w2)
    | (Inr subID, w2) \<Rightarrow> enqueueConfirmation E tx subID email repo token url w2"
  have inf: "infra e" if "?body tx w1 = (Inl e, w2)" for tx w1 e w2
    using that
    by (auto split: prod.splits sum.splits dest: subscription_CreateInTx_infra enqueueConfirmation_infra)
  have "saga_tx E ?body w = (r, w')" using run by (simp add: StartConfirmation_def)
  then show ?thesis
  proof (cases rule: saga_txE)
    case (undone e d)
    from undone(4) have "infra e" using inf by (elim disjE exE) simp_all
    then show ?thesis using undone(1,2) by (simp add: tables_same_restore)
  next
    case (committed tx w1 x w2)
    then obtain n w3 where create: "subscription_CreateInTx E (OnTx tx) email repo token w1 = (Inr n, w3)"
      and enq: "enqueueConfirmation E tx n email repo token url w3 = (Inr x, w2)"
      by (auto split: prod.splits sum.splits)
    have w3: "n = Suc (sub_seq (db w))" "db w3 = (db w)\<lparr>sub_seq := n,
        subscriptions := subscriptions (db w) @ [new_sub n email repo token (tx_now tx)]\<rparr>"
      using run_stmt_Inr [OF create [unfolded subscription_CreateInTx_def]] committed(2)
      by (auto simp: stmt_now_def dest: insert_subscription_Inr)
    from enqueueConfirmation_Inr [OF enq uuid]
    have "t1_written E n email repo token url (db w) (db w2)"
      "subscriptions (db w2) = subscriptions (db w3)"
      by (auto simp: t1_written_def w3)
    then show ?thesis using committed(4,5) w3 by auto
  qed
qed

lemma ReactivateConfirmation_T1:
  assumes run: "ReactivateConfirmation E None n email repo token url w = (r, w')" and uuid: "uuid_column E"
  shows "(tables_same (db w) (db w') \<and> (\<exists>e. r = Inl e \<and> infra e)) \<or>
     ((\<exists>s\<in>set (subscriptions (db w)). sub_ID s = n \<and> sub_Status s = StatusFailed) \<and>
      subscriptions (db w') = upd_rows (\<lambda>s. sub_ID s = n \<and> sub_Status s = StatusFailed)
        (reactivate_row token) (subscriptions (db w)) \<and>
      t1_written E n email repo token url (db w) (db w') \<and>
      (r = Inr () \<or> (\<exists>e. r = Inl e \<and> infra e)))"
proof -
  let ?body = "\<lambda>tx w1. case ReactivateInTx E (OnTx tx) n token w1 of
      (Inl e, w2) \<Rightarrow> (Inl (Errorf ''reactivate subscription'' e), w2)
    | (Inr _, w2) \<Rightarrow> enqueueConfirmation E tx n email repo token url w2"
  have inf: "infra e" if "?body tx w1 = (Inl e, w2)" for tx w1 e w2
    using that
    by (auto split: prod.splits sum.splits dest: ReactivateInTx_infra enqueueConfirmation_infra)
  have "saga_tx E ?body w = (r, w')" using run by (simp add: ReactivateConfirmation_def)
  then show ?thesis
  proof (cases rule: saga_txE)
    case (undone e d)
    from undone(4) have "infra e" using inf by (elim disjE exE) simp_all
    then show ?thesis using undone(1,2) by (simp add: tables_same_restore)
  next
    case (committed tx w1 x w2)
    then obtain y w3 where react: "ReactivateInTx E (OnTx tx) n token w1 = (Inr y, w3)"
      and enq: "enqueueConfirmation E tx n email repo token url w3 = (Inr x, w2)"
      by (auto split: prod.splits sum.splits)
    have w3: "db w3 = (db w)\<lparr>subscriptions := upd_rows (\<lambda>s. sub_ID s = n \<and> sub_Status s = StatusFailed)
        (reactivate_row token) (subscriptions (db w))\<rparr>"
      "\<exists>s\<in>set (subscriptions (db w)). sub_ID s = n \<and> sub_Status s = StatusFailed"
      using ReactivateInTx_Inr [OF react] committed(2) by simp_all
    from enqueueConfirmation_Inr [OF enq uuid]
    have "t1_written E n email repo token url (db w) (db w2)"
      "subscriptions (db w2) = subscriptions (db w3)"
      by (auto simp: t1_written_def w3)
    then show ?thesis using committed(4,5) w3 by auto
  qed
qed

text \<open>
  T1 of the synchronous transport: the same bracket, without an outbox row. \<open>sub_written\<close>
  describes the subscription half, new row or revived row.
\<close>

definition sub_written :: "nat \<Rightarrow> nat \<Rightarrow> string \<Rightarrow> string \<Rightarrow> string \<Rightarrow> db \<Rightarrow> db \<Rightarrow> bool" where
  "sub_written rid n email repo token d d' \<longleftrightarrow>
     (if rid = 0
      then n = Suc (sub_seq d) \<and> (\<exists>t. subscriptions d' = subscriptions d @ [new_sub n email repo token t])
      else n = rid \<and> (\<exists>s\<in>set (subscriptions d). sub_ID s = n \<and> sub_Status s = StatusFailed) \<and>
        subscriptions d' = upd_rows (\<lambda>s. sub_ID s = n \<and> sub_Status s = StatusFailed)
          (reactivate_row token) (subscriptions d))"

lemma createSubscriptionAndSaga_T1:
  assumes run: "createSubscriptionAndSaga E email repo token rid w = (r, w')"
  shows "(tables_same (db w) (db w') \<and> (\<exists>e. r = Inl e \<and> infra e)) \<or>
     (\<exists>n sagaID u t. sub_written rid n email repo token (db w) (db w') \<and>
        pg_uuid E sagaID = Some u \<and> u \<notin> saga_ID ` set (sagas (db w)) \<and>
        sagas (db w') = sagas (db w) @ [new_saga u n email repo t] \<and>
        outbox (db w') = outbox (db w) \<and> repositories (db w') = repositories (db w) \<and>
        (r = Inr (n, sagaID) \<or> (\<exists>e. r = Inl e \<and> infra e)))"
  using run unfolding createSubscriptionAndSaga_def
proof (cases rule: saga_txE)
  case (undone e d)
  from undone(4) have "infra e"
    by (elim disjE exE) (auto simp: new_uuid_def Let_def split: prod.splits sum.splits if_splits
        dest: subscription_CreateInTx_infra ReactivateInTx_infra saga_CreateInTx_infra)
  then show ?thesis using undone(1,2) by (simp add: tables_same_restore)
next
  case (committed tx w1 x w2)
  define sg where "sg n w = \<lparr>saga_ID = uuid_NewString E (hist w), saga_SubscriptionID = n,
     saga_Email = email, saga_Repo = repo, saga_State = StateSubscriptionCreated, saga_Attempts = 0,
     saga_LastError = None, saga_CreatedAt = 0, saga_UpdatedAt = 0\<rparr>" for n and w :: world
  obtain n w3 where sub: "(if rid = 0
             then (case subscription_CreateInTx E (OnTx tx) email repo token w1 of
                     (Inl e, w2) \<Rightarrow> (Inl (Errorf ''create subscription'' e), w2)
                   | (Inr subID, w2) \<Rightarrow> (Inr subID, w2))
             else (case ReactivateInTx E (OnTx tx) rid token w1 of
                     (Inl e, w2) \<Rightarrow> (Inl (Errorf ''reactivate subscription'' e), w2)
                   | (Inr _, w2) \<Rightarrow> (Inr rid, w2))) = (Inr n, w3)"
    and saga: "saga_CreateInTx E (OnTx tx) (sg n w3) (logged (UuidNew (uuid_NewString E (hist w3))) w3) = (Inr (), w2)"
    and x: "x = (n, uuid_NewString E (hist w3))"
    using committed(3)
    by (auto simp: sg_def new_uuid_def Let_def split: prod.splits sum.splits if_splits)
  have w3: "sub_written rid n email repo token (db w) (db w3) \<and> sagas (db w3) = sagas (db w) \<and>
     outbox (db w3) = outbox (db w) \<and> repositories (db w3) = repositories (db w)"
  proof (cases "rid = 0")
    case True
    then have "insert_subscription email repo token False (tx_now tx) (db w) = (Inr n, db w3)"
      using sub committed(2)
      by (auto simp: subscription_CreateInTx_def stmt_now_def split: prod.splits sum.splits dest: run_stmt_Inr)
    from insert_subscription_Inr [OF this] show ?thesis using True by (auto simp: sub_written_def)
  next
    case False
    then have "ReactivateInTx E (OnTx tx) rid token w1 = (Inr (), w3)" "n = rid"
      using sub by (auto split: prod.splits sum.splits)
    from ReactivateInTx_Inr [OF this(1)] this(2) show ?thesis
      using False committed(2) by (auto simp: sub_written_def)
  qed
  from saga_CreateInTx_Inr [OF saga] obtain u where
    "pg_uuid E (uuid_NewString E (hist w3)) = Some u" "u \<notin> saga_ID ` set (sagas (db w3))"
    "db w2 = (db w3)\<lparr>sagas := sagas (db w3) @ [new_saga u n email repo (tx_now tx)]\<rparr>"
    by (auto simp: sg_def)
  then show ?thesis
    using w3 committed(4,5) x by (intro disjI2 exI [of _ n] exI [of _ "uuid_NewString E (hist w3)"]
        exI [of _ u] exI [of _ "tx_now tx"]) (auto simp: sub_written_def)
qed

lemma createSubscriptionAndSaga_grows:
  assumes "createSubscriptionAndSaga E email repo token rid w = (r, w')"
  shows "grows (db w) (db w')"
  using assms unfolding createSubscriptionAndSaga_def
  by (rule saga_tx_grows)
    (auto simp: new_uuid_def Let_def split: prod.splits sum.splits if_splits
      dest!: subscription_CreateInTx_grows ReactivateInTx_grows saga_CreateInTx_grows
      intro: grows_trans)

section \<open>The synchronous transport\<close>

text \<open>
  The interface of the synchronous sender: it talks to the notifier and leaves the monolith's
  database alone.
\<close>

locale sync_sender =
  fixes send :: confirmation_sender
  assumes send_db: "send email repo url w = (r, w') \<Longrightarrow> db w' = db w"
begin

lemma dispatchSync_grows:
  assumes "dispatchSync E send i n email repo url w = (r, w')"
  shows "grows (db w) (db w')"
  using assms unfolding dispatchSync_def compensateSync_def
  by (auto split: prod.splits sum.splits
      dest!: send_db UpdateState_grows store_compensator.compensate_grows)

lemma StartConfirmation_grows:
  assumes "StartConfirmation E (Some send) email repo token url w = (r, w')"
  shows "grows (db w) (db w')"
  using assms
  by (auto simp: StartConfirmation_def startConfirmationSync_def split: prod.splits sum.splits
      dest!: createSubscriptionAndSaga_grows dispatchSync_grows intro: grows_trans)

lemma ReactivateConfirmation_grows:
  assumes "ReactivateConfirmation E (Some send) sid email repo token url w = (r, w')"
  shows "grows (db w) (db w')"
  using assms
  by (auto simp: ReactivateConfirmation_def reactivateConfirmationSync_def split: prod.splits sum.splits
      dest!: createSubscriptionAndSaga_grows dispatchSync_grows intro: grows_trans)

lemma dispatchSync_moves:
  assumes run: "dispatchSync E send i n email repo url w = (r, w')" and i: "pg_uuid E i = Some u"
    and cur: "saga_in u {StateSubscriptionCreated} (db w)"
  shows "sagas_moved (sagas (db w)) (sagas (db w'))"
proof -
  obtain q w1 where snd: "send email repo url w = (q, w1)" by (cases "send email repo url w")
  have db1: "db w1 = db w" using send_db [OF snd] .
  show ?thesis
  proof (cases q)
    case (Inl e)
    then have "compensate E (MarkFailed E) i n ''confirmation email failed (grpc)'' w1 = (r, w')"
      using run snd by (simp add: dispatchSync_def compensateSync_def)
    from store_compensator.compensate_moves [OF this i] cur db1 show ?thesis
      by (auto simp: saga_in_def)
  next
    case (Inr x)
    obtain s w2 where up: "UpdateState E i StateCompleted [] w1 = (s, w2)"
      by (cases "UpdateState E i StateCompleted [] w1")
    have "w' = w2" using run snd Inr up by (auto simp: dispatchSync_def split: sum.splits)
    moreover have "sagas_moved (sagas (db w1)) (sagas (db w2))"
      by (rule UpdateState_from [OF up i]) (use cur db1 in auto)
    ultimately show ?thesis using db1 by simp
  qed
qed

text \<open>
  The outcome of a dispatch that returns no error: the saga is in a terminal state, and it
  is failed exactly when the sender failed, in which case the subscription is marked failed.
\<close>

lemma dispatchSync_Inr:
  assumes run: "dispatchSync E send i n email repo url w = (Inr x, w')" and i: "pg_uuid E i = Some u"
  shows "case fst (send email repo url w) of
       Inr _ \<Rightarrow> saga_in u {StateCompleted} (db w') \<and> subscriptions (db w') = subscriptions (db w)
     | Inl _ \<Rightarrow> saga_in u {StateFailed} (db w') \<and> subscriptions (db w') = fail_rows n (subscriptions (db w))"
proof -
  obtain q w1 where snd: "send email repo url w = (q, w1)" by (cases "send email repo url w")
  have db1: "db w1 = db w" using send_db [OF snd] .
  show ?thesis
  proof (cases q)
    case (Inl e)
    then have "compensate E (MarkFailed E) i n ''confirmation email failed (grpc)'' w1 = (Inr x, w')"
      using run snd by (simp add: dispatchSync_def compensateSync_def)
    from store_compensator.compensate_Inr [OF this i] show ?thesis using Inl snd db1 by simp
  next
    case (Inr y)
    then have up: "UpdateState E i StateCompleted [] w1 = (Inr (), w')"
      using run snd by (auto simp: dispatchSync_def split: prod.splits sum.splits)
    from UpdateState_saga_in [OF up i] UpdateState_frame [OF up] show ?thesis using Inr snd db1 by simp
  qed
qed

end

lemma StartConfirmation_broker_grows:
  assumes "StartConfirmation E None email repo token url w = (r, w')"
  shows "grows (db w) (db w')"
  using assms unfolding StartConfirmation_def option.case
  by (rule saga_tx_grows)
    (auto split: prod.splits sum.splits dest!: subscription_CreateInTx_grows enqueueConfirmation_grows
      intro: grows_trans)

lemma ReactivateConfirmation_broker_grows:
  assumes "ReactivateConfirmation E None sid email repo token url w = (r, w')"
  shows "grows (db w) (db w')"
  using assms unfolding ReactivateConfirmation_def option.case
  by (rule saga_tx_grows)
    (auto split: prod.splits sum.splits dest!: ReactivateInTx_grows enqueueConfirmation_grows
      intro: grows_trans)

end
