(* ===== verification/Tracking_Store.thy ===== *)
theory Tracking_Store
  imports World
begin

text \<open>
  The release-tracking store (\<open>internal/releasetracking/store.go\<close>): one row per repository
  with the last release tag seen. \<open>RegisterRepo\<close> inserts or does nothing, the other writes
  insert or update.
\<close>

section \<open>Statements\<close>

text \<open>
  \<open>INSERT ... ON CONFLICT (repo) DO ...\<close>: a sequence number is drawn in either case, then
  the row is added or the existing one rewritten (\<open>DO NOTHING\<close> rewrites to itself).
\<close>

definition upsert_repo ::
  "string \<Rightarrow> string \<Rightarrow> (nat \<Rightarrow> Repository) \<Rightarrow> (Repository \<Rightarrow> Repository) \<Rightarrow> db \<Rightarrow> (gerr + unit) \<times> db" where
  "upsert_repo repo tag new upd d =
     (if serial_max \<le> repo_seq d then (Inl pq_sequence_max, d)
      else
       (let n = Suc (repo_seq d); d1 = d\<lparr>repo_seq := n\<rparr> in
        if \<not> (varchar 255 repo \<and> varchar 255 tag) then (Inl pq_too_long, d1)
        else if repo \<in> repo_Repo ` set (repositories d)
        then (Inr (), d1\<lparr>repositories := upd_rows (\<lambda>r. repo_Repo r = repo) upd (repositories d)\<rparr>)
        else (Inr (), d1\<lparr>repositories := repositories d @ [new n]\<rparr>)))"

definition GetRepoTracking :: "env \<Rightarrow> string \<Rightarrow> (world, Repository option) act" where
  "GetRepoTracking E repo =
     run_stmt E OnDB ''SELECT FROM repositories WHERE repo''
       (\<lambda>_ d. (Inr (lookup_by repo_Repo repo (repositories d)), d))"

definition register_stmt :: "string \<Rightarrow> int \<Rightarrow> db \<Rightarrow> (gerr + unit) \<times> db" where
  "register_stmt repo _ =
     upsert_repo repo []
       (\<lambda>n. \<lparr>repo_ID = n, repo_Repo = repo, repo_LastSeenTag = [], repo_LastCheckedAt = None,
             repo_LastReleaseAt = None\<rparr>)
       (\<lambda>r. r)"

definition RegisterRepo :: "env \<Rightarrow> string \<Rightarrow> (world, unit) act" where
  "RegisterRepo E repo =
     run_stmt E OnDB ''INSERT INTO repositories ON CONFLICT DO NOTHING'' (register_stmt repo)"

definition touch_stmt :: "string \<Rightarrow> int \<Rightarrow> db \<Rightarrow> (gerr + unit) \<times> db" where
  "touch_stmt repo t =
     upsert_repo repo []
       (\<lambda>n. \<lparr>repo_ID = n, repo_Repo = repo, repo_LastSeenTag = [], repo_LastCheckedAt = Some t,
             repo_LastReleaseAt = None\<rparr>)
       (\<lambda>r. r\<lparr>repo_LastCheckedAt := Some t\<rparr>)"

definition TouchLastChecked :: "env \<Rightarrow> string \<Rightarrow> (world, unit) act" where
  "TouchLastChecked E repo =
     run_stmt E OnDB ''INSERT INTO repositories ON CONFLICT DO UPDATE last_checked_at'' (touch_stmt repo)"

definition record_stmt :: "string \<Rightarrow> string \<Rightarrow> int \<Rightarrow> db \<Rightarrow> (gerr + unit) \<times> db" where
  "record_stmt repo tag t =
     upsert_repo repo tag
       (\<lambda>n. \<lparr>repo_ID = n, repo_Repo = repo, repo_LastSeenTag = tag, repo_LastCheckedAt = Some t,
             repo_LastReleaseAt = Some t\<rparr>)
       (\<lambda>r. r\<lparr>repo_LastSeenTag := tag, repo_LastReleaseAt := Some t, repo_LastCheckedAt := Some t\<rparr>)"

definition RecordRelease :: "env \<Rightarrow> string \<Rightarrow> string \<Rightarrow> (world, unit) act" where
  "RecordRelease E repo tag =
     run_stmt E OnDB ''INSERT INTO repositories ON CONFLICT DO UPDATE last_seen_tag'' (record_stmt repo tag)"

section \<open>Constraints are kept\<close>

lemma upsert_repo_grows:
  assumes "\<And>n. repo_ID (new n) = n" "\<And>n. repo_Repo (new n) = repo"
    "\<And>r. repo_ID (upd r) = repo_ID r" "\<And>r. repo_Repo (upd r) = repo_Repo r"
  shows "grows d (snd (upsert_repo repo tag new upd d))"
proof -
  have "repos_ok (upd_rows P upd rows) (Suc n)" if "repos_ok rows n" for P rows n
    by (rule repos_ok_upd [OF repos_ok_mono [OF that]]) (simp_all add: assms(3,4))
  then show ?thesis
    using assms
    by (auto simp: upsert_repo_def Let_def grows_def db_ok_def seq_le_def
          intro: repos_ok_mono repos_ok_snoc)
qed

lemma RegisterRepo_grows: "RegisterRepo E repo w = (r, w') \<Longrightarrow> grows (db w) (db w')"
  unfolding RegisterRepo_def register_stmt_def by (erule run_stmt_grows) (simp add: upsert_repo_grows)

lemma TouchLastChecked_grows: "TouchLastChecked E repo w = (r, w') \<Longrightarrow> grows (db w) (db w')"
  unfolding TouchLastChecked_def touch_stmt_def by (erule run_stmt_grows) (simp add: upsert_repo_grows)

lemma RecordRelease_grows: "RecordRelease E repo tag w = (r, w') \<Longrightarrow> grows (db w) (db w')"
  unfolding RecordRelease_def record_stmt_def by (erule run_stmt_grows) (simp add: upsert_repo_grows)

section \<open>What the operations do\<close>

definition seen_tag :: "string \<Rightarrow> db \<Rightarrow> string option" where
  "seen_tag repo d = map_option repo_LastSeenTag (lookup_by repo_Repo repo (repositories d))"

lemma upsert_repo_effect:
  assumes "upsert_repo repo tag new upd d = (r, d')"
  shows "repositories d' = repositories d \<and> (\<exists>e. r = Inl e \<and> infra e) \<or>
     r = Inr () \<and> repositories d' =
       (case lookup_by repo_Repo repo (repositories d) of
          None \<Rightarrow> repositories d @ [new (Suc (repo_seq d))]
        | Some _ \<Rightarrow> upd_rows (\<lambda>r. repo_Repo r = repo) upd (repositories d))"
proof -
  have "repo \<in> repo_Repo ` set (repositories d) \<longleftrightarrow> lookup_by repo_Repo repo (repositories d) \<noteq> None"
    by (simp add: lookup_by_None_iff)
  then show ?thesis
    using assms by (auto simp: upsert_repo_def Let_def simp del: image_iff split: if_splits option.splits)
qed

lemma upsert_repo_lookup:
  assumes "upsert_repo repo tag new upd d = (Inr x, d')" "\<And>n. repo_Repo (new n) = repo"
    "\<And>r. repo_Repo (upd r) = repo_Repo r"
  shows "lookup_by repo_Repo repo (repositories d') =
     (case lookup_by repo_Repo repo (repositories d) of
        None \<Rightarrow> Some (new (Suc (repo_seq d))) | Some r0 \<Rightarrow> Some (upd r0))"
  using upsert_repo_effect [OF assms(1)] assms(2,3)
  by (auto simp: row_simps split: option.splits)

lemma upsert_repo_other:
  assumes "upsert_repo repo tag new upd d = (r, d')" "repo' \<noteq> repo" "\<And>n. repo_Repo (new n) = repo"
    "\<And>r. repo_Repo (upd r) = repo_Repo r"
  shows "lookup_by repo_Repo repo' (repositories d') = lookup_by repo_Repo repo' (repositories d)"
proof -
  have "lookup_by repo_Repo repo' (upd_rows (\<lambda>r. repo_Repo r = repo) upd (repositories d)) =
      lookup_by repo_Repo repo' (repositories d)"
    using assms(2,4) by (intro lookup_by_upd_other) auto
  then show ?thesis
    using upsert_repo_effect [OF assms(1)] assms(2,3)
    by (auto simp: lookup_by_append split: option.splits)
qed

lemma upsert_repo_frame:
  assumes "upsert_repo repo tag new upd d = (r, d')"
  shows "subscriptions d' = subscriptions d \<and> sagas d' = sagas d \<and> outbox d' = outbox d \<and>
     sub_seq d' = sub_seq d \<and> outbox_seq d' = outbox_seq d"
  using assms by (auto simp: upsert_repo_def Let_def split: if_splits)

text \<open>The three writing statements of the store leave the other tables alone, also when their answer is lost.\<close>

lemma tracking_frame:
  assumes "run_stmt E ext name body w = (r, w')"
    and "body = register_stmt repo \<or> body = touch_stmt repo \<or> body = record_stmt repo tag"
  shows "subscriptions (db w') = subscriptions (db w) \<and> sagas (db w') = sagas (db w) \<and> outbox (db w') = outbox (db w)"
proof (rule run_stmt_keeps [OF assms(1), where P = "\<lambda>d. subscriptions d = subscriptions (db w) \<and>
    sagas d = sagas (db w) \<and> outbox d = outbox (db w)"])
  fix n
  have "\<exists>tag new upd. body n (db w) = upsert_repo repo tag new upd (db w)"
    using assms(2) by (metis register_stmt_def touch_stmt_def record_stmt_def)
  then show "subscriptions (snd (body n (db w))) = subscriptions (db w) \<and> sagas (snd (body n (db w))) = sagas (db w) \<and>
      outbox (snd (body n (db w))) = outbox (db w)"
    using upsert_repo_frame by (metis prod.collapse)
qed simp

lemma RegisterRepo_Inr:
  assumes "RegisterRepo E repo w = (Inr x, w')"
  shows "seen_tag repo (db w') =
     (case seen_tag repo (db w) of None \<Rightarrow> Some [] | Some tag \<Rightarrow> Some tag)"
  using run_stmt_Inr [OF assms [unfolded RegisterRepo_def]]
  by (auto simp: register_stmt_def seen_tag_def dest!: upsert_repo_lookup split: option.splits)

lemma RecordRelease_Inr:
  assumes "RecordRelease E repo tag w = (Inr x, w')"
  shows "seen_tag repo (db w') = Some tag"
  using run_stmt_Inr [OF assms [unfolded RecordRelease_def]]
  by (auto simp: record_stmt_def seen_tag_def dest!: upsert_repo_lookup split: option.splits)

end
