(* ===== verification/Github_Gateway.thy ===== *)
theory Github_Gateway
  imports World
begin

text \<open>
  The anti-corruption layer to GitHub: the Redis cache (\<open>internal/cache/cache.go\<close>), the HTTP
  client with its retry on rate limiting (\<open>internal/githubgateway/client.go\<close>) and the caching
  decorator (\<open>cached_client.go\<close>). The decorator is verified against the two interfaces it is
  written for: its answers are answers the upstream client gave, and a broken cache never
  makes a call fail.
\<close>

section \<open>The Redis cache\<close>

record Cache =
  cache_ttl :: duration

definition Cache_Get :: "env \<Rightarrow> Cache \<Rightarrow> string \<Rightarrow> (world, string) act" where
  "Cache_Get E c key w =
     (let w' = logged (RedisGET key) w in
      case redis_GET E (hist w) key of
        RedisNil \<Rightarrow> (Inr [], w')
      | RedisValue v \<Rightarrow> (Inr v, w')
      | RedisError m \<Rightarrow> (Inl (ErrorString m), w'))"

definition Cache_Set :: "env \<Rightarrow> Cache \<Rightarrow> string \<Rightarrow> string \<Rightarrow> (world, unit) act" where
  "Cache_Set E c key value w =
     (case redis_SET E (hist w) key value of
        None \<Rightarrow> (Inr (), logged (RedisSET key value (cache_ttl c) True) w)
      | Some m \<Rightarrow> (Inl (ErrorString m), logged (RedisSET key value (cache_ttl c) False) w))"

section \<open>The HTTP client\<close>

record Client =
  gh_token :: string

definition StatusOK :: int where "StatusOK = 200"
definition StatusNotFound :: int where "StatusNotFound = 404"
definition StatusTooManyRequests :: int where "StatusTooManyRequests = 429"

lemmas http_status_defs = StatusOK_def StatusNotFound_def StatusTooManyRequests_def

text \<open>
  \<open>http.NewRequestWithContext\<close> parses its URL: the part before a fragment must be free of
  control characters, and path and fragment need well-formed percent escapes.
\<close>

definition is_hex :: "char \<Rightarrow> bool" where
  "is_hex c = (c \<in> set ''0123456789abcdefABCDEF'')"

fun escapes_ok :: "string \<Rightarrow> bool" where
  "escapes_ok [] = True"
| "escapes_ok (c # cs) =
     (if c = CHR ''%''
      then (case cs of a # b # rest \<Rightarrow> is_hex a \<and> is_hex b \<and> escapes_ok rest | _ \<Rightarrow> False)
      else escapes_ok cs)"

definition ctl_free :: "string \<Rightarrow> bool" where
  "ctl_free s = list_all (\<lambda>c. 32 \<le> (of_char c :: nat) \<and> (of_char c :: nat) \<noteq> 127) s"

definition url_Parse_ok :: "string \<Rightarrow> bool" where
  "url_Parse_ok url =
     (let u = takeWhile (\<lambda>c. c \<noteq> CHR ''#'') url;
          frag = drop 1 (dropWhile (\<lambda>c. c \<noteq> CHR ''#'') url);
          path = takeWhile (\<lambda>c. c \<noteq> CHR ''?'') u
      in ctl_free u \<and> escapes_ok path \<and> escapes_ok frag)"

definition setHeaders :: "Client \<Rightarrow> (string \<times> string) list" where
  "setHeaders c =
     [(''Accept'', ''application/vnd.github.v3+json''), (''User-Agent'', ''github-release-notifier'')] @
     (if gh_token c \<noteq> [] then [(''Authorization'', ''Bearer '' @ gh_token c)] else [])"

definition new_request :: "Client \<Rightarrow> string \<Rightarrow> gerr + http_request" where
  "new_request c url =
     (if url_Parse_ok url then Inr \<lparr>req_URL = url, req_Header = setHeaders c\<rparr>
      else Inl (ErrorString (''parse '' @ url)))"

definition http_call :: "env \<Rightarrow> http_request \<Rightarrow> (world, http_response) act" where
  "http_call E req w =
     (let w' = logged (HttpDo req) w in
      case http_Do E (hist w) req of
        Inl m \<Rightarrow> (Inl (ErrorString m), w')
      | Inr resp \<Rightarrow> (Inr resp, w'))"

text \<open>
  \<open>doWithRetry\<close>: \<open>retry_from i n\<close> is the loop at index \<open>i\<close> with \<open>n\<close> rounds left, followed by
  the final attempt. Round \<open>i\<close> sleeps \<open>2 << i\<close> seconds after a 429.
\<close>

fun retry_from :: "env \<Rightarrow> http_request \<Rightarrow> nat \<Rightarrow> nat \<Rightarrow> (world, http_response) act" where
  "retry_from E req i 0 w = http_call E req w"
| "retry_from E req i (Suc n) w =
     (case http_call E req w of
        (Inl e, w1) \<Rightarrow> (Inl e, w1)
      | (Inr resp, w1) \<Rightarrow>
          (if StatusCode resp \<noteq> StatusTooManyRequests then (Inr resp, w1)
           else retry_from E req (Suc i) n (logged (Wait (push_bit i 2 * time_Second)) w1)))"

definition doWithRetry :: "env \<Rightarrow> http_request \<Rightarrow> (world, http_response) act" where
  "doWithRetry E req = retry_from E req 0 3"

definition repo_url :: "string \<Rightarrow> string \<Rightarrow> string" where
  "repo_url owner repo = ''https://api.github.com/repos/'' @ owner @ ''/'' @ repo"

definition release_url :: "string \<Rightarrow> string \<Rightarrow> string" where
  "release_url owner repo = repo_url owner repo @ ''/releases/latest''"

definition status_error :: "int \<Rightarrow> gerr" where
  "status_error n = ErrorString (''github API returned status '' @ (if n < 0 then ''-'' else []) @ dec (nat \<bar>n\<bar>))"

definition Client_CheckRepoExists :: "env \<Rightarrow> Client \<Rightarrow> string \<Rightarrow> string \<Rightarrow> (world, bool) act" where
  "Client_CheckRepoExists E c owner repo w =
     (case new_request c (repo_url owner repo) of
        Inl e \<Rightarrow> (Inl e, w)
      | Inr req \<Rightarrow>
          (case doWithRetry E req w of
             (Inl e, w1) \<Rightarrow> (Inl e, w1)
           | (Inr resp, w1) \<Rightarrow>
               (if StatusCode resp = StatusOK then (Inr True, w1)
                else if StatusCode resp = StatusNotFound then (Inr False, w1)
                else (Inl (status_error (StatusCode resp)), w1))))"

definition unmarshal_releaseResponse :: "json \<Rightarrow> gerr + string \<times> string" where
  "unmarshal_releaseResponse j =
     (case unmarshal_struct [''tag_name'', ''name''] j of
        Inl e \<Rightarrow> Inl e | Inr vs \<Rightarrow> Inr (vs ! 0, vs ! 1))"

definition Client_GetLatestRelease :: "env \<Rightarrow> Client \<Rightarrow> string \<Rightarrow> string \<Rightarrow> (world, string) act" where
  "Client_GetLatestRelease E c owner repo w =
     (case new_request c (release_url owner repo) of
        Inl e \<Rightarrow> (Inl e, w)
      | Inr req \<Rightarrow>
          (case doWithRetry E req w of
             (Inl e, w1) \<Rightarrow> (Inl e, w1)
           | (Inr resp, w1) \<Rightarrow>
               (if StatusCode resp = StatusNotFound then (Inr [], w1)
                else if StatusCode resp \<noteq> StatusOK then (Inl (status_error (StatusCode resp)), w1)
                else (case unmarshal_releaseResponse (Body resp) of
                        Inl e \<Rightarrow> (Inl e, w1)
                      | Inr (tag, _) \<Rightarrow> (Inr tag, w1)))))"

section \<open>The caching decorator\<close>

record CachedClient =
  up_CheckRepoExists :: "string \<Rightarrow> string \<Rightarrow> (world, bool) act"
  up_GetLatestRelease :: "string \<Rightarrow> string \<Rightarrow> (world, string) act"
  cache_Get :: "string \<Rightarrow> (world, string) act"
  cache_Set :: "string \<Rightarrow> string \<Rightarrow> (world, unit) act"

definition cachedTrue :: string where "cachedTrue = ''true''"
definition cachedFalse :: string where "cachedFalse = ''false''"

definition exists_key :: "string \<Rightarrow> string \<Rightarrow> string" where
  "exists_key owner repo = ''repo_exists:'' @ owner @ ''/'' @ repo"

definition release_key :: "string \<Rightarrow> string \<Rightarrow> string" where
  "release_key owner repo = ''latest_release:'' @ owner @ ''/'' @ repo"

text \<open>The value of a cache read: an error leaves the empty string.\<close>

definition read_val :: "gerr + string \<Rightarrow> string" where
  "read_val r = (case r of Inl _ \<Rightarrow> [] | Inr v \<Rightarrow> v)"

definition Cached_CheckRepoExists :: "CachedClient \<Rightarrow> string \<Rightarrow> string \<Rightarrow> (world, bool) act" where
  "Cached_CheckRepoExists cc owner repo w =
     (let key = exists_key owner repo in
      case cache_Get cc key w of (r, w1) \<Rightarrow>
        (if read_val r = cachedTrue
         then (Inr True, metric_inc (GitHubAPICalls ''check_repo'' ''hit'') w1)
         else if read_val r = cachedFalse
         then (Inr False, metric_inc (GitHubAPICalls ''check_repo'' ''hit'') w1)
         else (case up_CheckRepoExists cc owner repo
                      (metric_inc (GitHubAPICalls ''check_repo'' ''miss'') w1) of
                 (Inl e, w2) \<Rightarrow> (Inl e, w2)
               | (Inr exists, w2) \<Rightarrow>
                   (Inr exists,
                    snd (cache_Set cc key (if exists then cachedTrue else cachedFalse) w2)))))"

definition Cached_GetLatestRelease :: "CachedClient \<Rightarrow> string \<Rightarrow> string \<Rightarrow> (world, string) act" where
  "Cached_GetLatestRelease cc owner repo w =
     (let key = release_key owner repo in
      case cache_Get cc key w of (r, w1) \<Rightarrow>
        (if read_val r \<noteq> []
         then (Inr (read_val r), metric_inc (GitHubAPICalls ''latest_release'' ''hit'') w1)
         else (case up_GetLatestRelease cc owner repo
                      (metric_inc (GitHubAPICalls ''latest_release'' ''miss'') w1) of
                 (Inl e, w2) \<Rightarrow> (Inl e, w2)
               | (Inr tag, w2) \<Rightarrow>
                   (Inr tag, if tag \<noteq> [] then snd (cache_Set cc key tag w2) else w2))))"

section \<open>The decorator against its interfaces\<close>

text \<open>
  \<open>holds h k v\<close>: after the history \<open>h\<close> the cache may answer \<open>v\<close> for \<open>k\<close>. A read answers only
  what the cache holds, a write adds one entry. \<open>said_exists\<close> and \<open>said_tag\<close> are the answers
  the upstream client has given; they depend on the slug \<open>owner/repo\<close> only.
\<close>

locale cacher =
  fixes cc :: CachedClient and holds :: "history \<Rightarrow> string \<Rightarrow> string \<Rightarrow> bool"
  assumes get: "cache_Get cc k w = (rg, wg) \<Longrightarrow>
      extends (hist w) (hist wg) \<and> db wg = db w \<and>
      (\<forall>k v. holds (hist wg) k v \<longrightarrow> holds (hist w) k v) \<and>
      (read_val rg \<noteq> [] \<longrightarrow> holds (hist w) k (read_val rg))"
    and set: "cache_Set cc k v w = (rs, ws) \<Longrightarrow>
      extends (hist w) (hist ws) \<and> db ws = db w \<and>
      (\<forall>k' v'. holds (hist ws) k' v' \<longrightarrow> holds (hist w) k' v' \<or> k' = k \<and> v' = v)"

definition slug :: "string \<Rightarrow> string \<Rightarrow> string" where
  "slug owner repo = owner @ ''/'' @ repo"

definition exists_entry :: "string \<Rightarrow> string" where
  "exists_entry s = ''repo_exists:'' @ s"

definition release_entry :: "string \<Rightarrow> string" where
  "release_entry s = ''latest_release:'' @ s"

definition show_exists :: "bool \<Rightarrow> string" where
  "show_exists b = (if b then cachedTrue else cachedFalse)"

lemma entry_simps [simp]:
  "exists_entry s = exists_entry t \<longleftrightarrow> s = t"
  "release_entry s = release_entry t \<longleftrightarrow> s = t"
  "exists_entry s \<noteq> release_entry t" "release_entry t \<noteq> exists_entry s"
  "show_exists a = show_exists b \<longleftrightarrow> a = b" "show_exists a \<noteq> []"
  by (simp_all add: exists_entry_def release_entry_def show_exists_def cachedTrue_def cachedFalse_def)

lemma cached_distinct: "cachedTrue \<noteq> cachedFalse" "cachedFalse \<noteq> cachedTrue"
  by (simp_all add: cachedTrue_def cachedFalse_def)

lemma exists_key_slug: "exists_key owner repo = exists_entry (slug owner repo)"
  by (simp add: exists_key_def exists_entry_def slug_def)

lemma release_key_slug: "release_key owner repo = release_entry (slug owner repo)"
  by (simp add: release_key_def release_entry_def slug_def)

locale cached_gateway = cacher cc holds for cc holds +
  fixes said_exists :: "history \<Rightarrow> string \<Rightarrow> bool \<Rightarrow> bool"
    and said_tag :: "history \<Rightarrow> string \<Rightarrow> string \<Rightarrow> bool"
  assumes up_exists: "up_CheckRepoExists cc owner repo w = (ru, wu) \<Longrightarrow>
      extends (hist w) (hist wu) \<and> db wu = db w \<and>
      (\<forall>k v. holds (hist wu) k v \<longrightarrow> holds (hist w) k v) \<and>
      (\<forall>b. ru = Inr b \<longrightarrow> said_exists (hist wu) (slug owner repo) b)"
    and up_tag: "up_GetLatestRelease cc owner repo w = (rt, wt) \<Longrightarrow>
      extends (hist w) (hist wt) \<and> db wt = db w \<and>
      (\<forall>k v. holds (hist wt) k v \<longrightarrow> holds (hist w) k v) \<and>
      (\<forall>t. rt = Inr t \<longrightarrow> said_tag (hist wt) (slug owner repo) t)"
    and said_exists_later: "extends h h' \<Longrightarrow> said_exists h s b \<Longrightarrow> said_exists h' s b"
    and said_tag_later: "extends h h' \<Longrightarrow> said_tag h s t \<Longrightarrow> said_tag h' s t"
begin

text \<open>Every cached entry is an answer of the upstream client.\<close>

definition truthful :: "history \<Rightarrow> bool" where
  "truthful h \<longleftrightarrow>
     (\<forall>s v. holds h (exists_entry s) v \<longrightarrow> (\<exists>b. v = show_exists b \<and> said_exists h s b)) \<and>
     (\<forall>s v. holds h (release_entry s) v \<longrightarrow> said_tag h s v)"

text \<open>
  A step that adds to the cache at most an entry the upstream client has vouched for keeps
  the cache truthful.
\<close>

lemma truthful_step:
  assumes "truthful h" "extends h h'"
    "\<And>s v. holds h' (exists_entry s) v \<Longrightarrow>
       holds h (exists_entry s) v \<or> (\<exists>b. v = show_exists b \<and> said_exists h' s b)"
    "\<And>s v. holds h' (release_entry s) v \<Longrightarrow> holds h (release_entry s) v \<or> said_tag h' s v"
  shows "truthful h'"
  unfolding truthful_def
proof (intro conjI allI impI)
  fix s v assume "holds h' (exists_entry s) v"
  from assms(3) [OF this] show "\<exists>b. v = show_exists b \<and> said_exists h' s b"
    using assms(1) said_exists_later [OF assms(2)] unfolding truthful_def by blast
next
  fix s v assume "holds h' (release_entry s) v"
  from assms(4) [OF this] show "said_tag h' s v"
    using assms(1) said_tag_later [OF assms(2)] unfolding truthful_def by blast
qed

lemma truthful_keep:
  assumes "truthful h" "extends h h'" "\<forall>k v. holds h' k v \<longrightarrow> holds h k v"
  shows "truthful h'"
  by (rule truthful_step [OF assms(1,2)]) (use assms(3) in blast)+

lemma truthful_get: "truthful (hist w) \<Longrightarrow> cache_Get cc k w = (r, w') \<Longrightarrow> truthful (hist w')"
  by (drule get) (elim conjE, rule truthful_keep)

lemma truthful_up_exists:
  "truthful (hist w) \<Longrightarrow> up_CheckRepoExists cc owner repo w = (r, w') \<Longrightarrow> truthful (hist w')"
  by (drule up_exists) (elim conjE, rule truthful_keep)

lemma truthful_up_tag:
  "truthful (hist w) \<Longrightarrow> up_GetLatestRelease cc owner repo w = (r, w') \<Longrightarrow> truthful (hist w')"
  by (drule up_tag) (elim conjE, rule truthful_keep)

lemma truthful_set_exists:
  assumes "truthful (hist w)" "said_exists (hist w) s b"
    "cache_Set cc (exists_entry s) (show_exists b) w = (r, w')"
  shows "truthful (hist w')"
proof (rule truthful_step [OF assms(1)])
  show ext: "extends (hist w) (hist w')" using set [OF assms(3)] by (elim conjE)
  show "holds (hist w) (exists_entry t) v \<or> (\<exists>b. v = show_exists b \<and> said_exists (hist w') t b)"
    if "holds (hist w') (exists_entry t) v" for t v
    using that set [OF assms(3)] said_exists_later [OF ext assms(2)] by (metis entry_simps(1))
  show "holds (hist w) (release_entry t) v \<or> said_tag (hist w') t v"
    if "holds (hist w') (release_entry t) v" for t v
    using that set [OF assms(3)] by (metis entry_simps(4))
qed

lemma truthful_set_tag:
  assumes "truthful (hist w)" "said_tag (hist w) s v0"
    "cache_Set cc (release_entry s) v0 w = (r, w')"
  shows "truthful (hist w')"
proof (rule truthful_step [OF assms(1)])
  show ext: "extends (hist w) (hist w')" using set [OF assms(3)] by (elim conjE)
  show "holds (hist w) (exists_entry t) v \<or> (\<exists>b. v = show_exists b \<and> said_exists (hist w') t b)"
    if "holds (hist w') (exists_entry t) v" for t v
    using that set [OF assms(3)] by (metis entry_simps(3))
  show "holds (hist w) (release_entry t) v \<or> said_tag (hist w') t v"
    if "holds (hist w') (release_entry t) v" for t v
    using that set [OF assms(3)] said_tag_later [OF ext assms(2)] by (metis entry_simps(2))
qed

text \<open>
  The decorator's answer is an answer the upstream client gave, now or earlier; the database
  is not touched; and every error comes from the upstream client, never from the cache.
\<close>

lemma Cached_CheckRepoExists_hit:
  assumes t: "truthful (hist w)" and run: "Cached_CheckRepoExists cc owner repo w = (r, w')"
    and g: "cache_Get cc (exists_entry (slug owner repo)) w = (g, w1)" and b: "read_val g = show_exists b"
  shows "r = Inr b \<and> w' = metric_inc (GitHubAPICalls ''check_repo'' ''hit'') w1 \<and> said_exists (hist w1) (slug owner repo) b"
proof -
  have "holds (hist w) (exists_entry (slug owner repo)) (show_exists b)" using get [OF g] b entry_simps(6) [of b] by auto
  then obtain b' where "show_exists b = show_exists b'" "said_exists (hist w) (slug owner repo) b'"
    using t unfolding truthful_def by blast
  then have "said_exists (hist w1) (slug owner repo) b" using said_exists_later get [OF g] by auto
  moreover have "(r, w') = (Inr b, metric_inc (GitHubAPICalls ''check_repo'' ''hit'') w1)"
    using run g b
    by (cases b) (simp_all add: Cached_CheckRepoExists_def Let_def exists_key_slug show_exists_def cached_distinct)
  ultimately show ?thesis by simp
qed

lemma Cached_CheckRepoExists_truthful:
  assumes t: "truthful (hist w)" and run: "Cached_CheckRepoExists cc owner repo w = (r, w')"
  shows "truthful (hist w') \<and> extends (hist w) (hist w') \<and> db w' = db w \<and>
     (case r of Inr b \<Rightarrow> said_exists (hist w') (slug owner repo) b
      | Inl e \<Rightarrow> \<exists>v v'. up_CheckRepoExists cc owner repo v = (Inl e, v'))"
proof -
  let ?k = "exists_entry (slug owner repo)"
  obtain g w1 where g: "cache_Get cc ?k w = (g, w1)" by (cases "cache_Get cc ?k w")
  note t1 = truthful_get [OF t g] and g1 = get [OF g]
  show ?thesis
  proof (cases "\<exists>b. read_val g = show_exists b")
    case True
    then obtain b where "read_val g = show_exists b" by blast
    from Cached_CheckRepoExists_hit [OF t run g this] show ?thesis using t1 g1 by auto
  next
    case False
    let ?w1 = "metric_inc (GitHubAPICalls ''check_repo'' ''miss'') w1"
    have miss: "read_val g \<noteq> cachedTrue" "read_val g \<noteq> cachedFalse"
      using False unfolding show_exists_def by metis+
    obtain u w2 where u: "up_CheckRepoExists cc owner repo ?w1 = (u, w2)"
      by (cases "up_CheckRepoExists cc owner repo ?w1")
    have t2: "truthful (hist w2)" using truthful_up_exists [OF _ u] t1 by simp
    note u2 = up_exists [OF u]
    have ext: "extends (hist w) (hist w2)" using g1 u2 extends_trans by auto
    show ?thesis
    proof (cases u)
      case (Inl e)
      then show ?thesis
        using run g miss u t2 u2 g1 ext
        by (auto simp: Cached_CheckRepoExists_def Let_def exists_key_slug) blast+
    next
      case (Inr b)
      obtain s w3 where s: "cache_Set cc ?k (show_exists b) w2 = (s, w3)"
        by (cases "cache_Set cc ?k (show_exists b) w2")
      have said: "said_exists (hist w2) (slug owner repo) b" using u2 Inr by simp
      note s3 = set [OF s]
      have "truthful (hist w3)" using truthful_set_exists [OF t2 said s] .
      moreover have "said_exists (hist w3) (slug owner repo) b" using said_exists_later s3 said by blast
      moreover have "r = Inr b" "w' = w3"
        using run g miss u Inr s
        by (auto simp: Cached_CheckRepoExists_def Let_def exists_key_slug show_exists_def)
      ultimately show ?thesis using s3 u2 g1 ext extends_trans by auto
    qed
  qed
qed

lemma Cached_GetLatestRelease_truthful:
  assumes t: "truthful (hist w)" and run: "Cached_GetLatestRelease cc owner repo w = (r, w')"
  shows "truthful (hist w') \<and> extends (hist w) (hist w') \<and> db w' = db w \<and>
     (case r of Inr tag \<Rightarrow> said_tag (hist w') (slug owner repo) tag
      | Inl e \<Rightarrow> \<exists>v v'. up_GetLatestRelease cc owner repo v = (Inl e, v'))"
proof -
  let ?k = "release_entry (slug owner repo)"
  obtain g w1 where g: "cache_Get cc ?k w = (g, w1)" by (cases "cache_Get cc ?k w")
  note t1 = truthful_get [OF t g] and g1 = get [OF g]
  show ?thesis
  proof (cases "read_val g = []")
    case False
    then have "said_tag (hist w) (slug owner repo) (read_val g)"
      using g1 t unfolding truthful_def by blast
    then have "said_tag (hist w1) (slug owner repo) (read_val g)" using said_tag_later g1 by blast
    then show ?thesis
      using run g False t1 g1 by (auto simp: Cached_GetLatestRelease_def Let_def release_key_slug)
  next
    case True
    let ?w1 = "metric_inc (GitHubAPICalls ''latest_release'' ''miss'') w1"
    obtain u w2 where u: "up_GetLatestRelease cc owner repo ?w1 = (u, w2)"
      by (cases "up_GetLatestRelease cc owner repo ?w1")
    have t2: "truthful (hist w2)" using truthful_up_tag [OF _ u] t1 by simp
    note u2 = up_tag [OF u]
    have ext: "extends (hist w) (hist w2)" using g1 u2 extends_trans by auto
    show ?thesis
    proof (cases u)
      case (Inl e)
      then show ?thesis
        using run g True u t2 u2 g1 ext
        by (auto simp: Cached_GetLatestRelease_def Let_def release_key_slug) blast
    next
      case (Inr tag)
      obtain s w3 where s: "cache_Set cc ?k tag w2 = (s, w3)" by (cases "cache_Set cc ?k tag w2")
      have said: "said_tag (hist w2) (slug owner repo) tag" using u2 Inr by simp
      note s3 = set [OF s]
      have "truthful (hist w3)" using truthful_set_tag [OF t2 said s] .
      moreover have "said_tag (hist w3) (slug owner repo) tag" using said_tag_later s3 said by blast
      moreover have "r = Inr tag" "w' = (if tag \<noteq> [] then w3 else w2)"
        using run g True u Inr s by (auto simp: Cached_GetLatestRelease_def Let_def release_key_slug)
      moreover have "extends (hist w) (hist w3)" using s3 ext extends_trans by blast
      ultimately show ?thesis using s3 u2 g1 t2 said ext by (cases "tag = []") simp_all
    qed
  qed
qed

end

section \<open>Retries\<close>

fun is_http :: "io_event \<Rightarrow> bool" where
  "is_http (HttpDo req) = True"
| "is_http _ = False"

fun wait_of :: "io_event \<Rightarrow> int" where
  "wait_of (Wait d) = sint d"
| "wait_of _ = 0"

definition http_result :: "string + http_response \<Rightarrow> gerr + http_response" where
  "http_result a = (case a of Inl m \<Rightarrow> Inl (ErrorString m) | Inr resp \<Rightarrow> Inr resp)"

lemma http_result_Inr [simp]: "http_result a = Inr resp \<longleftrightarrow> a = Inr resp"
  by (auto simp: http_result_def split: sum.splits)

lemma http_call_result: "http_call E req w = (http_result (http_Do E (hist w) req), logged (HttpDo req) w)"
  by (auto simp: http_call_def http_result_def Let_def split: sum.splits)

text \<open>
  One call to \<open>doWithRetry\<close> only logs requests and waits: at most four requests are made, a
  429 is returned only after four of them, and what is returned is the answer to the last.
\<close>

lemma retry_from_hist:
  assumes "retry_from E req i n w = (r, w')"
  shows "\<exists>evs. hist w' = evs @ hist w \<and> db w' = db w \<and> metrics w' = metrics w \<and>
     evs \<noteq> [] \<and> hd evs = HttpDo req \<and> set evs \<subseteq> insert (HttpDo req) (range Wait) \<and>
     length (filter is_http evs) \<le> Suc n \<and>
     r = http_result (http_Do E (tl evs @ hist w) req) \<and>
     (\<forall>resp. r = Inr resp \<and> StatusCode resp = StatusTooManyRequests \<longrightarrow> length (filter is_http evs) = Suc n)"
  using assms
proof (induction n arbitrary: i w)
  case 0
  then show ?case by (intro exI [of _ "[HttpDo req]"]) (auto simp: http_call_result)
next
  case (Suc n)
  obtain q w1 where c: "http_call E req w = (q, w1)" by (cases "http_call E req w")
  have w1: "w1 = logged (HttpDo req) w" and q: "q = http_result (http_Do E (hist w) req)"
    using c by (auto simp: http_call_result)
  show ?case
  proof (cases "\<exists>resp. q = Inr resp \<and> StatusCode resp = StatusTooManyRequests")
    case True
    then have "retry_from E req (Suc i) n (logged (Wait (push_bit i 2 * time_Second)) w1) = (r, w')"
      using Suc.prems c by auto
    from Suc.IH [OF this] obtain evs where evs: "hist w' = evs @ Wait (push_bit i 2 * time_Second) # hist w1"
      "db w' = db w" "metrics w' = metrics w" "evs \<noteq> []" "hd evs = HttpDo req"
      "set evs \<subseteq> insert (HttpDo req) (range Wait)" "length (filter is_http evs) \<le> Suc n"
      "r = http_result (http_Do E (tl evs @ Wait (push_bit i 2 * time_Second) # hist w1) req)"
      "\<forall>resp. r = Inr resp \<and> StatusCode resp = StatusTooManyRequests \<longrightarrow> length (filter is_http evs) = Suc n"
      by (elim exE conjE) (simp add: w1)
    then show ?thesis
      by (intro exI [of _ "evs @ [Wait (push_bit i 2 * time_Second), HttpDo req]"]) (auto simp: w1)
  next
    case False
    then have "r = q" "w' = w1" using Suc.prems c by (auto split: sum.splits if_splits)
    then show ?thesis using False by (intro exI [of _ "[HttpDo req]"]) (auto simp: w1 q)
  qed
qed

section \<open>The gateway of the monolith\<close>

text \<open>The wiring of \<open>main.go\<close>: the HTTP client behind the Redis cache.\<close>

definition main_gateway :: "env \<Rightarrow> Client \<Rightarrow> Cache \<Rightarrow> CachedClient" where
  "main_gateway E c ca =
     \<lparr>up_CheckRepoExists = Client_CheckRepoExists E c, up_GetLatestRelease = Client_GetLatestRelease E c,
      cache_Get = Cache_Get E ca, cache_Set = Cache_Set E ca\<rparr>"

text \<open>What Redis documents of GET: the value of a key is one that was SET for it.\<close>

definition redis_sound :: "env \<Rightarrow> bool" where
  "redis_sound E \<longleftrightarrow> (\<forall>h k v. redis_GET E h k = RedisValue v \<longrightarrow> (\<exists>d ok. RedisSET k v d ok \<in> set h))"

definition redis_holds :: "env \<Rightarrow> history \<Rightarrow> string \<Rightarrow> string \<Rightarrow> bool" where
  "redis_holds E h k v \<longleftrightarrow> (redis_sound E \<longrightarrow> (\<exists>d ok. RedisSET k v d ok \<in> set h))"

text \<open>
  \<open>github_said E c h url resp\<close>: somewhere in the history the client asked for \<open>url\<close> and the
  answer was \<open>resp\<close>.
\<close>

definition github_said :: "env \<Rightarrow> Client \<Rightarrow> history \<Rightarrow> string \<Rightarrow> http_response \<Rightarrow> bool" where
  "github_said E c h url resp \<longleftrightarrow>
     (\<exists>h2 h1. h = h2 @ HttpDo \<lparr>req_URL = url, req_Header = setHeaders c\<rparr> # h1 \<and>
        http_Do E h1 \<lparr>req_URL = url, req_Header = setHeaders c\<rparr> = Inr resp)"

definition github_said_exists :: "env \<Rightarrow> Client \<Rightarrow> history \<Rightarrow> string \<Rightarrow> bool \<Rightarrow> bool" where
  "github_said_exists E c h s b \<longleftrightarrow>
     (\<exists>resp. github_said E c h (''https://api.github.com/repos/'' @ s) resp \<and>
        StatusCode resp = (if b then StatusOK else StatusNotFound))"

definition github_said_tag :: "env \<Rightarrow> Client \<Rightarrow> history \<Rightarrow> string \<Rightarrow> string \<Rightarrow> bool" where
  "github_said_tag E c h s tag \<longleftrightarrow>
     (\<exists>resp. github_said E c h (''https://api.github.com/repos/'' @ s @ ''/releases/latest'') resp \<and>
        (StatusCode resp = StatusNotFound \<and> tag = [] \<or>
         StatusCode resp = StatusOK \<and> (\<exists>name. unmarshal_releaseResponse (Body resp) = Inr (tag, name))))"

lemma github_said_later: "extends h h' \<Longrightarrow> github_said E c h url resp \<Longrightarrow> github_said E c h' url resp"
  unfolding github_said_def extends_def by (metis append.assoc)

lemma doWithRetry_said:
  assumes "new_request c url = Inr req" "doWithRetry E req w = (r, w')"
  shows "extends (hist w) (hist w') \<and> db w' = db w \<and>
     (\<forall>k v d ok. RedisSET k v d ok \<in> set (hist w') \<longrightarrow> RedisSET k v d ok \<in> set (hist w)) \<and>
     (\<forall>resp. r = Inr resp \<longrightarrow> github_said E c (hist w') url resp)"
proof -
  have req: "req = \<lparr>req_URL = url, req_Header = setHeaders c\<rparr>"
    using assms(1) by (auto simp: new_request_def split: if_splits)
  from retry_from_hist [OF assms(2) [unfolded doWithRetry_def]] obtain evs where
    e: "hist w' = evs @ hist w" "db w' = db w" "evs \<noteq> []" "hd evs = HttpDo req"
      "set evs \<subseteq> insert (HttpDo req) (range Wait)"
      "r = http_result (http_Do E (tl evs @ hist w) req)"
    by auto
  have "hist w' = [] @ HttpDo req # tl evs @ hist w" using e(1,3,4) by (cases evs) auto
  then have "\<forall>resp. r = Inr resp \<longrightarrow> github_said E c (hist w') url resp"
    using e(6) unfolding github_said_def req by (metis http_result_Inr)
  then show ?thesis using e by (auto simp: extends_def)
qed

lemma Client_CheckRepoExists_said:
  assumes "Client_CheckRepoExists E c owner repo w = (r, w')"
  shows "extends (hist w) (hist w') \<and> db w' = db w \<and>
     (\<forall>k v d ok. RedisSET k v d ok \<in> set (hist w') \<longrightarrow> RedisSET k v d ok \<in> set (hist w)) \<and>
     (\<forall>b. r = Inr b \<longrightarrow> github_said_exists E c (hist w') (slug owner repo) b)"
proof (cases "new_request c (repo_url owner repo)")
  case (Inl e)
  then show ?thesis using assms by (auto simp: Client_CheckRepoExists_def)
next
  case (Inr req)
  obtain q w1 where d: "doWithRetry E req w = (q, w1)" by (cases "doWithRetry E req w")
  have "w' = w1" using assms Inr d by (auto simp: Client_CheckRepoExists_def split: sum.splits if_splits)
  moreover have "github_said_exists E c (hist w1) (slug owner repo) b" if "r = Inr b" for b
    using assms Inr d that doWithRetry_said [OF Inr d]
    by (auto simp: Client_CheckRepoExists_def github_said_exists_def repo_url_def slug_def
        split: sum.splits if_splits)
  ultimately show ?thesis using doWithRetry_said [OF Inr d] by auto
qed

lemma Client_GetLatestRelease_said:
  assumes "Client_GetLatestRelease E c owner repo w = (r, w')"
  shows "extends (hist w) (hist w') \<and> db w' = db w \<and>
     (\<forall>k v d ok. RedisSET k v d ok \<in> set (hist w') \<longrightarrow> RedisSET k v d ok \<in> set (hist w)) \<and>
     (\<forall>t. r = Inr t \<longrightarrow> github_said_tag E c (hist w') (slug owner repo) t)"
proof (cases "new_request c (release_url owner repo)")
  case (Inl e)
  then show ?thesis using assms by (auto simp: Client_GetLatestRelease_def)
next
  case (Inr req)
  obtain q w1 where d: "doWithRetry E req w = (q, w1)" by (cases "doWithRetry E req w")
  have "w' = w1"
    using assms Inr d by (auto simp: Client_GetLatestRelease_def split: sum.splits if_splits prod.splits)
  moreover have "github_said_tag E c (hist w1) (slug owner repo) t" if "r = Inr t" for t
    using assms Inr d that doWithRetry_said [OF Inr d]
    by (auto simp: Client_GetLatestRelease_def github_said_tag_def release_url_def repo_url_def slug_def
        split: sum.splits if_splits prod.splits)
  ultimately show ?thesis using doWithRetry_said [OF Inr d] by auto
qed

interpretation gateway: cached_gateway "main_gateway E c ca" "redis_holds E"
  "github_said_exists E c" "github_said_tag E c" for E c ca
proof (unfold_locales, goal_cases)
  case (1 k w rg wg)
  then have "Cache_Get E ca k w = (rg, wg)" by (simp add: main_gateway_def)
  then show ?case
    by (auto simp: Cache_Get_def Let_def redis_holds_def read_val_def intro: extends_Cons
        split: redis_reply.splits) (auto simp: redis_sound_def intro: extends_Cons)
next
  case (2 k v w rs ws)
  then have "Cache_Set E ca k v w = (rs, ws)" by (simp add: main_gateway_def)
  then show ?case by (auto simp: Cache_Set_def redis_holds_def intro!: extends_Cons split: option.splits)
next
  case (3 owner repo w ru wu)
  then have "Client_CheckRepoExists E c owner repo w = (ru, wu)" by (simp add: main_gateway_def)
  from Client_CheckRepoExists_said [OF this] show ?case unfolding redis_holds_def by blast
next
  case (4 owner repo w rt wt)
  then have "Client_GetLatestRelease E c owner repo w = (rt, wt)" by (simp add: main_gateway_def)
  from Client_GetLatestRelease_said [OF this] show ?case unfolding redis_holds_def by blast
next
  case 5
  then show ?case unfolding github_said_exists_def by (meson github_said_later)
next
  case 6
  then show ?case unfolding github_said_tag_def by (meson github_said_later)
qed

end
