(* ===== verification/Notifier.thy ===== *)
theory Notifier
  imports Notification
begin

text \<open>
  The notifier process (\<open>cmd/notifier\<close>): the SMTP sender, the Redis deduper, the AMQP consumer
  with its idempotent-consumer flow, and the gRPC server of the synchronous transport. The
  consumer is verified against the \<open>deduper\<close> interface; the lemmas give the exact trace of
  e-mails and saga replies one delivery produces.
\<close>

section \<open>SMTP\<close>

record SMTPSender =
  smtp_host :: string
  smtp_port :: string
  smtp_user :: string
  smtp_pass :: string
  smtp_from :: string

definition crlf :: string where
  "crlf = [CHR 0x0D, CHR 0x0A]"

definition nl :: string where
  "nl = [CHR 0x0A]"

text \<open>
  \<open>smtp.SendMail\<close> refuses an envelope address with a line break before it connects; otherwise
  the mail server decides.
\<close>

definition line_ok :: "string \<Rightarrow> bool" where
  "line_ok s \<longleftrightarrow> CHR 0x0D \<notin> set s \<and> CHR 0x0A \<notin> set s"

definition SendMail :: "env \<Rightarrow> mail \<Rightarrow> (world, unit) act" where
  "SendMail E m w =
     (if \<not> (line_ok (mail_From m) \<and> list_all line_ok (mail_To m))
      then (Inl (ErrorString ''smtp: A line must not contain CR or LF''), logged (SmtpSendMail m False) w)
      else (case smtp_SendMail E (hist w) m of
              None \<Rightarrow> (Inr (), logged (SmtpSendMail m True) w)
            | Some e \<Rightarrow> (Inl (ErrorString e), logged (SmtpSendMail m False) w)))"

definition email_of :: "SMTPSender \<Rightarrow> string \<Rightarrow> string \<Rightarrow> string \<Rightarrow> mail" where
  "email_of s to subject body =
     \<lparr>mail_Addr = smtp_host s @ '':'' @ smtp_port s,
      mail_Auth = (if smtp_user s \<noteq> [] then Some (smtp_user s, smtp_pass s, smtp_host s) else None),
      mail_From = smtp_from s, mail_To = [to],
      mail_Msg = ''From: '' @ smtp_from s @ crlf @ ''To: '' @ to @ crlf @ ''Subject: '' @ subject @ crlf @
        ''MIME-Version: 1.0'' @ crlf @ ''Content-Type: text/plain; charset='' @ [CHR 0x22] @ ''utf-8'' @
        [CHR 0x22] @ crlf @ crlf @ body\<rparr>"

definition sendEmail :: "env \<Rightarrow> SMTPSender \<Rightarrow> string \<Rightarrow> string \<Rightarrow> string \<Rightarrow> (world, unit) act" where
  "sendEmail E s to subject body = SendMail E (email_of s to subject body)"

definition confirmation_subject :: string where
  "confirmation_subject = ''Confirm your GitHub release subscription''"

definition confirmation_body :: "string \<Rightarrow> string" where
  "confirmation_body confirmURL =
     ''Please confirm your subscription by clicking the link below:'' @ nl @ nl @ confirmURL @ nl @ nl @
     ''If you did not subscribe, you can safely ignore this email.''"

definition release_subject :: "string \<Rightarrow> string \<Rightarrow> string" where
  "release_subject repo tag = ''New release: '' @ repo @ '' '' @ tag"

definition release_body :: "string \<Rightarrow> string \<Rightarrow> string \<Rightarrow> string" where
  "release_body repo tag unsubscribeURL =
     ''A new release has been published!'' @ nl @ nl @ ''Repository: '' @ repo @ nl @ ''Release: '' @ tag @
     nl @ ''URL: https://github.com/'' @ repo @ ''/releases/tag/'' @ tag @ nl @ nl @
     ''To unsubscribe: '' @ unsubscribeURL"

definition SendConfirmationEmail :: "env \<Rightarrow> SMTPSender \<Rightarrow> string \<Rightarrow> string \<Rightarrow> (world, unit) act" where
  "SendConfirmationEmail E s to confirmURL =
     sendEmail E s to confirmation_subject (confirmation_body confirmURL)"

definition smtp_SendReleaseNotification ::
  "env \<Rightarrow> SMTPSender \<Rightarrow> string \<Rightarrow> string \<Rightarrow> string \<Rightarrow> string \<Rightarrow> (world, unit) act" where
  "smtp_SendReleaseNotification E s to repo tag unsubscribeURL =
     sendEmail E s to (release_subject repo tag) (release_body repo tag unsubscribeURL)"

abbreviation confirmation_mail :: "SMTPSender \<Rightarrow> string \<Rightarrow> string \<Rightarrow> mail" where
  "confirmation_mail s to confirmURL \<equiv> email_of s to confirmation_subject (confirmation_body confirmURL)"

abbreviation release_mail :: "SMTPSender \<Rightarrow> string \<Rightarrow> string \<Rightarrow> string \<Rightarrow> string \<Rightarrow> mail" where
  "release_mail s to repo tag unsubscribeURL \<equiv>
     email_of s to (release_subject repo tag) (release_body repo tag unsubscribeURL)"

section \<open>Deduplication\<close>

record deduper =
  AlreadyProcessed :: "string \<Rightarrow> (world, bool) act"
  MarkProcessed :: "string \<Rightarrow> (world, unit) act"

definition dedupKey :: "string \<Rightarrow> string" where
  "dedupKey i = ''processed:'' @ i"

definition redis_AlreadyProcessed :: "env \<Rightarrow> string \<Rightarrow> (world, bool) act" where
  "redis_AlreadyProcessed E i w =
     (let w' = logged (RedisEXISTS (dedupKey i)) w in
      case redis_EXISTS E (hist w) (dedupKey i) of
        Inl m \<Rightarrow> (Inl (ErrorString m), w')
      | Inr n \<Rightarrow> (Inr (0 < n), w'))"

definition redis_MarkProcessed :: "env \<Rightarrow> duration \<Rightarrow> string \<Rightarrow> (world, unit) act" where
  "redis_MarkProcessed E ttl i w =
     (case redis_SET E (hist w) (dedupKey i) ''1'' of
        None \<Rightarrow> (Inr (), logged (RedisSET (dedupKey i) ''1'' ttl True) w)
      | Some m \<Rightarrow> (Inl (ErrorString m), logged (RedisSET (dedupKey i) ''1'' ttl False) w))"

definition redisDeduper :: "env \<Rightarrow> duration \<Rightarrow> deduper" where
  "redisDeduper E ttl =
     \<lparr>AlreadyProcessed = redis_AlreadyProcessed E, MarkProcessed = redis_MarkProcessed E ttl\<rparr>"

section \<open>The AMQP consumer\<close>

record delivery =
  d_RoutingKey :: string
  d_MessageId :: string
  d_Body :: json

record Consumer =
  cons_sender :: SMTPSender
  cons_dedup :: deduper
  maxAttempts :: nat
  backoff :: duration

definition NewConsumer :: "SMTPSender \<Rightarrow> deduper \<Rightarrow> Consumer" where
  "NewConsumer s dd = \<lparr>cons_sender = s, cons_dedup = dd, maxAttempts = 3, backoff = 500 * time_Millisecond\<rparr>"

definition saga_reply :: "string \<Rightarrow> string \<Rightarrow> amqp_Publishing" where
  "saga_reply sagaID st =
     \<lparr>pub_Exchange = ExchangeName, pub_RoutingKey = RoutingSagaReply, pub_ContentType = ''application/json'',
      pub_Persistent = True, pub_MessageId = ''saga-reply:'' @ sagaID,
      pub_Body = marshal_SagaReply \<lparr>rep_SagaID = sagaID, rep_Status = st\<rparr>\<rparr>"

definition ReplyConfirmation :: "env \<Rightarrow> string \<Rightarrow> string \<Rightarrow> (world, unit) act" where
  "ReplyConfirmation E sagaID st = PublishWithContext E (saga_reply sagaID st)"

text \<open>
  \<open>sendWithRetry\<close>: \<open>send_attempts n\<close> is the loop with \<open>n\<close> attempts left after the current one.
  A consumer configured with no attempts returns the nil error without sending.
\<close>

fun send_attempts :: "env \<Rightarrow> duration \<Rightarrow> (world, unit) act \<Rightarrow> nat \<Rightarrow> (world, unit) act" where
  "send_attempts E pause send 0 w = send w"
| "send_attempts E pause send (Suc n) w =
     (case send w of
        (Inr _, w1) \<Rightarrow> (Inr (), w1)
      | (Inl e, w1) \<Rightarrow>
          (case backoff_or_done E pause w1 of
             (True, w2) \<Rightarrow> (Inl (ErrorString ''context canceled''), w2)
           | (False, w2) \<Rightarrow> send_attempts E pause send n w2))"

definition sendWithRetry :: "env \<Rightarrow> Consumer \<Rightarrow> (world, unit) act \<Rightarrow> (world, unit) act" where
  "sendWithRetry E c send w =
     (if maxAttempts c = 0 then (Inr (), w) else send_attempts E (backoff c) send (maxAttempts c - 1) w)"

text \<open>The confirmation branch of \<open>dispatch\<close> after decoding.\<close>

definition dispatch_confirmation :: "env \<Rightarrow> Consumer \<Rightarrow> ConfirmationRequest \<Rightarrow> (world, unit) act" where
  "dispatch_confirmation E c req w =
     (case sendWithRetry E c (SendConfirmationEmail E (cons_sender c) (cr_To req) (cr_ConfirmURL req)) w of
       (sendErr, w1) \<Rightarrow>
         (case (if cr_SagaID req \<noteq> []
                then (case ReplyConfirmation E (cr_SagaID req)
                             (case sendErr of Inl _ \<Rightarrow> SagaStatusFailed | Inr _ \<Rightarrow> SagaStatusSent) w1 of
                        (Inl e, w2) \<Rightarrow> (Some e, w2)
                      | (Inr _, w2) \<Rightarrow> (None, w2))
                else (None, w1)) of
           (replyErr, w2) \<Rightarrow>
             (case sendErr of
                Inr _ \<Rightarrow> (Inr (), w2)
              | Inl e \<Rightarrow>
                  (if cr_SagaID req = [] then (Inl (Errorf ''send confirmation'' e), w2)
                   else (case replyErr of
                           Some _ \<Rightarrow>
                             (Inl (Errorf (''send confirmation failed and reply not delivered (saga '' @
                                     cr_SagaID req @ '')'') e), w2)
                         | None \<Rightarrow> (Inr (), w2))))))"

definition dispatch :: "env \<Rightarrow> Consumer \<Rightarrow> delivery \<Rightarrow> (world, unit) act" where
  "dispatch E c d w =
     (if d_RoutingKey d = RoutingConfirm
      then (case unmarshal_ConfirmationRequest (d_Body d) of
              Inl e \<Rightarrow> (Inl (Errorf ''decode confirmation'' e), w)
            | Inr req \<Rightarrow> dispatch_confirmation E c req w)
      else if d_RoutingKey d = RoutingRelease
      then (case unmarshal_ReleaseRequest (d_Body d) of
              Inl e \<Rightarrow> (Inl (Errorf ''decode release'' e), w)
            | Inr req \<Rightarrow>
                smtp_SendReleaseNotification E (cons_sender c) (rr_To req) (rr_Repo req) (rr_Tag req)
                  (rr_UnsubscribeURL req) w)
      else (Inl (ErrorString (''unknown routing key '' @ Quote (d_RoutingKey d))), w))"

definition replyAlreadySent :: "env \<Rightarrow> delivery \<Rightarrow> world \<Rightarrow> world" where
  "replyAlreadySent E d w =
     (if d_RoutingKey d \<noteq> RoutingConfirm then w
      else (case unmarshal_ConfirmationRequest (d_Body d) of
              Inl _ \<Rightarrow> w
            | Inr req \<Rightarrow>
                (if cr_SagaID req = [] then w
                 else snd (ReplyConfirmation E (cr_SagaID req) SagaStatusSent w))))"

text \<open>The part of \<open>handle\<close> after the duplicate check.\<close>

definition process :: "env \<Rightarrow> Consumer \<Rightarrow> delivery \<Rightarrow> (world, unit) act" where
  "process E c d w =
     (case dispatch E c d w of
        (Inl e, w1) \<Rightarrow> (Inl e, w1)
      | (Inr _, w1) \<Rightarrow>
          (Inr (), if d_MessageId d \<noteq> [] then snd (MarkProcessed (cons_dedup c) (d_MessageId d) w1) else w1))"

definition handle :: "env \<Rightarrow> Consumer \<Rightarrow> delivery \<Rightarrow> (world, unit) act" where
  "handle E c d w =
     (if d_MessageId d \<noteq> []
      then (case AlreadyProcessed (cons_dedup c) (d_MessageId d) w of
              (Inl _, w1) \<Rightarrow> process E c d w1
            | (Inr True, w1) \<Rightarrow> (Inr (), replyAlreadySent E d w1)
            | (Inr False, w1) \<Rightarrow> process E c d w1)
      else process E c d w)"

text \<open>The consume loop of \<open>Run\<close>: ack on success, dead-letter on error.\<close>

datatype consumed = Deliver delivery | DeliveriesClosed | ConsumerDone

fun consume_loop :: "env \<Rightarrow> Consumer \<Rightarrow> consumed list \<Rightarrow> (world, unit) act" where
  "consume_loop E c [] w = (Inr (), w)"
| "consume_loop E c (ConsumerDone # ds) w = (Inr (), w)"
| "consume_loop E c (DeliveriesClosed # ds) w = (Inl (ErrorString ''deliveries channel closed''), w)"
| "consume_loop E c (Deliver d # ds) w =
     (case handle E c d w of
        (Inl e, w1) \<Rightarrow> consume_loop E c ds (logged (Settled False) w1)
      | (Inr _, w1) \<Rightarrow> consume_loop E c ds (logged (Settled True) w1))"

section \<open>The gRPC transport\<close>

definition grpc_status :: "string \<Rightarrow> string \<Rightarrow> gerr" where
  "grpc_status code msg = ErrorString (''rpc error: code = '' @ code @ '' desc = '' @ msg)"

definition server_SendConfirmation ::
  "env \<Rightarrow> SMTPSender \<Rightarrow> deduper \<Rightarrow> string \<Rightarrow> string \<Rightarrow> string \<Rightarrow> (world, unit) act" where
  "server_SendConfirmation E s dd email repo confirmURL w =
     (if email = [] \<or> repo = [] \<or> confirmURL = []
      then (Inl (grpc_status ''InvalidArgument'' ''email, repo and confirm_url are required''), w)
      else
       (let messageID = ''confirm:'' @ path_Base confirmURL;
            go = (\<lambda>w1. case SendConfirmationEmail E s email confirmURL w1 of
                    (Inl e, w2) \<Rightarrow>
                      (Inl (grpc_status ''Unavailable'' (''sending confirmation email: '' @ Error e)), w2)
                  | (Inr _, w2) \<Rightarrow> (Inr (), snd (MarkProcessed dd messageID w2)))
        in case AlreadyProcessed dd messageID w of
             (Inl _, w1) \<Rightarrow> go w1
           | (Inr True, w1) \<Rightarrow> (Inr (), w1)
           | (Inr False, w1) \<Rightarrow> go w1))"

text \<open>
  The client side (\<open>GRPCConfirmationSender.SendConfirmation\<close>): the call may not reach the
  server, or its answer may get lost or be late; in both cases the client sees an error.
\<close>

definition grpc_SendConfirmation ::
  "env \<Rightarrow> (string \<Rightarrow> string \<Rightarrow> string \<Rightarrow> (world, unit) act) \<Rightarrow> string \<Rightarrow> string \<Rightarrow> string \<Rightarrow> (world, unit) act" where
  "grpc_SendConfirmation E server email repo confirmURL w =
     (case grpc_Invoke E (hist w) of
        RpcUnreached m \<Rightarrow>
          (Inl (Errorf ''grpc send confirmation'' (ErrorString m)), logged (GrpcInvoke False) w)
      | RpcDelivered \<Rightarrow>
          (case server email repo confirmURL (logged (GrpcInvoke True) w) of
             (Inl e, w1) \<Rightarrow> (Inl (Errorf ''grpc send confirmation'' e), w1)
           | (Inr _, w1) \<Rightarrow> (Inr (), w1))
      | RpcReplyLost m \<Rightarrow>
          (case server email repo confirmURL (logged (GrpcInvoke True) w) of
             (_, w1) \<Rightarrow> (Inl (Errorf ''grpc send confirmation'' (ErrorString m)), w1)))"

section \<open>E-mails and replies of one delivery\<close>

text \<open>The observable effects of the notifier: mail deliveries and broker publishes, newest first.\<close>

fun is_effect :: "io_event \<Rightarrow> bool" where
  "is_effect (SmtpSendMail m ok) = True"
| "is_effect (AmqpPublish p ok) = True"
| "is_effect _ = False"

definition effects :: "history \<Rightarrow> history" where
  "effects h = filter is_effect h"

lemma effects_simps [simp]:
  "effects [] = []"
  "effects (e # h) = (if is_effect e then e # effects h else effects h)"
  "effects (h1 @ h2) = effects h1 @ effects h2"
  by (simp_all add: effects_def)

text \<open>An operation that leaves the database and the counters alone and only adds to the history.\<close>

definition quiet :: "world \<Rightarrow> world \<Rightarrow> bool" where
  "quiet w w' \<longleftrightarrow> db w' = db w \<and> metrics w' = metrics w \<and> extends (hist w) (hist w')"

lemma quiet_refl [simp, intro]: "quiet w w"
  by (simp add: quiet_def)

lemma quiet_trans [trans]: "quiet a b \<Longrightarrow> quiet b c \<Longrightarrow> quiet a c"
  by (auto simp: quiet_def intro: extends_trans)

lemma quiet_logged [simp, intro]: "quiet w (logged e w)"
  by (simp add: quiet_def extends_Cons)

lemma SendMail_trace:
  assumes "SendMail E m w = (r, w')"
  shows "quiet w w' \<and> w' = logged (SmtpSendMail m (r = Inr ())) w \<and> (r = Inr () \<or> (\<exists>e. r = Inl e \<and> infra e))"
  using assms by (auto simp: SendMail_def split: if_splits option.splits)

lemma backoff_or_done_quiet:
  "backoff_or_done E d w = (b, w') \<Longrightarrow> quiet w w' \<and> effects (hist w') = effects (hist w)"
  by (auto simp: backoff_or_done_def split: if_splits)

lemma PublishWithContext_trace:
  assumes "PublishWithContext E p w = (r, w')"
  shows "quiet w w' \<and> w' = logged (AmqpPublish p (r = Inr ())) w \<and> (r = Inr () \<or> (\<exists>e. r = Inl e \<and> infra e))"
  using assms by (auto simp: PublishWithContext_def split: option.splits)

text \<open>
  The retry loop makes at most \<open>Suc n\<close> attempts: some failed deliveries and, exactly when it
  returns nil, one accepted delivery at the end.
\<close>

lemma send_attempts_trace:
  assumes "send_attempts E pause (SendMail E m) n w = (r, w')"
  shows "quiet w w' \<and> (\<exists>k. k \<le> n \<and> (case r of
       Inr _ \<Rightarrow> effects (hist w') = SmtpSendMail m True # replicate k (SmtpSendMail m False) @ effects (hist w)
     | Inl e \<Rightarrow> infra e \<and>
         effects (hist w') = replicate (Suc k) (SmtpSendMail m False) @ effects (hist w)))"
  using assms
proof (induction n arbitrary: w)
  case 0
  then show ?case using SendMail_trace [of E m w r w'] by (auto split: sum.splits)
next
  case (Suc n)
  obtain q w1 where s: "SendMail E m w = (q, w1)" by (cases "SendMail E m w")
  note s1 = SendMail_trace [OF s]
  show ?case
  proof (cases q)
    case (Inr x)
    then show ?thesis using Suc.prems s s1 by (intro conjI exI [of _ 0]) auto
  next
    case (Inl e)
    obtain b w2 where bo: "backoff_or_done E pause w1 = (b, w2)" by (cases "backoff_or_done E pause w1")
    note b2 = backoff_or_done_quiet [OF bo]
    have ef: "effects (hist w2) = SmtpSendMail m False # effects (hist w)" using b2 s1 Inl by auto
    have q2: "quiet w w2" using s1 b2 quiet_trans by blast
    show ?thesis
    proof (cases b)
      case True
      then have "r = Inl (ErrorString ''context canceled'')" "w' = w2" using Suc.prems s Inl bo by auto
      then show ?thesis using ef q2 by (intro conjI exI [of _ 0]) auto
    next
      case False
      then have "send_attempts E pause (SendMail E m) n w2 = (r, w')" using Suc.prems s Inl bo by auto
      from Suc.IH [OF this] obtain k where k: "quiet w2 w'" "k \<le> n" "case r of
           Inr _ \<Rightarrow> effects (hist w') = SmtpSendMail m True # replicate k (SmtpSendMail m False) @ effects (hist w2)
         | Inl e \<Rightarrow> infra e \<and> effects (hist w') = replicate (Suc k) (SmtpSendMail m False) @ effects (hist w2)"
        by blast
      then show ?thesis
        using ef quiet_trans [OF q2 k(1)]
        by (intro conjI exI [of _ "Suc k"]) (auto split: sum.splits simp: replicate_app_Cons_same)
    qed
  qed
qed

lemma sendWithRetry_trace:
  assumes "sendWithRetry E c (SendConfirmationEmail E s to url) w = (r, w')" "maxAttempts c = Suc n"
  shows "quiet w w' \<and> (\<exists>k. k \<le> n \<and> (case r of
       Inr _ \<Rightarrow> effects (hist w') = SmtpSendMail (confirmation_mail s to url) True #
         replicate k (SmtpSendMail (confirmation_mail s to url) False) @ effects (hist w)
     | Inl e \<Rightarrow> infra e \<and> effects (hist w') =
         replicate (Suc k) (SmtpSendMail (confirmation_mail s to url) False) @ effects (hist w)))"
proof -
  have "SendConfirmationEmail E s to url = SendMail E (confirmation_mail s to url)"
    by (simp add: SendConfirmationEmail_def sendEmail_def fun_eq_iff)
  then have "send_attempts E (backoff c) (SendMail E (confirmation_mail s to url)) n w = (r, w')"
    using assms by (simp add: sendWithRetry_def)
  then show ?thesis by (rule send_attempts_trace)
qed

text \<open>
  The outcome of one saga-driven confirmation, as the list of its effects. \<open>Delivered\<close>: the
  mail was accepted and \<open>sent\<close> reported; \<open>Reported\<close>: every attempt failed and \<open>failed\<close> was
  published; \<open>Unreported\<close>: every attempt failed and so did the publish, so the delivery is
  dead-lettered.
\<close>

datatype outcome = Delivered bool | Reported | Unreported

fun outcome_effects :: "mail \<Rightarrow> string \<Rightarrow> nat \<Rightarrow> outcome \<Rightarrow> history" where
  "outcome_effects m sid k (Delivered ok) =
     AmqpPublish (saga_reply sid SagaStatusSent) ok # SmtpSendMail m True # replicate k (SmtpSendMail m False)"
| "outcome_effects m sid k Reported =
     AmqpPublish (saga_reply sid SagaStatusFailed) True # replicate (Suc k) (SmtpSendMail m False)"
| "outcome_effects m sid k Unreported =
     AmqpPublish (saga_reply sid SagaStatusFailed) False # replicate (Suc k) (SmtpSendMail m False)"

lemma dispatch_confirmation_trace:
  assumes "dispatch_confirmation E c req w = (r, w')" "maxAttempts c = Suc n" "cr_SagaID req \<noteq> []"
  shows "quiet w w' \<and> (\<exists>k out. k \<le> n \<and> effects (hist w') =
      outcome_effects (confirmation_mail (cons_sender c) (cr_To req) (cr_ConfirmURL req)) (cr_SagaID req) k out @
        effects (hist w) \<and> (r = Inr () \<longleftrightarrow> out \<noteq> Unreported) \<and> ((\<exists>e. r = Inl e) \<longleftrightarrow> out = Unreported))"
proof -
  let ?send = "SendConfirmationEmail E (cons_sender c) (cr_To req) (cr_ConfirmURL req)"
  obtain q w1 where s: "sendWithRetry E c ?send w = (q, w1)" by (cases "sendWithRetry E c ?send w")
  note s1 = sendWithRetry_trace [OF s assms(2)]
  let ?st = "case q of Inl _ \<Rightarrow> SagaStatusFailed | Inr _ \<Rightarrow> SagaStatusSent"
  obtain a w2 where rp: "ReplyConfirmation E (cr_SagaID req) ?st w1 = (a, w2)"
    by (cases "ReplyConfirmation E (cr_SagaID req) ?st w1")
  note r2 = PublishWithContext_trace [OF rp [unfolded ReplyConfirmation_def]]
  have w': "w' = w2"
    using assms(1,3) s rp by (cases a; cases q) (auto simp: dispatch_confirmation_def)
  have q2: "quiet w w'" using s1 r2 quiet_trans w' by blast
  show ?thesis
  proof (cases q)
    case (Inr x)
    then have "r = Inr ()" using assms(1,3) s rp by (cases a) (auto simp: dispatch_confirmation_def)
    with s1 r2 q2 Inr w' show ?thesis
      by (intro conjI q2) (elim conjE exE, rule_tac x = k in exI, rule_tac x = "Delivered (a = Inr ())" in exI, auto)
  next
    case (Inl e)
    then have "r = (case a of Inr _ \<Rightarrow> Inr () | Inl _ \<Rightarrow> r)" "(\<exists>e. r = Inl e) \<longleftrightarrow> (\<exists>e. a = Inl e)"
      using assms(1,3) s rp by (cases a; auto simp: dispatch_confirmation_def)+
    with s1 r2 q2 Inl w' show ?thesis
      by (intro conjI q2)
        (elim conjE exE, rule_tac x = k in exI, rule_tac x = "if a = Inr () then Reported else Unreported" in exI,
         auto split: sum.splits)
  qed
qed

section \<open>The consumer against the deduper interface\<close>

text \<open>
  \<open>seen h i\<close>: asked after the history \<open>h\<close>, the deduper answers that message \<open>i\<close> was processed.
  Neither operation mails, publishes or touches the database.
\<close>

locale dedup_io =
  fixes dd :: deduper and seen :: "history \<Rightarrow> string \<Rightarrow> bool"
  assumes already: "AlreadyProcessed dd i w = (ra, wa) \<Longrightarrow>
      quiet w wa \<and> effects (hist wa) = effects (hist w) \<and> (ra = Inr True \<longleftrightarrow> seen (hist w) i)"
    and mark: "MarkProcessed dd i w = (rm, wm) \<Longrightarrow> quiet w wm \<and> effects (hist wm) = effects (hist w)"
begin

lemma process_trace:
  assumes "process E c d w = (r, w')" "maxAttempts c = Suc n" "cons_dedup c = dd"
    "d_RoutingKey d = RoutingConfirm" "unmarshal_ConfirmationRequest (d_Body d) = Inr req" "cr_SagaID req \<noteq> []"
  shows "quiet w w' \<and> (\<exists>k out. k \<le> n \<and> effects (hist w') =
      outcome_effects (confirmation_mail (cons_sender c) (cr_To req) (cr_ConfirmURL req)) (cr_SagaID req) k out @
        effects (hist w) \<and> (r = Inr () \<longleftrightarrow> out \<noteq> Unreported))"
proof -
  obtain q w1 where p: "dispatch_confirmation E c req w = (q, w1)" by (cases "dispatch_confirmation E c req w")
  have dp: "dispatch E c d w = (q, w1)" using p assms(4,5) by (simp add: dispatch_def)
  obtain m w2 where mk: "MarkProcessed dd (d_MessageId d) w1 = (m, w2)" by (cases "MarkProcessed dd (d_MessageId d) w1")
  have w': "quiet w1 w'" "effects (hist w') = effects (hist w1)" "r = Inr () \<longleftrightarrow> q = Inr ()"
    using assms(1,3) dp mark [OF mk] mk by (auto simp: process_def split: sum.splits if_splits)
  note t = dispatch_confirmation_trace [OF p assms(2,6)]
  then have "quiet w w'" using w'(1) quiet_trans by blast
  then show ?thesis using t unfolding w'(2,3) by blast
qed

lemma replyAlreadySent_trace:
  assumes "d_RoutingKey d = RoutingConfirm" "unmarshal_ConfirmationRequest (d_Body d) = Inr req" "cr_SagaID req \<noteq> []"
  shows "\<exists>ok. replyAlreadySent E d w = logged (AmqpPublish (saga_reply (cr_SagaID req) SagaStatusSent) ok) w"
proof -
  obtain a w2 where "ReplyConfirmation E (cr_SagaID req) SagaStatusSent w = (a, w2)"
    by (cases "ReplyConfirmation E (cr_SagaID req) SagaStatusSent w")
  then show ?thesis
    using assms PublishWithContext_trace [of E "saga_reply (cr_SagaID req) SagaStatusSent" w a w2]
    by (auto simp: replyAlreadySent_def ReplyConfirmation_def)
qed

text \<open>
  Everything one saga-driven confirmation delivery does. A duplicate sends no mail and is
  acknowledged; any other delivery is acknowledged exactly when its outcome, success or failure,
  was handed to the broker.
\<close>

lemma handle_trace:
  assumes "handle E c d w = (r, w')" "maxAttempts c = Suc n" "cons_dedup c = dd"
    "d_RoutingKey d = RoutingConfirm" "unmarshal_ConfirmationRequest (d_Body d) = Inr req" "cr_SagaID req \<noteq> []"
  shows "quiet w w' \<and>
     (if d_MessageId d \<noteq> [] \<and> seen (hist w) (d_MessageId d)
      then r = Inr () \<and>
        (\<exists>ok. effects (hist w') = AmqpPublish (saga_reply (cr_SagaID req) SagaStatusSent) ok # effects (hist w))
      else \<exists>k out. k \<le> n \<and> effects (hist w') =
         outcome_effects (confirmation_mail (cons_sender c) (cr_To req) (cr_ConfirmURL req)) (cr_SagaID req) k out @
           effects (hist w) \<and> (r = Inr () \<longleftrightarrow> out \<noteq> Unreported))"
proof (cases "d_MessageId d = []")
  case True
  then have "process E c d w = (r, w')" using assms(1) by (simp add: handle_def)
  from process_trace [OF this assms(2-6)] show ?thesis using True by simp
next
  case False
  obtain a w1 where al: "AlreadyProcessed dd (d_MessageId d) w = (a, w1)"
    by (cases "AlreadyProcessed dd (d_MessageId d) w")
  note a1 = already [OF al]
  show ?thesis
  proof (cases "a = Inr True")
    case True
    from replyAlreadySent_trace [OF assms(4-6), of E w1] obtain ok where
      "replyAlreadySent E d w1 = logged (AmqpPublish (saga_reply (cr_SagaID req) SagaStatusSent) ok) w1" by blast
    then have "w' = logged (AmqpPublish (saga_reply (cr_SagaID req) SagaStatusSent) ok) w1" "r = Inr ()"
      using assms(1,3) False al True by (auto simp: handle_def)
    then show ?thesis using a1 True False quiet_trans [OF _ quiet_logged, of w w1] by simp
  next
    case no: False
    then have "process E c d w1 = (r, w')"
      using assms(1,3) False al by (auto simp: handle_def split: sum.splits bool.splits)
    note t = process_trace [OF this assms(2-6)]
    then have "quiet w w'" using a1 quiet_trans by blast
    then show ?thesis using t a1 no by simp
  qed
qed

end

text \<open>What Redis answers about a message id.\<close>

definition redis_seen :: "env \<Rightarrow> history \<Rightarrow> string \<Rightarrow> bool" where
  "redis_seen E h i \<longleftrightarrow> (case redis_EXISTS E h (dedupKey i) of Inl _ \<Rightarrow> False | Inr n \<Rightarrow> 0 < n)"

lemma dedupKey_inj [simp]: "dedupKey i = dedupKey j \<longleftrightarrow> i = j"
  by (simp add: dedupKey_def)

interpretation redis_dedup: dedup_io "redisDeduper E t" "redis_seen E" for E t
proof
  fix i and w :: world and ra wa
  assume "AlreadyProcessed (redisDeduper E t) i w = (ra, wa)"
  then have "redis_AlreadyProcessed E i w = (ra, wa)" by (simp add: redisDeduper_def)
  then show "quiet w wa \<and> effects (hist wa) = effects (hist w) \<and> (ra = Inr True \<longleftrightarrow> redis_seen E (hist w) i)"
    by (auto simp: redis_AlreadyProcessed_def redis_seen_def Let_def split: sum.splits)
next
  fix i and w :: world and rm wm
  assume "MarkProcessed (redisDeduper E t) i w = (rm, wm)"
  then have "redis_MarkProcessed E t i w = (rm, wm)" by (simp add: redisDeduper_def)
  then show "quiet w wm \<and> effects (hist wm) = effects (hist w)"
    by (auto simp: redis_MarkProcessed_def split: option.splits)
qed

section \<open>Redeliveries\<close>

text \<open>
  What Redis documents of keys with a lifetime. \<open>last_SET h k\<close> is the lifetime the latest accepted
  SET gave the key, with the history before it; \<open>clk\<close> is the server's clock, in nanoseconds, as a
  function of the history. The key exists from that SET until its lifetime has passed, and a key that
  was never set does not exist.
\<close>

fun last_SET :: "history \<Rightarrow> string \<Rightarrow> (duration \<times> history) option" where
  "last_SET [] k = None"
| "last_SET (RedisSET k' v d ok # h) k = (if k' = k \<and> ok then Some (d, h) else last_SET h k)"
| "last_SET (_ # h) k = last_SET h k"

definition key_live :: "(history \<Rightarrow> int) \<Rightarrow> history \<Rightarrow> string \<Rightarrow> bool" where
  "key_live clk h k \<longleftrightarrow> (case last_SET h k of None \<Rightarrow> False | Some (d, h0) \<Rightarrow> clk h < clk h0 + sint d)"

text \<open>Every SET of the key was accepted and gave it the lifetime \<open>t\<close>.\<close>

definition marked_with :: "duration \<Rightarrow> history \<Rightarrow> string \<Rightarrow> bool" where
  "marked_with t h k \<longleftrightarrow> (\<forall>v d ok. RedisSET k v d ok \<in> set h \<longrightarrow> d = t \<and> ok)"

text \<open>
  Redis while it is up: every SET is accepted, the clock never runs backwards, and EXISTS tells of a
  key that got only positive lifetimes whether it is alive.
\<close>

definition redis_up :: "(history \<Rightarrow> int) \<Rightarrow> env \<Rightarrow> bool" where
  "redis_up clk E \<longleftrightarrow> (\<forall>h k v. redis_SET E h k v = None) \<and> (\<forall>h h'. extends h h' \<longrightarrow> clk h \<le> clk h') \<and>
     (\<forall>h k. (\<forall>v d ok. RedisSET k v d ok \<in> set h \<longrightarrow> ok \<and> 0 < sint d) \<longrightarrow>
        redis_EXISTS E h k = Inr (if key_live clk h k then 1 else 0))"

lemma redis_upD:
  assumes "redis_up clk E"
  shows "redis_SET E h k v = None" and "extends h h' \<Longrightarrow> clk h \<le> clk h'"
    and "marked_with t h k \<Longrightarrow> 0 < sint t \<Longrightarrow> redis_EXISTS E h k = Inr (if key_live clk h k then 1 else 0)"
  using assms unfolding redis_up_def marked_with_def by blast+

lemma last_SET_Some:
  "last_SET h k = Some (d, h0) \<Longrightarrow> (\<exists>v. RedisSET k v d True \<in> set h) \<and> extends h0 h"
  by (induction h k rule: last_SET.induct) (auto intro: extends_Cons split: if_splits)

lemma last_SET_later:
  assumes "last_SET h k = Some (d, h0)" "marked_with t (evs @ h) k"
  shows "\<exists>h1. last_SET (evs @ h) k = Some (t, h1) \<and> extends h0 h1"
  using assms(2)
proof (induction evs)
  case Nil
  then show ?case using assms(1) last_SET_Some [OF assms(1)] by (auto simp: marked_with_def)
next
  case (Cons e evs)
  have "marked_with t (evs @ h) k" using Cons.prems by (auto simp: marked_with_def)
  note ih = Cons.IH [OF this]
  have "extends h0 (evs @ h)"
    using last_SET_Some [OF assms(1)] extends_trans [of h0 h "evs @ h"] by (simp add: extends_def)
  moreover have "\<And>k' v d' ok. e = RedisSET k' v d' ok \<Longrightarrow> k' = k \<Longrightarrow> d' = t \<and> ok"
    using Cons.prems by (auto simp: marked_with_def)
  ultimately show ?case using ih by (cases e) auto
qed

text \<open>While the lifetime of a mark has not passed, Redis knows the key.\<close>

lemma key_live_later:
  assumes "redis_up clk E" "last_SET h k = Some (d, h0)" "extends h h'" "marked_with t h' k" "clk h' < clk h0 + sint t"
  shows "redis_EXISTS E h' k = Inr 1"
proof -
  obtain evs where h': "h' = evs @ h" using assms(3) by (auto simp: extends_def)
  with last_SET_later assms(2,4) obtain h1 where h1: "last_SET h' k = Some (t, h1)" "extends h0 h1" by blast
  have le: "clk h0 \<le> clk h1" "clk h1 \<le> clk h'"
    using redis_upD(2) [OF assms(1)] h1(2) last_SET_Some [OF h1(1)] by auto
  then have "key_live clk h' k" "0 < sint t" using h1(1) assms(5) by (auto simp: key_live_def)
  then show ?thesis using redis_upD(3) [OF assms(1,4)] by simp
qed

lemma dispatch_extends:
  assumes "dispatch E (NewConsumer s dd) d w = (r, w')"
  shows "extends (hist w) (hist w')"
proof -
  let ?c = "NewConsumer s dd"
  have c: "maxAttempts ?c = Suc 2" "cons_sender ?c = s" by (simp_all add: NewConsumer_def)
  have send: "extends (hist v) (hist v')" if "sendWithRetry E ?c (SendConfirmationEmail E s to url) v = (q, v')" for v v' q to url
    using sendWithRetry_trace [OF that c(1)] by (simp add: quiet_def)
  have rep: "extends (hist v) (hist v')" if "ReplyConfirmation E i st v = (q, v')" for v v' q i st
    using PublishWithContext_trace [OF that [unfolded ReplyConfirmation_def]] unfolding quiet_def by blast
  have rel: "extends (hist v) (hist v')" if "smtp_SendReleaseNotification E s to repo tag url v = (q, v')" for v v' q to repo tag url
    using SendMail_trace [OF that [unfolded smtp_SendReleaseNotification_def sendEmail_def]] unfolding quiet_def by blast
  show ?thesis
    using assms
    by (auto simp: dispatch_def dispatch_confirmation_def c(2) split: if_splits sum.splits prod.splits option.splits
        dest!: send rep rel elim: extends_trans)
qed

text \<open>A command that Redis did not know is marked when it is acknowledged.\<close>

lemma handle_marks:
  assumes "handle E (NewConsumer s (redisDeduper E t)) d w = (Inr x, w')" "redis_up clk E" "d_MessageId d \<noteq> []"
    "\<not> redis_seen E (hist w) (d_MessageId d)"
  shows "\<exists>h0. hist w' = RedisSET (dedupKey (d_MessageId d)) ''1'' t True # h0 \<and> extends (hist w) h0"
proof -
  let ?c = "NewConsumer s (redisDeduper E t)" and ?w1 = "logged (RedisEXISTS (dedupKey (d_MessageId d))) w"
  have c: "cons_dedup ?c = redisDeduper E t" by (simp add: NewConsumer_def)
  have "process E ?c d ?w1 = (Inr x, w')"
    using assms(1,3,4)
    unfolding handle_def c
    by (auto simp: redisDeduper_def redis_AlreadyProcessed_def redis_seen_def Let_def split: sum.splits)
  then obtain y w2 where d: "dispatch E ?c d ?w1 = (Inr y, w2)" and w': "w' = snd (redis_MarkProcessed E t (d_MessageId d) w2)"
    using assms(3) unfolding process_def c by (auto simp: redisDeduper_def split: sum.splits prod.splits)
  have "extends (hist w) (hist w2)"
    using dispatch_extends [OF d] extends_trans [OF extends_Cons [OF extends_refl]] by simp
  then show ?thesis using w' redis_upD(1) [OF assms(2)] by (simp add: redis_MarkProcessed_def)
qed

text \<open>A command that Redis knows is acknowledged without a mail, whoever delivers its id.\<close>

lemma handle_seen:
  assumes "redis_EXISTS E (hist w) (dedupKey (d_MessageId d)) = Inr 1" "d_MessageId d \<noteq> []"
  shows "handle E (NewConsumer s (redisDeduper E t)) d w =
     (Inr (), replyAlreadySent E d (logged (RedisEXISTS (dedupKey (d_MessageId d))) w))"
  using assms by (simp add: handle_def NewConsumer_def redisDeduper_def redis_AlreadyProcessed_def Let_def)

section \<open>The gRPC server\<close>

lemma redis_dedup_quiet:
  "AlreadyProcessed (redisDeduper E t) i w = (ra, w') \<Longrightarrow> quiet w w'"
  "quiet w (snd (MarkProcessed (redisDeduper E t) i w))"
  using redis_dedup.already redis_dedup.mark by (fastforce, metis prod.collapse)

lemma SendConfirmationEmail_trace:
  assumes "SendConfirmationEmail E s to url w = (r, w')"
  shows "quiet w w' \<and> w' = logged (SmtpSendMail (confirmation_mail s to url) (r = Inr ())) w \<and>
     (r = Inr () \<or> (\<exists>e. r = Inl e \<and> infra e))"
  using SendMail_trace [OF assms [unfolded SendConfirmationEmail_def sendEmail_def]] .

text \<open>
  The server answers OK only for a mail that was accepted or an id Redis knows; it uses
  the message id of the broker path.
\<close>

lemma server_SendConfirmation_trace:
  assumes "server_SendConfirmation E s (redisDeduper E t) email repo url w = (r, w')"
  shows "quiet w w' \<and> (case r of
      Inr _ \<Rightarrow> SmtpSendMail (confirmation_mail s email url) True \<in> set (hist w') \<or>
        redis_seen E (hist w) (''confirm:'' @ path_Base url)
    | Inl e \<Rightarrow> infra e)"
proof (cases "email = [] \<or> repo = [] \<or> url = []")
  case True
  then show ?thesis using assms by (auto simp: server_SendConfirmation_def grpc_status_def)
next
  case False
  let ?i = "''confirm:'' @ path_Base url" and ?dd = "redisDeduper E t"
  obtain a w1 where al: "AlreadyProcessed ?dd ?i w = (a, w1)" by (cases "AlreadyProcessed ?dd ?i w")
  note a1 = redis_dedup.already [OF al]
  obtain q w2 where sm: "SendConfirmationEmail E s email url w1 = (q, w2)"
    by (cases "SendConfirmationEmail E s email url w1")
  note s2 = SendConfirmationEmail_trace [OF sm]
  obtain m w3 where mk: "MarkProcessed ?dd ?i w2 = (m, w3)" by (cases "MarkProcessed ?dd ?i w2")
  note m3 = redis_dedup.mark [OF mk]
  show ?thesis
  proof (cases "a = Inr True")
    case True
    then show ?thesis using assms False al a1 by (auto simp: server_SendConfirmation_def Let_def)
  next
    case fresh: False
    show ?thesis
    proof (cases q)
      case (Inl e)
      then have "w' = w2" "r = Inl (grpc_status ''Unavailable'' (''sending confirmation email: '' @ Error e))"
        using assms False al fresh sm
        by (auto simp: server_SendConfirmation_def Let_def split: sum.splits bool.splits)
      then show ?thesis using a1 s2 quiet_trans by (auto simp: grpc_status_def)
    next
      case (Inr x)
      then have "w' = w3" "r = Inr ()"
        using assms False al fresh sm mk
        by (auto simp: server_SendConfirmation_def Let_def split: sum.splits bool.splits)
      moreover have "SmtpSendMail (confirmation_mail s email url) True \<in> set (hist w2)" using s2 Inr by simp
      moreover have "set (hist w2) \<subseteq> set (hist w3)" using m3 extends_set by (simp add: quiet_def)
      moreover have "quiet w w3" using a1 s2 m3 quiet_trans by blast
      ultimately show ?thesis by auto
    qed
  qed
qed

text \<open>The sender the monolith is wired with in gRPC mode.\<close>

definition grpc_sender :: "env \<Rightarrow> SMTPSender \<Rightarrow> duration \<Rightarrow> string \<Rightarrow> string \<Rightarrow> string \<Rightarrow> (world, unit) act" where
  "grpc_sender E s t = grpc_SendConfirmation E (server_SendConfirmation E s (redisDeduper E t))"

lemma grpc_sender_trace:
  assumes "grpc_sender E s t email repo url w = (r, w')"
  shows "quiet w w' \<and> (case r of
      Inr _ \<Rightarrow> SmtpSendMail (confirmation_mail s email url) True \<in> set (hist w') \<or>
        redis_seen E (GrpcInvoke True # hist w) (''confirm:'' @ path_Base url)
    | Inl e \<Rightarrow> infra e)"
proof -
  let ?w0 = "logged (GrpcInvoke True) w"
  obtain q w1 where sv: "server_SendConfirmation E s (redisDeduper E t) email repo url ?w0 = (q, w1)"
    by (cases "server_SendConfirmation E s (redisDeduper E t) email repo url ?w0")
  note t = server_SendConfirmation_trace [OF sv]
  have q: "quiet w w1" using t quiet_trans [OF quiet_logged [of w "GrpcInvoke True"]] by blast
  show ?thesis
    using assms sv t q
    by (cases q) (auto simp: grpc_sender_def grpc_SendConfirmation_def split: rpc_fate.splits)
qed

text \<open>
  The id the gRPC server derives from a confirmation link is the id of the broker command.
\<close>

lemma transports_same_id:
  assumes "token \<noteq> []" "CHR ''/'' \<notin> set token"
  shows "''confirm:'' @ path_Base (base @ ''/api/confirm/'' @ token) = ''confirm:'' @ token"
  using path_Base_segment [OF assms, of "base @ ''/api/confirm''"] by simp

end
