(* ===== verification/Subscription_Service.thy ===== *)
theory Subscription_Service
  imports Email_Pattern Repo_Spec Orchestrator Tracking_Store Github_Gateway Notifier
begin

text \<open>
  The subscription service (\<open>internal/subscription/service.go\<close>): the use cases behind the HTTP
  API. The service is written against four interfaces (store, tracker, GitHub client, saga
  starter); it is a function of their operations, its contract is proved in the locale
  \<open>service_backend\<close>, and the wiring of \<open>main.go\<close> for both transports is shown to provide it.
\<close>

section \<open>Operations\<close>

record Service =
  svc_GetSubscriptionByToken :: "string \<Rightarrow> (world, Subscription option) act"
  svc_GetSubscriptionByEmailAndRepo :: "string \<Rightarrow> string \<Rightarrow> (world, Subscription option) act"
  svc_ConfirmSubscription :: "string \<Rightarrow> (world, unit) act"
  svc_DeleteSubscription :: "string \<Rightarrow> (world, unit) act"
  svc_GetSubscriptionsByEmail :: "string \<Rightarrow> (world, Subscription list) act"
  svc_GetActiveRepos :: "(world, string list) act"
  svc_GetSubscribersByRepo :: "string \<Rightarrow> (world, Subscription list) act"
  svc_RegisterRepo :: "string \<Rightarrow> (world, unit) act"
  svc_CheckRepoExists :: "string \<Rightarrow> string \<Rightarrow> (world, bool) act"
  svc_StartConfirmation :: "string \<Rightarrow> string \<Rightarrow> string \<Rightarrow> string \<Rightarrow> (world, unit) act"
  svc_ReactivateConfirmation :: "nat \<Rightarrow> string \<Rightarrow> string \<Rightarrow> string \<Rightarrow> string \<Rightarrow> (world, unit) act"
  svc_baseURL :: string

definition confirm_url :: "string \<Rightarrow> string \<Rightarrow> string" where
  "confirm_url base token = base @ ''/api/confirm/'' @ token"

text \<open>Steps 4 and 5 of \<open>Subscribe\<close>, once the repository is known to exist.\<close>

definition subscribe_known :: "env \<Rightarrow> Service \<Rightarrow> string \<Rightarrow> string \<Rightarrow> (world, unit) act" where
  "subscribe_known E s email repoStr w =
     (case svc_GetSubscriptionByEmailAndRepo s email repoStr w of
        (Inl e, w1) \<Rightarrow> (Inl (Errorf ''database error'' e), w1)
      | (Inr existing, w1) \<Rightarrow>
          (case new_uuid E w1 of (token, w2) \<Rightarrow>
            (let confirmURL = confirm_url (svc_baseURL s) token in
             case existing of
               Some sub \<Rightarrow>
                 (if sub_Status sub \<noteq> StatusFailed then (Inl (Domain ErrAlreadySubscribed), w2)
                  else (case svc_ReactivateConfirmation s (sub_ID sub) email repoStr token confirmURL w2 of
                          (Inl e, w3) \<Rightarrow> (Inl (Errorf ''failed to reactivate subscription saga'' e), w3)
                        | (Inr _, w3) \<Rightarrow> (Inr (), w3)))
             | None \<Rightarrow>
                 (case svc_StartConfirmation s email repoStr token confirmURL w2 of
                    (Inl e, w3) \<Rightarrow> (Inl (Errorf ''failed to start subscription saga'' e), w3)
                  | (Inr _, w3) \<Rightarrow> (Inr (), w3)))))"

definition Subscribe :: "env \<Rightarrow> Service \<Rightarrow> string \<Rightarrow> string \<Rightarrow> (world, unit) act" where
  "Subscribe E s email repoStr w =
     (if \<not> ValidateEmail email then (Inl (Domain ErrInvalidEmail), w)
      else (case ParseRepoSpec repoStr of
              Inl err \<Rightarrow> (Inl (Errorf2 (Domain ErrInvalidRepoFormat) err), w)
            | Inr spec \<Rightarrow>
                (case svc_CheckRepoExists s (Owner spec) (Name spec) w of
                   (Inl e, w1) \<Rightarrow> (Inl (Errorf ''failed to check repository'' e), w1)
                 | (Inr exists, w1) \<Rightarrow>
                     (if \<not> exists then (Inl (Domain ErrRepoNotFound), w1)
                      else subscribe_known E s email repoStr w1))))"

definition Confirm :: "Service \<Rightarrow> string \<Rightarrow> (world, unit) act" where
  "Confirm s token w =
     (case svc_GetSubscriptionByToken s token w of
        (Inl e, w1) \<Rightarrow> (Inl (Errorf ''database error'' e), w1)
      | (Inr None, w1) \<Rightarrow> (Inl (Domain ErrTokenNotFound), w1)
      | (Inr (Some sub), w1) \<Rightarrow>
          (case (if \<not> sub_Confirmed sub then svc_ConfirmSubscription s token w1 else (Inr (), w1)) of
             (Inl e, w2) \<Rightarrow> (Inl (Errorf ''failed to confirm subscription'' e), w2)
           | (Inr _, w2) \<Rightarrow>
               (case svc_RegisterRepo s (sub_Repo sub) w2 of
                  (Inl e, w3) \<Rightarrow> (Inl (Errorf ''failed to track repository'' e), w3)
                | (Inr _, w3) \<Rightarrow> (Inr (), w3))))"

definition Unsubscribe :: "Service \<Rightarrow> string \<Rightarrow> (world, unit) act" where
  "Unsubscribe s token w =
     (case svc_GetSubscriptionByToken s token w of
        (Inl e, w1) \<Rightarrow> (Inl (Errorf ''database error'' e), w1)
      | (Inr None, w1) \<Rightarrow> (Inl (Domain ErrTokenNotFound), w1)
      | (Inr (Some sub), w1) \<Rightarrow> svc_DeleteSubscription s token w1)"

definition GetSubscriptions :: "Service \<Rightarrow> string \<Rightarrow> (world, Subscription list) act" where
  "GetSubscriptions s email w =
     (if \<not> ValidateEmail email then (Inl (Domain ErrInvalidEmail), w)
      else svc_GetSubscriptionsByEmail s email w)"

definition ActiveRepos :: "Service \<Rightarrow> (world, string list) act" where
  "ActiveRepos s = svc_GetActiveRepos s"

definition SubscribersForRepo :: "Service \<Rightarrow> string \<Rightarrow> (world, Subscriber list) act" where
  "SubscribersForRepo s repo w =
     (case svc_GetSubscribersByRepo s repo w of
        (Inl e, w1) \<Rightarrow> (Inl e, w1)
      | (Inr subs, w1) \<Rightarrow>
          (Inr (map (\<lambda>sub. \<lparr>subscriber_ID = sub_ID sub, subscriber_Email = sub_Email sub,
                           subscriber_Token = sub_Token sub\<rparr>) subs), w1))"

section \<open>The service against its interfaces\<close>

definition confirm_row :: "Subscription \<Rightarrow> Subscription" where
  "confirm_row s = s\<lparr>sub_Confirmed := True, sub_Status := StatusConfirmed\<rparr>"

text \<open>The row a successful subscription leaves behind.\<close>

definition subscribed :: "string \<Rightarrow> string \<Rightarrow> string \<Rightarrow> db \<Rightarrow> bool" where
  "subscribed email repo token d \<longleftrightarrow>
     (\<exists>s\<in>set (subscriptions d). email_repo s = (email, repo) \<and> sub_Token s = token \<and> \<not> sub_Confirmed s)"

locale service_backend =
  fixes svc :: Service
  assumes by_pair: "svc_GetSubscriptionByEmailAndRepo svc email repo w = (rp, wp) \<Longrightarrow>
      db wp = db w \<and>
      (case rp of Inr x \<Rightarrow> x = lookup_by email_repo (email, repo) (subscriptions (db w)) | Inl e \<Rightarrow> infra e)"
    and by_token: "svc_GetSubscriptionByToken svc token w = (rt, wt) \<Longrightarrow>
      db wt = db w \<and>
      (case rt of Inr x \<Rightarrow> x = lookup_by sub_Token token (subscriptions (db w)) | Inl e \<Rightarrow> infra e)"
    and confirm: "svc_ConfirmSubscription svc token w = (rc, wc) \<Longrightarrow>
      grows (db w) (db wc) \<and> sagas (db wc) = sagas (db w) \<and> outbox (db wc) = outbox (db w) \<and>
      repositories (db wc) = repositories (db w) \<and>
      (case rc of Inr _ \<Rightarrow> subscriptions (db wc) =
           upd_rows (\<lambda>s. sub_Token s = token) confirm_row (subscriptions (db w)) | Inl e \<Rightarrow> infra e)"
    and delete: "svc_DeleteSubscription svc token w = (rd, wd) \<Longrightarrow>
      grows (db w) (db wd) \<and> sagas (db wd) = sagas (db w) \<and> outbox (db wd) = outbox (db w) \<and>
      repositories (db wd) = repositories (db w) \<and>
      (case rd of Inr _ \<Rightarrow> subscriptions (db wd) =
           del_rows (\<lambda>s. sub_Token s = token) (subscriptions (db w)) | Inl e \<Rightarrow> infra e)"
    and register: "svc_RegisterRepo svc repo w = (rr, wr) \<Longrightarrow>
      grows (db w) (db wr) \<and> subscriptions (db wr) = subscriptions (db w) \<and>
      sagas (db wr) = sagas (db w) \<and> outbox (db wr) = outbox (db w) \<and>
      (case rr of Inr _ \<Rightarrow> seen_tag repo (db wr) =
            (case seen_tag repo (db w) of None \<Rightarrow> Some [] | Some t \<Rightarrow> Some t) | Inl e \<Rightarrow> infra e)"
    and github: "svc_CheckRepoExists svc owner name w = (rg, wg) \<Longrightarrow>
      db wg = db w \<and> (\<forall>e. rg = Inl e \<longrightarrow> infra e)"
    and start: "svc_StartConfirmation svc email repo token url w = (rs, ws) \<Longrightarrow>
      grows (db w) (db ws) \<and>
      (case rs of Inr _ \<Rightarrow> subscribed email repo token (db ws) | Inl e \<Rightarrow> infra e)"
    and reactivate: "svc_ReactivateConfirmation svc sid email repo token url w = (ra, wa) \<Longrightarrow> sid \<noteq> 0 \<Longrightarrow>
      grows (db w) (db wa) \<and>
      (case ra of Inr _ \<Rightarrow> \<exists>s\<in>set (subscriptions (db w)). sub_ID s = sid \<and> sub_Status s = StatusFailed \<and>
           subscribed (sub_Email s) (sub_Repo s) token (db wa) | Inl e \<Rightarrow> infra e)"
begin

text \<open>Reviving the row that was looked up revives this row: its id is unique.\<close>

lemma reactivate_known:
  assumes run: "svc_ReactivateConfirmation svc (sub_ID s) email repo token url w = (q, w')"
    and ok: "db_ok (db w)" and s: "s \<in> set (subscriptions (db w))" "email_repo s = (email, repo)"
  shows "grows (db w) (db w') \<and> (case q of Inr _ \<Rightarrow> subscribed email repo token (db w') | Inl e \<Rightarrow> infra e)"
proof -
  have ids: "distinct (map sub_ID (subscriptions (db w)))" "sub_ID s \<noteq> 0"
    using ok s(1) by (auto simp: db_ok_def subs_ok_def)
  note re = reactivate [OF run ids(2)]
  have "subscribed email repo token (db w')" if "q = Inr x" for x
  proof -
    from re that obtain s' where s': "s' \<in> set (subscriptions (db w))" "sub_ID s' = sub_ID s"
      "subscribed (sub_Email s') (sub_Repo s') token (db w')" by auto
    then have "s' = s" using ids(1) s(1) by (auto simp: distinct_map inj_on_def)
    then show ?thesis using s'(3) s(2) by simp
  qed
  then show ?thesis using re by (cases q) auto
qed

lemma subscribe_known_spec:
  assumes "subscribe_known E svc email repo w = (r, w')" "db_ok (db w)"
  shows "grows (db w) (db w') \<and>
     (case r of
        Inr _ \<Rightarrow> \<exists>token. subscribed email repo token (db w')
      | Inl e \<Rightarrow> infra e \<or> (e = Domain ErrAlreadySubscribed \<and> db w' = db w \<and>
          (\<exists>s\<in>set (subscriptions (db w)). email_repo s = (email, repo) \<and> sub_Status s \<noteq> StatusFailed)))"
proof -
  obtain g w1 where look: "svc_GetSubscriptionByEmailAndRepo svc email repo w = (g, w1)"
    by (cases "svc_GetSubscriptionByEmailAndRepo svc email repo w")
  note l = by_pair [OF look]
  let ?token = "uuid_NewString E (hist w1)" and ?w2 = "logged (UuidNew (uuid_NewString E (hist w1))) w1"
  have d2: "db ?w2 = db w" using l by simp
  consider (err) e where "g = Inl e" | (new) "g = Inr None" | (old) s where "g = Inr (Some s)"
    by (metis not_Some_eq sum.exhaust)
  then show ?thesis
  proof cases
    case err
    then show ?thesis using assms(1) look l by (auto simp: subscribe_known_def)
  next
    case new
    obtain q w3 where st: "svc_StartConfirmation svc email repo ?token (confirm_url (svc_baseURL svc) ?token) ?w2 = (q, w3)"
      by (cases "svc_StartConfirmation svc email repo ?token (confirm_url (svc_baseURL svc) ?token) ?w2")
    show ?thesis
      using assms(1) look new st start [OF st] d2
      by (auto simp: subscribe_known_def new_uuid_def Let_def split: sum.splits)
  next
    case (old s)
    have s: "s \<in> set (subscriptions (db w))" "email_repo s = (email, repo)"
      using l old lookup_by_SomeD [of email_repo "(email, repo)" "subscriptions (db w)" s] by auto
    show ?thesis
    proof (cases "sub_Status s = StatusFailed")
      case False
      then have "r = Inl (Domain ErrAlreadySubscribed)" "w' = ?w2"
        using assms(1) look old by (auto simp: subscribe_known_def new_uuid_def Let_def)
      then show ?thesis using False s d2 by auto
    next
      case True
      obtain q w3 where ra: "svc_ReactivateConfirmation svc (sub_ID s) email repo ?token
          (confirm_url (svc_baseURL svc) ?token) ?w2 = (q, w3)"
        by (cases "svc_ReactivateConfirmation svc (sub_ID s) email repo ?token
          (confirm_url (svc_baseURL svc) ?token) ?w2")
      have run: "r = (case q of Inl e \<Rightarrow> Inl (Errorf ''failed to reactivate subscription saga'' e) | Inr _ \<Rightarrow> Inr ())" "w' = w3"
        using assms(1) look old True ra
        by (auto simp: subscribe_known_def new_uuid_def Let_def split: sum.splits)
      show ?thesis using run reactivate_known [OF ra] assms(2) s d2 by (auto split: sum.splits)
    qed
  qed
qed

text \<open>
  The contract of \<open>Subscribe\<close>. Success leaves an unconfirmed row for the address and the
  repository; each kind of domain error means what it says and leaves the database alone.
\<close>

lemma Subscribe_spec:
  assumes "Subscribe E svc email repo w = (r, w')" "db_ok (db w)"
  shows "grows (db w) (db w') \<and>
     (case r of
        Inr _ \<Rightarrow> ValidateEmail email \<and> (\<exists>spec. ParseRepoSpec repo = Inr spec) \<and>
          (\<exists>token. subscribed email repo token (db w'))
      | Inl e \<Rightarrow>
          (case KindOf e of
             KindInvalid \<Rightarrow> w' = w \<and> (\<not> ValidateEmail email \<or> (\<exists>err. ParseRepoSpec repo = Inl err))
           | KindNotFound \<Rightarrow> db w' = db w \<and> (\<exists>spec v v'. ParseRepoSpec repo = Inr spec \<and>
               svc_CheckRepoExists svc (Owner spec) (Name spec) v = (Inr False, v'))
           | KindConflict \<Rightarrow> db w' = db w \<and>
               (\<exists>s\<in>set (subscriptions (db w)). email_repo s = (email, repo) \<and> sub_Status s \<noteq> StatusFailed)
           | KindInternal \<Rightarrow> infra e))"
proof (cases "ValidateEmail email")
  case False
  then show ?thesis using assms(1) by (auto simp: Subscribe_def sentinel_defs)
next
  case valid: True
  show ?thesis
  proof (cases "ParseRepoSpec repo")
    case (Inl err)
    then show ?thesis using assms(1) valid by (auto simp: Subscribe_def KindOf_Errorf2 sentinel_defs)
  next
    case (Inr spec)
    obtain g w1 where gh: "svc_CheckRepoExists svc (Owner spec) (Name spec) w = (g, w1)"
      by (cases "svc_CheckRepoExists svc (Owner spec) (Name spec) w")
    note g1 = github [OF gh]
    consider (err) e where "g = Inl e" | (no) "g = Inr False" | (yes) "g = Inr True"
      by (metis (full_types) sum.exhaust)
    then show ?thesis
    proof cases
      case err
      then have "r = Inl (Errorf ''failed to check repository'' e)" "w' = w1" "infra e"
        using assms(1) valid Inr gh g1 by (auto simp: Subscribe_def)
      then show ?thesis using g1 by (simp add: KindOf_infra)
    next
      case no
      then have "r = Inl (Domain ErrRepoNotFound)" "w' = w1"
        using assms(1) valid Inr gh by (auto simp: Subscribe_def)
      then show ?thesis using g1 gh no Inr by (auto simp: sentinel_defs)
    next
      case yes
      then have "subscribe_known E svc email repo w1 = (r, w')"
        using assms(1) valid Inr gh by (simp add: Subscribe_def)
      from subscribe_known_spec [OF this] g1 assms(2) show ?thesis
        using valid Inr by (cases r) (auto simp: KindOf_infra sentinel_defs)
    qed
  qed
qed

text \<open>
  The contract of \<open>Confirm\<close>: not found exactly when no row carries the token; on success the
  row is confirmed and its repository tracked, and no other subscription changed.
\<close>

lemma Confirm_spec:
  assumes "Confirm svc token w = (r, w')"
  shows "grows (db w) (db w') \<and>
     (case r of
        Inr _ \<Rightarrow> (\<exists>s. lookup_by sub_Token token (subscriptions (db w)) = Some s \<and>
            subscriptions (db w') = (if sub_Confirmed s then subscriptions (db w)
              else upd_rows (\<lambda>s. sub_Token s = token) confirm_row (subscriptions (db w))) \<and>
            seen_tag (sub_Repo s) (db w') = (case seen_tag (sub_Repo s) (db w) of None \<Rightarrow> Some [] | Some t \<Rightarrow> Some t))
      | Inl e \<Rightarrow> infra e \<or> (e = Domain ErrTokenNotFound \<and> db w' = db w \<and>
            lookup_by sub_Token token (subscriptions (db w)) = None))"
proof -
  obtain g w1 where look: "svc_GetSubscriptionByToken svc token w = (g, w1)"
    by (cases "svc_GetSubscriptionByToken svc token w")
  note l = by_token [OF look]
  consider (err) e where "g = Inl e" | (none) "g = Inr None" | (some) s where "g = Inr (Some s)"
    by (metis not_Some_eq sum.exhaust)
  then show ?thesis
  proof cases
    case err
    then show ?thesis using assms look l by (auto simp: Confirm_def)
  next
    case none
    then show ?thesis using assms look l by (auto simp: Confirm_def)
  next
    case (some s)
    let ?c = "if \<not> sub_Confirmed s then svc_ConfirmSubscription svc token w1 else (Inr (), w1)"
    obtain c w2 where c: "?c = (c, w2)" by (cases ?c)
    have c2: "grows (db w) (db w2) \<and> repositories (db w2) = repositories (db w) \<and>
       (case c of Inr _ \<Rightarrow> subscriptions (db w2) = (if sub_Confirmed s then subscriptions (db w)
            else upd_rows (\<lambda>s. sub_Token s = token) confirm_row (subscriptions (db w))) | Inl e \<Rightarrow> infra e)"
      using c l confirm [of token w1 c w2] by (cases c) (auto split: if_splits)
    obtain q w3 where reg: "svc_RegisterRepo svc (sub_Repo s) w2 = (q, w3)"
      by (cases "svc_RegisterRepo svc (sub_Repo s) w2")
    have run: "Confirm svc token w = (case c of Inl e \<Rightarrow> (Inl (Errorf ''failed to confirm subscription'' e), w2)
        | Inr _ \<Rightarrow> (case q of Inl e \<Rightarrow> (Inl (Errorf ''failed to track repository'' e), w3) | Inr _ \<Rightarrow> (Inr (), w3)))"
      using look some c reg by (simp add: Confirm_def split: sum.splits)
    have sg: "seen_tag repo (db w2) = seen_tag repo (db w)" for repo using c2 by (simp add: seen_tag_def)
    have lk: "lookup_by sub_Token token (subscriptions (db w)) = Some s" using l some by simp
    show ?thesis
    proof (cases c)
      case (Inl e)
      then show ?thesis using run assms c2 by auto
    next
      case (Inr x)
      have g3: "grows (db w) (db w3)" using c2 register [OF reg] grows_trans by blast
      show ?thesis
      proof (cases q)
        case q: (Inl e)
        then show ?thesis using run assms Inr register [OF reg] g3 by auto
      next
        case q: (Inr y)
        then have "r = Inr ()" "w' = w3" using run assms Inr by auto
        then show ?thesis using c2 register [OF reg] g3 lk Inr q sg by simp
      qed
    qed
  qed
qed

lemma Unsubscribe_spec:
  assumes "Unsubscribe svc token w = (r, w')"
  shows "grows (db w) (db w') \<and>
     (case r of
        Inr _ \<Rightarrow> token \<in> sub_Token ` set (subscriptions (db w)) \<and>
          subscriptions (db w') = del_rows (\<lambda>s. sub_Token s = token) (subscriptions (db w)) \<and>
          sagas (db w') = sagas (db w) \<and> outbox (db w') = outbox (db w) \<and>
          repositories (db w') = repositories (db w)
      | Inl e \<Rightarrow> infra e \<or> (e = Domain ErrTokenNotFound \<and> db w' = db w \<and>
          token \<notin> sub_Token ` set (subscriptions (db w))))"
proof -
  obtain g w1 where look: "svc_GetSubscriptionByToken svc token w = (g, w1)"
    by (cases "svc_GetSubscriptionByToken svc token w")
  note l = by_token [OF look]
  consider (err) e where "g = Inl e" | (none) "g = Inr None" | (some) s where "g = Inr (Some s)"
    by (metis not_Some_eq sum.exhaust)
  then show ?thesis
  proof cases
    case err
    then show ?thesis using assms look l by (auto simp: Unsubscribe_def)
  next
    case none
    then have "lookup_by sub_Token token (subscriptions (db w)) = None" using l by simp
    then show ?thesis using assms look none l by (auto simp: Unsubscribe_def lookup_by_None_iff)
  next
    case (some s)
    then have "token \<in> sub_Token ` set (subscriptions (db w))"
      using l lookup_by_SomeD [of sub_Token token "subscriptions (db w)" s] by auto
    moreover have del: "svc_DeleteSubscription svc token w1 = (r, w')"
      using assms look some by (simp add: Unsubscribe_def)
    ultimately show ?thesis using delete [OF del] l by (cases r) simp_all
  qed
qed

end

end
