(* ===== verification/Monolith.thy ===== *)
theory Monolith
  imports Subscription_Service
begin

text \<open>
  The wiring of \<open>main.go\<close>: which confirmation transport the orchestrator gets, whether the
  GitHub client is cached, and the subscription service built from the stores. The
  interfaces of the orchestrator (\<open>sync_sender\<close>) and of the service (\<open>service_backend\<close>) are
  interpreted on these components.
\<close>

section \<open>Wiring\<close>

text \<open>The notifier behind the gRPC transport: its SMTP settings and the dedup lifetime.\<close>

record notifier_addr =
  na_smtp :: SMTPSender
  na_ttl :: duration

definition select_transport :: "env \<Rightarrow> notifier_addr \<Rightarrow> string \<Rightarrow> gerr + confirmation_sender option" where
  "select_transport E na mode =
     (if mode = ''grpc'' then Inr (Some (grpc_sender E (na_smtp na) (na_ttl na)))
      else if mode = ''broker'' then Inr None
      else Inl (ErrorString (''unknown CONFIRMATION_TRANSPORT '' @ Quote mode @ '' (want broker or grpc)'')))"

text \<open>The two senders \<open>select_transport\<close> can pick.\<close>

definition sender_of :: "env \<Rightarrow> notifier_addr option \<Rightarrow> confirmation_sender option" where
  "sender_of E tr = map_option (\<lambda>na. grpc_sender E (na_smtp na) (na_ttl na)) tr"

lemma select_transport_sender:
  "select_transport E na mode = Inr se \<Longrightarrow>
     se = sender_of E (if mode = ''grpc'' then Some na else None) \<and> (mode = ''grpc'' \<or> mode = ''broker'')"
  by (auto simp: select_transport_def sender_of_def split: if_splits)

definition github_CheckRepoExists ::
  "env \<Rightarrow> Client \<Rightarrow> Cache option \<Rightarrow> string \<Rightarrow> string \<Rightarrow> (world, bool) act" where
  "github_CheckRepoExists E c ca =
     (case ca of Some cache \<Rightarrow> Cached_CheckRepoExists (main_gateway E c cache)
      | None \<Rightarrow> Client_CheckRepoExists E c)"

definition github_GetLatestRelease ::
  "env \<Rightarrow> Client \<Rightarrow> Cache option \<Rightarrow> string \<Rightarrow> string \<Rightarrow> (world, string) act" where
  "github_GetLatestRelease E c ca =
     (case ca of Some cache \<Rightarrow> Cached_GetLatestRelease (main_gateway E c cache)
      | None \<Rightarrow> Client_GetLatestRelease E c)"

definition main_service ::
  "env \<Rightarrow> notifier_addr option \<Rightarrow> Client \<Rightarrow> Cache option \<Rightarrow> string \<Rightarrow> Service" where
  "main_service E tr c ca base =
     \<lparr>svc_GetSubscriptionByToken = GetSubscriptionByToken E,
      svc_GetSubscriptionByEmailAndRepo = GetSubscriptionByEmailAndRepo E,
      svc_ConfirmSubscription = ConfirmSubscription E,
      svc_DeleteSubscription = DeleteSubscription E,
      svc_GetSubscriptionsByEmail = GetSubscriptionsByEmail E,
      svc_GetActiveRepos = GetActiveRepos E,
      svc_GetSubscribersByRepo = GetSubscribersByRepo E,
      svc_RegisterRepo = RegisterRepo E,
      svc_CheckRepoExists = github_CheckRepoExists E c ca,
      svc_StartConfirmation = StartConfirmation E (sender_of E tr),
      svc_ReactivateConfirmation = ReactivateConfirmation E (sender_of E tr),
      svc_baseURL = base\<rparr>"

interpretation grpc: sync_sender "grpc_sender E s t" for E s t
  by unfold_locales (drule grpc_sender_trace, simp add: quiet_def)

section \<open>The saga starter of the service\<close>

lemma saga_CreateInTx_subs:
  assumes "saga_CreateInTx E ext sg w = (r, w')"
  shows "subscriptions (db w') = subscriptions (db w)"
proof -
  obtain q where run: "run_stmt E ext ''INSERT INTO saga'' (insert_saga E sg) w = (q, w')"
    using assms by (auto simp: saga_CreateInTx_def split: prod.splits sum.splits)
  show ?thesis
    by (rule run_stmt_keeps [OF run, where P = "\<lambda>d. subscriptions d = subscriptions (db w)"])
      (auto simp: insert_saga_def split: option.splits)
qed

lemma Enqueue_subs:
  assumes "Enqueue E ext sid rk mid p w = (r, w')"
  shows "subscriptions (db w') = subscriptions (db w)"
proof -
  obtain q where run: "run_stmt E ext ''INSERT INTO outbox''
      (insert_outbox E (if sid \<noteq> [] then Some sid else None) rk mid p) w = (q, w')"
    using assms by (auto simp: Enqueue_def Let_def split: prod.splits sum.splits)
  show ?thesis
    by (rule run_stmt_keeps [OF run, where P = "\<lambda>d. subscriptions d = subscriptions (db w)"])
      (auto simp: insert_outbox_def Let_def split: option.splits sum.splits)
qed

lemma enqueueConfirmation_subs:
  "enqueueConfirmation E tx n email repo token url w = (Inr x, w') \<Longrightarrow>
     subscriptions (db w') = subscriptions (db w)"
  unfolding enqueueConfirmation_def Let_def new_uuid_def
  by (auto split: prod.splits sum.splits dest!: saga_CreateInTx_subs Enqueue_subs)

lemma subscribed_new:
  "subscriptions d' = rows @ [new_sub n email repo token t] \<Longrightarrow> subscribed email repo token d'"
  by (simp add: subscribed_def new_sub_def)

lemma subscribed_reactivated:
  assumes "subscriptions d' = upd_rows (\<lambda>s. sub_ID s = n \<and> sub_Status s = StatusFailed) (reactivate_row token) rows"
    "s \<in> set rows" "sub_ID s = n" "sub_Status s = StatusFailed"
  shows "subscribed (sub_Email s) (sub_Repo s) token d'"
proof -
  have "reactivate_row token s \<in> set (subscriptions d')" using assms by (auto simp: set_upd_rows)
  then show ?thesis by (auto simp: subscribed_def reactivate_row_def intro!: bexI [of _ "reactivate_row token s"])
qed

lemma subscribed_fail_rows:
  assumes "subscribed email repo token d" "subscriptions d' = fail_rows n (subscriptions d)"
  shows "subscribed email repo token d'"
proof -
  obtain s where s: "s \<in> set (subscriptions d)" "email_repo s = (email, repo)" "sub_Token s = token"
    "\<not> sub_Confirmed s" using assms(1) by (auto simp: subscribed_def)
  let ?s = "if sub_ID s = n then s\<lparr>sub_Status := StatusFailed\<rparr> else s"
  have "?s \<in> set (subscriptions d')" using s(1) assms(2) by (auto simp: fail_rows_def set_upd_rows)
  then show ?thesis using s(2-4) unfolding subscribed_def by (intro bexI [of _ ?s]) auto
qed

lemma subscribed_cong:
  "subscribed email repo token d \<Longrightarrow> subscriptions d' = subscriptions d \<Longrightarrow> subscribed email repo token d'"
  by (simp add: subscribed_def)

lemma StartConfirmation_broker_spec:
  assumes "StartConfirmation E None email repo token url w = (r, w')"
  shows "case r of Inr _ \<Rightarrow> subscribed email repo token (db w') | Inl e \<Rightarrow> infra e"
  using assms unfolding StartConfirmation_def option.case
proof (cases rule: saga_txE)
  case (undone e d)
  from undone(4) have "infra e"
    by (elim disjE exE) (auto split: prod.splits sum.splits
        dest: subscription_CreateInTx_infra enqueueConfirmation_infra)
  then show ?thesis using undone(1) by simp
next
  case (committed tx w1 x w2)
  then obtain n w3 where create: "subscription_CreateInTx E (OnTx tx) email repo token w1 = (Inr n, w3)"
    and enq: "enqueueConfirmation E tx n email repo token url w3 = (Inr x, w2)"
    by (auto split: prod.splits sum.splits)
  from insert_subscription_Inr [of email repo token "stmt_now E (OnTx tx) w1" "db w1" n "db w3"]
  have "subscriptions (db w3) = subscriptions (db w1) @ [new_sub n email repo token (stmt_now E (OnTx tx) w1)]"
    using run_stmt_Inr [OF create [unfolded subscription_CreateInTx_def]] by simp
  then have "subscribed email repo token (db w')"
    using enqueueConfirmation_subs [OF enq] committed(4) subscribed_new by simp
  then show ?thesis using committed(5) by auto
qed

lemma ReactivateConfirmation_broker_spec:
  assumes "ReactivateConfirmation E None n email repo token url w = (r, w')"
  shows "case r of
      Inr _ \<Rightarrow> \<exists>s\<in>set (subscriptions (db w)). sub_ID s = n \<and> sub_Status s = StatusFailed \<and>
        subscribed (sub_Email s) (sub_Repo s) token (db w')
    | Inl e \<Rightarrow> infra e"
  using assms unfolding ReactivateConfirmation_def option.case
proof (cases rule: saga_txE)
  case (undone e d)
  from undone(4) have "infra e"
    by (elim disjE exE) (auto split: prod.splits sum.splits
        dest: ReactivateInTx_infra enqueueConfirmation_infra)
  then show ?thesis using undone(1) by simp
next
  case (committed tx w1 x w2)
  then obtain y w3 where react: "ReactivateInTx E (OnTx tx) n token w1 = (Inr y, w3)"
    and enq: "enqueueConfirmation E tx n email repo token url w3 = (Inr x, w2)"
    by (auto split: prod.splits sum.splits)
  note re = ReactivateInTx_Inr [OF react]
  then obtain s where s: "s \<in> set (subscriptions (db w))" "sub_ID s = n" "sub_Status s = StatusFailed"
    using committed(2) by auto
  have "subscribed (sub_Email s) (sub_Repo s) token (db w')"
    by (rule subscribed_reactivated [OF _ s])
      (use re enqueueConfirmation_subs [OF enq] committed(2,4) in simp)
  then show ?thesis using committed(5) s by auto
qed

context sync_sender
begin

lemma dispatchSync_spec:
  assumes "dispatchSync E send i n email repo url w = (r, w')"
  shows "(case r of Inl e \<Rightarrow> infra e | Inr _ \<Rightarrow>
      subscriptions (db w') = subscriptions (db w) \<or> subscriptions (db w') = fail_rows n (subscriptions (db w)))"
proof (cases r)
  case (Inl e)
  have "infra e"
    using assms Inl unfolding dispatchSync_def compensateSync_def
    by (auto split: prod.splits sum.splits dest: UpdateState_infra store_compensator.compensate_infra)
  then show ?thesis using Inl by simp
next
  case (Inr x)
  obtain q w1 where sn: "send email repo url w = (q, w1)" by (cases "send email repo url w")
  have db1: "db w1 = db w" using send_db [OF sn] .
  show ?thesis
  proof (cases q)
    case q: (Inl e)
    then have "compensate E (MarkFailed E) i n ''confirmation email failed (grpc)'' w1 = (Inr x, w')"
      using assms Inr sn by (simp add: dispatchSync_def compensateSync_def)
    then obtain w2 w3 where up: "UpdateState E i StateCompensating ''confirmation email failed (grpc)'' w1 = (Inr (), w2)"
      and mk: "MarkFailed E n w2 = (Inr (), w3)"
      and fin: "UpdateState E i StateFailed ''confirmation email failed (grpc)'' w3 = (Inr (), w')"
      by (auto simp: compensate_def split: prod.splits sum.splits)
    show ?thesis
      using UpdateState_frame [OF up] store_compensator.mark_Inr [OF mk] UpdateState_frame [OF fin] db1 Inr
      by simp
  next
    case q: (Inr y)
    then have "UpdateState E i StateCompleted [] w1 = (Inr (), w')"
      using assms Inr sn by (auto simp: dispatchSync_def split: prod.splits sum.splits)
    from UpdateState_frame [OF this] show ?thesis using db1 Inr by simp
  qed
qed

lemma StartConfirmation_sync_spec:
  assumes "StartConfirmation E (Some send) email repo token url w = (r, w')"
  shows "case r of Inr _ \<Rightarrow> subscribed email repo token (db w') | Inl e \<Rightarrow> infra e"
proof -
  obtain q w1 where c: "createSubscriptionAndSaga E email repo token 0 w = (q, w1)"
    by (cases "createSubscriptionAndSaga E email repo token 0 w")
  note t = createSubscriptionAndSaga_T1 [OF c]
  show ?thesis
  proof (cases q)
    case (Inl e)
    then show ?thesis using assms c t by (auto simp: StartConfirmation_def startConfirmationSync_def)
  next
    case (Inr p)
    then obtain n i where p: "p = (n, i)" by (cases p)
    have d: "dispatchSync E send i n email repo url w1 = (r, w')"
      using assms c Inr p by (simp add: StartConfirmation_def startConfirmationSync_def)
    have "subscribed email repo token (db w1)"
      using t Inr p by (auto simp: sub_written_def intro: subscribed_new)
    then show ?thesis
      using dispatchSync_spec [OF d] by (auto split: sum.splits intro: subscribed_fail_rows subscribed_cong)
  qed
qed

lemma ReactivateConfirmation_sync_spec:
  assumes "ReactivateConfirmation E (Some send) sid email repo token url w = (r, w')" "sid \<noteq> 0"
  shows "case r of
      Inr _ \<Rightarrow> \<exists>s\<in>set (subscriptions (db w)). sub_ID s = sid \<and> sub_Status s = StatusFailed \<and>
        subscribed (sub_Email s) (sub_Repo s) token (db w')
    | Inl e \<Rightarrow> infra e"
proof -
  obtain q w1 where c: "createSubscriptionAndSaga E email repo token sid w = (q, w1)"
    by (cases "createSubscriptionAndSaga E email repo token sid w")
  note t = createSubscriptionAndSaga_T1 [OF c]
  show ?thesis
  proof (cases q)
    case (Inl e)
    then show ?thesis using assms(1) c t by (auto simp: ReactivateConfirmation_def reactivateConfirmationSync_def)
  next
    case (Inr p)
    then obtain n i where p: "p = (n, i)" by (cases p)
    have d: "dispatchSync E send i n email repo url w1 = (r, w')"
      using assms(1) c Inr p by (simp add: ReactivateConfirmation_def reactivateConfirmationSync_def)
    from t Inr p assms(2) have w1: "sub_written sid n email repo token (db w) (db w1)" by auto
    then obtain s where s: "s \<in> set (subscriptions (db w))" "sub_ID s = sid" "sub_Status s = StatusFailed"
      using assms(2) by (auto simp: sub_written_def)
    have "subscribed (sub_Email s) (sub_Repo s) token (db w1)"
      by (rule subscribed_reactivated [OF _ s]) (use w1 assms(2) in \<open>simp add: sub_written_def\<close>)
    then have "subscribed (sub_Email s) (sub_Repo s) token (db w')" if "r = Inr x" for x
      using dispatchSync_spec [OF d] that by (auto intro: subscribed_fail_rows subscribed_cong)
    then show ?thesis using s dispatchSync_spec [OF d] by (cases r) auto
  qed
qed

end

section \<open>The service is wired correctly\<close>

lemma doWithRetry_infra: "retry_from E req i n w = (Inl e, w') \<Longrightarrow> infra e"
  by (induction n arbitrary: i w)
    (auto simp: http_call_def Let_def split: sum.splits prod.splits if_splits)

lemma Client_CheckRepoExists_infra: "Client_CheckRepoExists E c owner repo w = (Inl e, w') \<Longrightarrow> infra e"
  by (auto simp: Client_CheckRepoExists_def new_request_def status_error_def doWithRetry_def
      split: sum.splits prod.splits if_splits dest: doWithRetry_infra)

lemma Cached_CheckRepoExists_frame:
  assumes "Cached_CheckRepoExists (main_gateway E c ca) owner repo w = (r, w')"
  shows "db w' = db w \<and> (\<forall>e. r = Inl e \<longrightarrow> infra e)"
proof -
  let ?k = "exists_key owner repo" and ?m = "metric_inc (GitHubAPICalls ''check_repo'' ''miss'')"
  obtain g w1 where g: "Cache_Get E ca ?k w = (g, w1)" by (cases "Cache_Get E ca ?k w")
  obtain u w2 where u: "Client_CheckRepoExists E c owner repo (?m w1) = (u, w2)"
    by (cases "Client_CheckRepoExists E c owner repo (?m w1)")
  have d1: "db w1 = db w" using g by (auto simp: Cache_Get_def Let_def split: redis_reply.splits)
  have d2: "db w2 = db w" using Client_CheckRepoExists_said [OF u] d1 by simp
  have d3: "db (snd (Cache_Set E ca ?k v w2)) = db w" for v
    using d2 by (simp add: Cache_Set_def split: option.splits)
  show ?thesis
    using assms g u d1 d2 d3 Client_CheckRepoExists_infra [of E c owner repo "?m w1" _ w2]
    by (cases u) (auto simp: Cached_CheckRepoExists_def main_gateway_def Let_def split: if_splits)
qed

lemma github_CheckRepoExists_frame:
  assumes "github_CheckRepoExists E c ca owner repo w = (r, w')"
  shows "db w' = db w \<and> (\<forall>e. r = Inl e \<longrightarrow> infra e)"
  using assms Cached_CheckRepoExists_frame Client_CheckRepoExists_said Client_CheckRepoExists_infra
  by (cases ca) (fastforce simp: github_CheckRepoExists_def)+

lemma lookup_stmt:
  assumes "run_stmt E ext nm (\<lambda>_ d. (Inr (f d), d)) w = (r, w')"
  shows "db w' = db w \<and> (case r of Inr x \<Rightarrow> x = f (db w) | Inl e \<Rightarrow> infra e)"
  using assms by (cases rule: run_stmtE) auto

lemma upd_stmt:
  assumes "run_stmt E ext nm (\<lambda>_ d. (Inr (), d\<lparr>subscriptions := f (subscriptions d)\<rparr>)) w = (r, w')"
  shows "sagas (db w') = sagas (db w) \<and> outbox (db w') = outbox (db w) \<and>
     repositories (db w') = repositories (db w) \<and>
     (case r of Inr _ \<Rightarrow> subscriptions (db w') = f (subscriptions (db w)) | Inl e \<Rightarrow> infra e)"
  using assms
proof (cases rule: run_stmtE)
  case ok
  then have "db w' = (db w)\<lparr>subscriptions := f (subscriptions (db w))\<rparr>" "r = Inr ()" by auto
  then show ?thesis by simp
next
  case (lost m r')
  then have "db w' = (db w)\<lparr>subscriptions := f (subscriptions (db w))\<rparr>" by auto
  then show ?thesis using lost by simp
qed simp

lemma RegisterRepo_spec:
  assumes "RegisterRepo E repo w = (r, w')"
  shows "subscriptions (db w') = subscriptions (db w) \<and> sagas (db w') = sagas (db w) \<and>
     outbox (db w') = outbox (db w) \<and>
     (case r of Inr _ \<Rightarrow> seen_tag repo (db w') =
        (case seen_tag repo (db w) of None \<Rightarrow> Some [] | Some t \<Rightarrow> Some t) | Inl e \<Rightarrow> infra e)"
proof -
  have run: "run_stmt E OnDB ''INSERT INTO repositories ON CONFLICT DO NOTHING'' (register_stmt repo) w = (r, w')"
    using assms by (simp add: RegisterRepo_def)
  note tracking_frame [OF run, of repo]
  moreover have "infra e" if "r = Inl e" for e
    using run_stmt_infra [OF run [unfolded that]] upsert_repo_effect
    unfolding register_stmt_def by (metis Inl_Inr_False prod.collapse sum.inject(1))
  ultimately show ?thesis using RegisterRepo_Inr assms by (cases r) auto
qed

interpretation main_svc: service_backend "main_service E tr c ca base" for E tr c ca base
proof (unfold_locales, goal_cases)
  case (1 email repo w rp wp)
  then show ?case using lookup_stmt by (simp add: main_service_def GetSubscriptionByEmailAndRepo_def)
next
  case (2 token w rt wt)
  then show ?case using lookup_stmt by (simp add: main_service_def GetSubscriptionByToken_def)
next
  case (3 token w rc wc)
  then have run: "ConfirmSubscription E token w = (rc, wc)" by (simp add: main_service_def)
  show ?case
    using ConfirmSubscription_grows [OF run] upd_stmt [OF run [unfolded ConfirmSubscription_def]]
    unfolding confirm_row_def [abs_def] by simp
next
  case (4 token w rd wd)
  then have run: "DeleteSubscription E token w = (rd, wd)" by (simp add: main_service_def)
  show ?case using DeleteSubscription_grows [OF run] upd_stmt [OF run [unfolded DeleteSubscription_def]] by simp
next
  case (5 repo w rr wr)
  then have run: "RegisterRepo E repo w = (rr, wr)" by (simp add: main_service_def)
  show ?case using RegisterRepo_grows [OF run] RegisterRepo_spec [OF run] by simp
next
  case (6 owner name w rg wg)
  then show ?case by (intro github_CheckRepoExists_frame) (simp add: main_service_def)
next
  case (7 email repo token url w rs ws)
  then have "StartConfirmation E (sender_of E tr) email repo token url w = (rs, ws)" by (simp add: main_service_def)
  then show ?case
    by (cases tr)
      (auto simp: sender_of_def intro: StartConfirmation_broker_grows grpc.StartConfirmation_grows
        StartConfirmation_broker_spec grpc.StartConfirmation_sync_spec)
next
  case (8 sid email repo token url w ra wa)
  then have "ReactivateConfirmation E (sender_of E tr) sid email repo token url w = (ra, wa)" by (simp add: main_service_def)
  then show ?case
    using 8(2) ReactivateConfirmation_broker_grows [of E sid email repo token url w ra wa]
      ReactivateConfirmation_broker_spec [of E sid email repo token url w ra wa]
      grpc.ReactivateConfirmation_grows [of E E _ _ sid email repo token url w ra wa]
      grpc.ReactivateConfirmation_sync_spec [of E E _ _ sid email repo token url w ra wa]
    by (cases tr) (simp_all add: sender_of_def)
qed

end
