(* ===== verification/Http_Api.thy ===== *)
theory Http_Api
  imports Monolith
begin

text \<open>
  The HTTP boundary: the handlers (\<open>internal/handler/handler.go\<close>), the API-key and
  request-log middleware (\<open>internal/middleware\<close>), the request metrics
  (\<open>internal/metrics/metrics.go\<close>) and the routes (\<open>internal/app/app.go\<close>). Gin itself is not
  modelled: a request arrives with the route gin matched, its headers and its body. The
  \<open>email\<close> rule of gin's validator and the rendering of a timestamp are parameters.
\<close>

section \<open>Requests and responses\<close>

datatype endpoint =
    StaticIndex
  | Metrics
  | Health
  | ApiSubscribe
  | ApiConfirm string
  | ApiUnsubscribe string
  | ApiSubscriptions
  | NoRoute

record api_request =
  http_Method :: string
  http_Header :: "string \<Rightarrow> string"
  http_Body :: json
  http_Query :: "string \<Rightarrow> string"
  http_ClientIP :: string

text \<open>A body is a JSON document (\<open>c.JSON\<close>) or text.\<close>

datatype payload = Json json | Text string

record api_response =
  resp_Status :: int
  resp_Body :: payload

text \<open>The route template gin reports as \<open>c.FullPath()\<close>.\<close>

fun FullPath :: "endpoint \<Rightarrow> string" where
  "FullPath StaticIndex = ''/''"
| "FullPath Metrics = ''/metrics''"
| "FullPath Health = ''/health''"
| "FullPath ApiSubscribe = ''/api/subscribe''"
| "FullPath (ApiConfirm t) = ''/api/confirm/:token''"
| "FullPath (ApiUnsubscribe t) = ''/api/unsubscribe/:token''"
| "FullPath ApiSubscriptions = ''/api/subscriptions''"
| "FullPath NoRoute = []"

fun in_api_group :: "endpoint \<Rightarrow> bool" where
  "in_api_group ApiSubscribe = True"
| "in_api_group (ApiConfirm t) = True"
| "in_api_group (ApiUnsubscribe t) = True"
| "in_api_group ApiSubscriptions = True"
| "in_api_group _ = False"

definition json_error :: "int \<Rightarrow> string \<Rightarrow> api_response" where
  "json_error status msg = \<lparr>resp_Status = status, resp_Body = Json (JObject [(''error'', JString msg)])\<rparr>"

definition json_message :: "string \<Rightarrow> api_response" where
  "json_message msg = \<lparr>resp_Status = 200, resp_Body = Json (JObject [(''message'', JString msg)])\<rparr>"

section \<open>Handlers\<close>

record SubscribeRequest =
  sr_Email :: string
  sr_Repo :: string

text \<open>\<open>ShouldBindJSON\<close>: decoding, then the rules \<open>required,email\<close> and \<open>required\<close>.\<close>

definition ShouldBindJSON :: "(string \<Rightarrow> bool) \<Rightarrow> json \<Rightarrow> SubscribeRequest option" where
  "ShouldBindJSON is_email body =
     (case unmarshal_struct [''email'', ''repo''] body of
        Inl _ \<Rightarrow> None
      | Inr vs \<Rightarrow>
          (if vs ! 0 = [] \<or> \<not> is_email (vs ! 0) \<or> vs ! 1 = [] then None
           else Some \<lparr>sr_Email = vs ! 0, sr_Repo = vs ! 1\<rparr>))"

definition translateError :: "gerr \<Rightarrow> int \<times> string" where
  "translateError err =
     (case KindOf err of
        KindInvalid \<Rightarrow> (400, Error err)
      | KindNotFound \<Rightarrow> (404, Error err)
      | KindConflict \<Rightarrow> (409, Error err)
      | KindInternal \<Rightarrow> (500, ''internal server error''))"

definition error_response :: "gerr \<Rightarrow> api_response" where
  "error_response err = (case translateError err of (status, msg) \<Rightarrow> json_error status msg)"

definition handler_Subscribe ::
  "(string \<Rightarrow> bool) \<Rightarrow> env \<Rightarrow> Service \<Rightarrow> json \<Rightarrow> world \<Rightarrow> api_response \<times> world" where
  "handler_Subscribe is_email E svc body w =
     (case ShouldBindJSON is_email body of
        None \<Rightarrow> (json_error 400 ''invalid request body'', w)
      | Some req \<Rightarrow>
          (case Subscribe E svc (sr_Email req) (sr_Repo req) w of
             (Inr _, w1) \<Rightarrow>
               (json_message ''subscription created, check your email to confirm'',
                metric_inc SubscriptionsCreated w1)
           | (Inl err, w1) \<Rightarrow> (error_response err, w1)))"

definition handleTokenAction ::
  "(string \<Rightarrow> (world, unit) act) \<Rightarrow> string \<Rightarrow> metric \<Rightarrow> string \<Rightarrow> world \<Rightarrow> api_response \<times> world" where
  "handleTokenAction action successMessage successMetric token w =
     (case action token w of
        (Inr _, w1) \<Rightarrow> (json_message successMessage, metric_inc successMetric w1)
      | (Inl err, w1) \<Rightarrow> (error_response err, w1))"

definition handler_ConfirmSubscription :: "Service \<Rightarrow> string \<Rightarrow> world \<Rightarrow> api_response \<times> world" where
  "handler_ConfirmSubscription svc =
     handleTokenAction (Confirm svc) ''subscription confirmed'' SubscriptionsConfirmed"

definition handler_Unsubscribe :: "Service \<Rightarrow> string \<Rightarrow> world \<Rightarrow> api_response \<times> world" where
  "handler_Unsubscribe svc =
     handleTokenAction (Unsubscribe svc) ''unsubscribed successfully'' Unsubscribes"

fun status_text :: "sub_status \<Rightarrow> string" where
  "status_text StatusPending = ''pending''"
| "status_text StatusConfirmed = ''confirmed''"
| "status_text StatusFailed = ''failed''"

definition marshal_Subscription :: "(int \<Rightarrow> string) \<Rightarrow> Subscription \<Rightarrow> json" where
  "marshal_Subscription fmt_time s = JObject
     [(''id'', JNumber (int (sub_ID s))), (''email'', JString (sub_Email s)), (''repo'', JString (sub_Repo s)),
      (''token'', JString (sub_Token s)), (''confirmed'', JBool (sub_Confirmed s)),
      (''status'', JString (status_text (sub_Status s))), (''created_at'', JString (fmt_time (sub_CreatedAt s)))]"

definition handler_GetSubscriptions ::
  "(int \<Rightarrow> string) \<Rightarrow> Service \<Rightarrow> string \<Rightarrow> world \<Rightarrow> api_response \<times> world" where
  "handler_GetSubscriptions fmt_time svc email w =
     (if email = [] then (json_error 400 ''email query parameter is required'', w)
      else (case GetSubscriptions svc email w of
              (Inl err, w1) \<Rightarrow> (error_response err, w1)
            | (Inr subs, w1) \<Rightarrow>
                (\<lparr>resp_Status = 200, resp_Body = Json (JArray (map (marshal_Subscription fmt_time) subs))\<rparr>, w1)))"

section \<open>Middleware and routes\<close>

text \<open>\<open>APIKeyAuth\<close>: \<open>None\<close> lets the request through, a response aborts it.\<close>

definition APIKeyAuth :: "string \<Rightarrow> api_request \<Rightarrow> api_response option" where
  "APIKeyAuth apiKey r =
     (if apiKey = [] then None
      else (let key = http_Header r ''X-API-Key'' in
            if key = [] then Some (json_error 401 ''missing X-API-Key header'')
            else if key \<noteq> apiKey then Some (json_error 403 ''invalid API key'')
            else None))"

text \<open>The request id: the client's, or a fresh one.\<close>

definition request_id :: "env \<Rightarrow> api_request \<Rightarrow> world \<Rightarrow> string \<times> world" where
  "request_id E r w =
     (if http_Header r ''X-Request-ID'' = [] then new_uuid E w else (http_Header r ''X-Request-ID'', w))"

text \<open>
  \<open>RequestLogger\<close> around the rest of the chain: the response carries the request id, and a line at
  the level of the outcome is written unless the configured logger drops it.
\<close>

definition RequestLogger ::
  "env \<Rightarrow> Logger \<Rightarrow> api_request \<Rightarrow> endpoint \<Rightarrow> (world \<Rightarrow> api_response \<times> world) \<Rightarrow> world \<Rightarrow> (string \<times> api_response) \<times> world" where
  "RequestLogger E lg r ep chain w =
     (case now E w of (start, w1) \<Rightarrow>
      case request_id E r w1 of (requestID, w2) \<Rightarrow>
      case chain w2 of (resp, w3) \<Rightarrow>
      case time_Since E start w3 of (duration, w4) \<Rightarrow>
        (let status = resp_Status resp; lvl = request_level status in
         ((requestID, resp),
          if Enabled lg lvl
          then logged (RequestLine lvl (http_Method r) (FullPath ep) status (Milliseconds duration) (http_ClientIP r) requestID) w4
          else w4)))"

text \<open>\<open>GinMiddleware\<close>: every request is counted and timed under its route, except the metrics endpoint.\<close>

definition metric_path :: "endpoint \<Rightarrow> string" where
  "metric_path ep = (if FullPath ep = [] then ''unknown'' else FullPath ep)"

definition GinMiddleware ::
  "env \<Rightarrow> api_request \<Rightarrow> endpoint \<Rightarrow> (world \<Rightarrow> api_response \<times> world) \<Rightarrow> world \<Rightarrow> api_response \<times> world" where
  "GinMiddleware E r ep chain w =
     (case now E w of (start, w1) \<Rightarrow>
      case chain w1 of (resp, w2) \<Rightarrow>
        (let path = metric_path ep in
         if path = ''/metrics'' then (resp, w2)
         else (case time_Since E start w2 of (duration, w3) \<Rightarrow>
           (resp, metric_inc (HTTPRequestDuration (http_Method r) path duration)
              (metric_inc (HTTPRequestsTotal (http_Method r) path (resp_Status resp)) w3)))))"

text \<open>
  What the router is built from: the validator's \<open>email\<close> rule, the rendering of a timestamp, the API
  key, the text Prometheus renders, the file server behind the start page, which decides the status by
  the file and the request's headers, and the logger.
\<close>

record api_config =
  api_IsEmail :: "string \<Rightarrow> bool"
  api_FmtTime :: "int \<Rightarrow> string"
  api_Key :: string
  api_Metrics :: "(metric \<Rightarrow> nat) \<Rightarrow> int \<Rightarrow> string"
  api_Index :: "api_request \<Rightarrow> int \<times> string"
  api_Logger :: Logger

fun run_endpoint ::
  "env \<Rightarrow> api_config \<Rightarrow> Service \<Rightarrow> api_request \<Rightarrow> endpoint \<Rightarrow> world \<Rightarrow> api_response \<times> world" where
  "run_endpoint E cf svc r StaticIndex w =
     (\<lparr>resp_Status = fst (api_Index cf r), resp_Body = Text (snd (api_Index cf r))\<rparr>, w)"
| "run_endpoint E cf svc r Metrics w =
     (\<lparr>resp_Status = 200, resp_Body = Text (api_Metrics cf (metrics w) (ScannerLastRunTimestamp w))\<rparr>, w)"
| "run_endpoint E cf svc r Health w =
     (\<lparr>resp_Status = 200, resp_Body = Json (JObject [(''status'', JString ''ok'')])\<rparr>, w)"
| "run_endpoint E cf svc r ApiSubscribe w = handler_Subscribe (api_IsEmail cf) E svc (http_Body r) w"
| "run_endpoint E cf svc r (ApiConfirm token) w = handler_ConfirmSubscription svc token w"
| "run_endpoint E cf svc r (ApiUnsubscribe token) w = handler_Unsubscribe svc token w"
| "run_endpoint E cf svc r ApiSubscriptions w =
     handler_GetSubscriptions (api_FmtTime cf) svc (http_Query r ''email'') w"
| "run_endpoint E cf svc r NoRoute w = 
     (\<lparr>resp_Status = 404, resp_Body = Text ''404 page not found''\<rparr>, w)"

text \<open>
  The chain \<open>BuildRouter\<close> sets up: request log, metrics, for the \<open>/api\<close> group the API key, then
  the endpoint. The result carries the echoed request id.
\<close>

definition route ::
  "env \<Rightarrow> api_config \<Rightarrow> Service \<Rightarrow> api_request \<Rightarrow> endpoint \<Rightarrow> world \<Rightarrow> api_response \<times> world" where
  "route E cf svc r ep w =
     (if in_api_group ep
      then (case APIKeyAuth (api_Key cf) r of
              Some resp \<Rightarrow> (resp, w)
            | None \<Rightarrow> run_endpoint E cf svc r ep w)
      else run_endpoint E cf svc r ep w)"

definition serve ::
  "env \<Rightarrow> api_config \<Rightarrow> Service \<Rightarrow> api_request \<Rightarrow> endpoint \<Rightarrow> world \<Rightarrow> (string \<times> api_response) \<times> world" where
  "serve E cf svc r ep = RequestLogger E (api_Logger cf) r ep (GinMiddleware E r ep (route E cf svc r ep))"

section \<open>What the boundary guarantees\<close>

lemma request_id_db [simp]: "db (snd (request_id E r w)) = db w"
  by (simp add: request_id_def)

text \<open>
  What the two outer layers add to the endpoint: clock readings, possibly a request id and the log
  line in the history, and the two metrics of the request.
\<close>

definition request_trace :: "api_request \<Rightarrow> endpoint \<Rightarrow> api_response \<Rightarrow> io_event \<Rightarrow> bool" where
  "request_trace r ep resp e \<longleftrightarrow> e = TimeNow \<or> (\<exists>u. e = UuidNew u) \<or>
     (\<exists>ms rid. e = RequestLine (request_level (resp_Status resp)) (http_Method r) (FullPath ep) (resp_Status resp) ms (http_ClientIP r) rid)"

definition request_metrics :: "api_request \<Rightarrow> endpoint \<Rightarrow> api_response \<Rightarrow> (metric \<Rightarrow> nat) \<Rightarrow> (metric \<Rightarrow> nat) \<Rightarrow> bool" where
  "request_metrics r ep resp m m' \<longleftrightarrow>
     (if ep = Metrics then m' = m
      else (\<exists>d. let m1 = m(HTTPRequestsTotal (http_Method r) (metric_path ep) (resp_Status resp) :=
                     Suc (m (HTTPRequestsTotal (http_Method r) (metric_path ep) (resp_Status resp)))) in
              m' = m1(HTTPRequestDuration (http_Method r) (metric_path ep) d :=
                     Suc (m1 (HTTPRequestDuration (http_Method r) (metric_path ep) d)))))"

lemma metric_path_metrics [simp]: "metric_path ep = ''/metrics'' \<longleftrightarrow> ep = Metrics"
  by (cases ep) (simp_all add: metric_path_def)

lemma request_id_trace:
  "request_id E r w = (rid, w') \<Longrightarrow> db w' = db w \<and> metrics w' = metrics w \<and>
     (hist w' = hist w \<or> (\<exists>u. hist w' = UuidNew u # hist w))"
  by (auto simp: request_id_def new_uuid_def Let_def split: if_splits)

lemma GinMiddleware_trace:
  assumes "GinMiddleware E r ep chain w = (resp, w')"
  obtains w2 where "chain (logged TimeNow w) = (resp, w2)" "db w' = db w2"
    "request_metrics r ep resp (metrics w2) (metrics w')" "hist w' = hist w2 \<or> hist w' = TimeNow # hist w2"
proof (cases "chain (logged TimeNow w)")
  case (Pair rs w2)
  show thesis
  proof (cases "ep = Metrics")
    case True
    then show ?thesis using assms Pair by (intro that [of w2]) (simp_all add: GinMiddleware_def now_def request_metrics_def)
  next
    case False
    then have "rs = resp" "w' = metric_inc (HTTPRequestDuration (http_Method r) (metric_path ep)
          (time_Sub (time_Now E (hist w2)) (time_Now E (hist w))))
        (metric_inc (HTTPRequestsTotal (http_Method r) (metric_path ep) (resp_Status resp)) (logged TimeNow w2))"
      using assms Pair by (auto simp: GinMiddleware_def now_def Let_def)
    with Pair False show ?thesis by (intro that [of w2]) (auto simp: request_metrics_def Let_def)
  qed
qed

lemma RequestLogger_trace:
  assumes "RequestLogger E lg r ep chain w = ((rid, resp), w')"
  obtains w1 w2 where "chain w1 = (resp, w2)" "db w1 = db w" "metrics w1 = metrics w" "db w' = db w2" "metrics w' = metrics w2"
    "adds (request_trace r ep resp) (hist w) (hist w1)"
    "adds (request_trace r ep resp) (hist w2) (hist w')"
proof -
  obtain i w1 where id: "request_id E r (logged TimeNow w) = (i, w1)" by (cases "request_id E r (logged TimeNow w)")
  obtain rs w2 where c: "chain w1 = (rs, w2)" by (cases "chain w1")
  note ids = request_id_trace [OF id]
  let ?lvl = "request_level (resp_Status rs)"
  let ?line = "RequestLine ?lvl (http_Method r) (FullPath ep) (resp_Status rs)
    (Milliseconds (time_Sub (time_Now E (hist w2)) (time_Now E (hist w)))) (http_ClientIP r) i"
  have w': "rs = resp" "w' = (if Enabled lg ?lvl then logged ?line (logged TimeNow w2) else logged TimeNow w2)"
    using assms id c by (auto simp: RequestLogger_def now_def Let_def)
  have "adds (request_trace r ep resp) (hist w) (hist w1)"
    using ids by (auto simp: request_trace_def intro!: adds_Cons)
  moreover have "adds (request_trace r ep resp) (hist w2) (hist w')"
    using w' by (auto simp: request_trace_def intro!: adds_Cons)
  ultimately show thesis using c w' ids by (intro that [of w1 w2]) simp_all
qed

lemma request_trace_TimeNow [simp]: "request_trace r ep resp TimeNow"
  by (simp add: request_trace_def)

lemma serve_routed:
  assumes "serve E cf svc r ep w = ((rid, resp), w')"
  obtains w1 w2 where "route E cf svc r ep w1 = (resp, w2)" "db w1 = db w" "db w' = db w2"
    "metrics w1 = metrics w" "request_metrics r ep resp (metrics w2) (metrics w')"
    "adds (request_trace r ep resp) (hist w) (hist w1)"
    "adds (request_trace r ep resp) (hist w2) (hist w')"
proof (rule RequestLogger_trace [OF assms [unfolded serve_def]])
  fix v1 v2
  assume mw: "GinMiddleware E r ep (route E cf svc r ep) v1 = (resp, v2)" and v: "db v1 = db w" "metrics v1 = metrics w"
    "db w' = db v2" "metrics w' = metrics v2"
    and h1: "adds (request_trace r ep resp) (hist w) (hist v1)"
    and h2: "adds (request_trace r ep resp) (hist v2) (hist w')"
  show thesis
  proof (rule GinMiddleware_trace [OF mw])
    fix w2
    assume w2: "route E cf svc r ep (logged TimeNow v1) = (resp, w2)" "db v2 = db w2"
      "request_metrics r ep resp (metrics w2) (metrics v2)" "hist v2 = hist w2 \<or> hist v2 = TimeNow # hist w2"
    have "adds (request_trace r ep resp) (hist w) (hist (logged TimeNow v1))"
      using h1 by (simp add: adds_Cons)
    moreover have "adds (request_trace r ep resp) (hist w2) (hist w')"
      using w2(4) h2
      by (metis adds_Cons adds_refl adds_trans request_trace_TimeNow)
    ultimately show thesis using that [of "logged TimeNow v1" w2] w2 v by simp
  qed
qed

text \<open>The status of an error tells its kind; an infrastructure error shows no detail.\<close>

lemma error_response_status:
  "resp_Status (error_response e) =
     (case KindOf e of KindInvalid \<Rightarrow> 400 | KindNotFound \<Rightarrow> 404 | KindConflict \<Rightarrow> 409 | KindInternal \<Rightarrow> 500)"
  by (simp add: error_response_def translateError_def json_error_def split: ErrKind.split)

lemma error_response_infra: "infra e \<Longrightarrow> error_response e = json_error 500 ''internal server error''"
  by (simp add: error_response_def translateError_def KindOf_infra)

text \<open>Without the key no API endpoint runs.\<close>

lemma serve_unauthorized:
  assumes "api_Key cf \<noteq> []" "http_Header r ''X-API-Key'' \<noteq> api_Key cf" "in_api_group ep"
    "serve E cf svc r ep w = ((rid, resp), w')"
  shows "resp_Status resp = (if http_Header r ''X-API-Key'' = [] then 401 else 403) \<and> db w' = db w \<and>
     adds (request_trace r ep resp) (hist w) (hist w')"
proof (rule serve_routed [OF assms(4)])
  fix w1 w2
  assume ro: "route E cf svc r ep w1 = (resp, w2)" and d: "db w1 = db w" "db w' = db w2"
    and h: "adds (request_trace r ep resp) (hist w) (hist w1)"
      "adds (request_trace r ep resp) (hist w2) (hist w')"
  have "w2 = w1" "resp_Status resp = (if http_Header r ''X-API-Key'' = [] then 401 else 403)"
    using ro assms(1-3) by (auto simp: route_def APIKeyAuth_def Let_def json_error_def split: if_splits)
  with d h show ?thesis by (simp add: adds_trans [of _ "hist w" "hist w1"])
qed

text \<open>The database is only reached through the API group, and every response keeps it well formed.\<close>

lemma serve_grows:
  assumes "serve E cf (main_service E tr c ca base) r ep w = ((rid, resp), w')" "db_ok (db w)"
  shows "grows (db w) (db w')"
proof (rule serve_routed [OF assms(1)])
  let ?svc = "main_service E tr c ca base"
  fix w1 w2
  assume ro: "route E cf ?svc r ep w1 = (resp, w2)" and d1: "db w1 = db w" and d2: "db w' = db w2"
  have run: "grows (db w) (db (snd (run_endpoint E cf ?svc r ep w1)))"
  proof (cases ep)
    case ApiSubscribe
    have "grows (db w) (db w2)" if "Subscribe E ?svc email repo w1 = (q, w2)" for email repo q w2
      using main_svc.Subscribe_spec [OF that] assms(2) d1 by simp
    then show ?thesis
      using ApiSubscribe d1 by (auto simp: handler_Subscribe_def split: option.splits prod.splits sum.splits)
  next
    case (ApiConfirm token)
    have "grows (db w) (db w2)" if "Confirm ?svc token w1 = (q, w2)" for q w2
      using main_svc.Confirm_spec [OF that] d1 by simp
    then show ?thesis
      using ApiConfirm d1
      by (auto simp: handler_ConfirmSubscription_def handleTokenAction_def split: prod.splits sum.splits)
  next
    case (ApiUnsubscribe token)
    have "grows (db w) (db w2)" if "Unsubscribe ?svc token w1 = (q, w2)" for q w2
      using main_svc.Unsubscribe_spec [OF that] d1 by simp
    then show ?thesis
      using ApiUnsubscribe d1
      by (auto simp: handler_Unsubscribe_def handleTokenAction_def split: prod.splits sum.splits)
  next
    case ApiSubscriptions
    have "db w2 = db w1" if "GetSubscriptionsByEmail E email w1 = (q, w2)" for email q w2
      using lookup_stmt [OF that [unfolded GetSubscriptionsByEmail_def]] by simp
    then show ?thesis
      using ApiSubscriptions d1
      by (auto simp: handler_GetSubscriptions_def GetSubscriptions_def main_service_def split: prod.splits sum.splits)
  qed (use d1 in simp_all)
  then show ?thesis
    using ro d1 d2 by (auto simp: route_def split: if_splits option.splits)
qed

end
