(* ===== verification/Scanner.thy ===== *)
theory Scanner
  imports Monolith
begin

text \<open>
  The release scanner (\<open>internal/releasetracking/scanner.go\<close>): for every repository with a
  confirmed subscription it asks GitHub for the latest release, compares it with the stored
  tag, records a new tag and notifies the confirmed subscribers. The scanner is a function of
  its four interfaces and the clock; the lemmas say when subscribers are notified and who they are.
\<close>

section \<open>Operations\<close>

record Scanner =
  sc_ActiveRepos :: "(world, string list) act"
  sc_SubscribersForRepo :: "string \<Rightarrow> (world, Subscriber list) act"
  sc_GetRepoTracking :: "string \<Rightarrow> (world, Repository option) act"
  sc_TouchLastChecked :: "string \<Rightarrow> (world, unit) act"
  sc_RecordRelease :: "string \<Rightarrow> string \<Rightarrow> (world, unit) act"
  sc_GetLatestRelease :: "string \<Rightarrow> string \<Rightarrow> (world, string) act"
  sc_SendReleaseNotification :: "string \<Rightarrow> string \<Rightarrow> string \<Rightarrow> string \<Rightarrow> (world, unit) act"
  sc_Now :: "world \<Rightarrow> int \<times> world"
  sc_interval :: duration
  sc_baseURL :: string

text \<open>The counter of an operation whose error is only counted and logged.\<close>

definition count_error :: "string \<Rightarrow> (gerr + 'a) \<times> world \<Rightarrow> world" where
  "count_error stage x = (case x of (Inl _, w) \<Rightarrow> metric_inc (ScannerErrorsTotal stage) w | (Inr _, w) \<Rightarrow> w)"

text \<open>\<open>detectNewRelease\<close>: \<open>None\<close> is the result \<open>("", false)\<close>.\<close>

definition detectNewRelease :: "Scanner \<Rightarrow> string \<Rightarrow> world \<Rightarrow> string option \<times> world" where
  "detectNewRelease s repoStr w =
     (case ParseRepoSpec repoStr of
        Inl _ \<Rightarrow> (None, w)
      | Inr spec \<Rightarrow>
          (case sc_GetLatestRelease s (Owner spec) (Name spec) w of
             (Inl _, w1) \<Rightarrow> (None, metric_inc (ScannerErrorsTotal ''github'') w1)
           | (Inr latestTag, w1) \<Rightarrow>
               (let w2 = count_error ''tracking'' (sc_TouchLastChecked s repoStr w1) in
                if latestTag = [] then (None, w2)
                else (case sc_GetRepoTracking s repoStr w2 of
                        (Inl _, w3) \<Rightarrow> (None, metric_inc (ScannerErrorsTotal ''tracking'') w3)
                      | (Inr tracking, w3) \<Rightarrow>
                          (if (case tracking of Some t \<Rightarrow> repo_LastSeenTag t = latestTag | None \<Rightarrow> False)
                           then (None, w3)
                           else (Some latestTag, metric_inc ReleasesDetected w3))))))"

definition unsubscribe_url :: "string \<Rightarrow> string \<Rightarrow> string" where
  "unsubscribe_url base token = base @ ''/api/unsubscribe/'' @ token"

fun notify_all :: "Scanner \<Rightarrow> string \<Rightarrow> string \<Rightarrow> Subscriber list \<Rightarrow> world \<Rightarrow> world" where
  "notify_all s repoStr newTag [] w = w"
| "notify_all s repoStr newTag (sub # subs) w =
     (case sc_SendReleaseNotification s (subscriber_Email sub) repoStr newTag
             (unsubscribe_url (sc_baseURL s) (subscriber_Token sub)) w of
        (Inl _, w1) \<Rightarrow> notify_all s repoStr newTag subs (metric_inc (ScannerErrorsTotal ''notify'') w1)
      | (Inr _, w1) \<Rightarrow> notify_all s repoStr newTag subs (metric_inc NotificationsSent w1))"

definition recordAndNotify :: "Scanner \<Rightarrow> string \<Rightarrow> string \<Rightarrow> world \<Rightarrow> world" where
  "recordAndNotify s repoStr newTag w =
     (case sc_RecordRelease s repoStr newTag w of
        (Inl _, w1) \<Rightarrow> metric_inc (ScannerErrorsTotal ''tracking'') w1
      | (Inr _, w1) \<Rightarrow>
          (case sc_SubscribersForRepo s repoStr w1 of
             (Inl _, w2) \<Rightarrow> metric_inc (ScannerErrorsTotal ''subscribers'') w2
           | (Inr subs, w2) \<Rightarrow> notify_all s repoStr newTag subs w2))"

definition checkRepo :: "Scanner \<Rightarrow> string \<Rightarrow> world \<Rightarrow> world" where
  "checkRepo s repoStr w =
     (case detectNewRelease s repoStr w of
        (None, w1) \<Rightarrow> w1
      | (Some newTag, w1) \<Rightarrow> recordAndNotify s repoStr newTag w1)"

definition scan_repos :: "Scanner \<Rightarrow> world \<Rightarrow> world" where
  "scan_repos s w =
     (case sc_ActiveRepos s w of
        (Inl _, w1) \<Rightarrow> metric_inc (ScannerErrorsTotal ''list_repos'') w1
      | (Inr repos, w1) \<Rightarrow> fold (checkRepo s) repos w1)"

text \<open>
  One cycle: the deferred function observes its duration and stamps the time after the early
  return as well.
\<close>

definition scan :: "Scanner \<Rightarrow> world \<Rightarrow> world" where
  "scan s w =
     (case sc_Now s (metric_inc ScannerRunsTotal w) of (start, w1) \<Rightarrow>
      case sc_Now s (scan_repos s w1) of (t, w2) \<Rightarrow>
      case sc_Now s (metric_inc (ScannerCycleDuration (time_Sub t start)) w2) of (t', w3) \<Rightarrow>
        set_last_run t' w3)"

definition Scanner_Start :: "Scanner \<Rightarrow> ticked list \<Rightarrow> world \<Rightarrow> run_end \<times> world" where
  "Scanner_Start s = ticker_run (scan s) (sc_interval s)"

text \<open>The scanner \<open>main.go\<close> builds.\<close>

definition main_scanner ::
  "env \<Rightarrow> notifier_addr option \<Rightarrow> Client \<Rightarrow> Cache option \<Rightarrow> string \<Rightarrow> duration \<Rightarrow> Scanner" where
  "main_scanner E tr c ca base interval =
     (let svc = main_service E tr c ca base in
      \<lparr>sc_ActiveRepos = ActiveRepos svc, sc_SubscribersForRepo = SubscribersForRepo svc,
       sc_GetRepoTracking = GetRepoTracking E, sc_TouchLastChecked = TouchLastChecked E,
       sc_RecordRelease = RecordRelease E, sc_GetLatestRelease = github_GetLatestRelease E c ca,
       sc_SendReleaseNotification = SendReleaseNotification E, sc_Now = now E, sc_interval = interval, sc_baseURL = base\<rparr>)"

section \<open>The scanner against its interfaces\<close>

text \<open>
  The laws: reads leave the tables alone; \<open>TouchLastChecked\<close> and \<open>RecordRelease\<close> change the
  tracking table only, the first never a tag, the second on success exactly the recorded one;
  sending leaves the database alone.
\<close>

definition notice :: "Scanner \<Rightarrow> string \<Rightarrow> string \<Rightarrow> Subscriber \<Rightarrow> string \<times> string \<times> string \<times> string" where
  "notice s repo tag sub =
     (subscriber_Email sub, repo, tag, unsubscribe_url (sc_baseURL s) (subscriber_Token sub))"

definition slim :: "Subscription \<Rightarrow> Subscriber" where
  "slim sub = \<lparr>subscriber_ID = sub_ID sub, subscriber_Email = sub_Email sub, subscriber_Token = sub_Token sub\<rparr>"

locale scanner_io =
  fixes sc :: Scanner and tried :: "history \<Rightarrow> (string \<times> string \<times> string \<times> string) list"
  assumes active: "sc_ActiveRepos sc w = (ra, wa) \<Longrightarrow> db wa = db w \<and> tried (hist wa) = tried (hist w) \<and>
      (\<forall>rs. ra = Inr rs \<longrightarrow> distinct rs \<and>
         set rs = {sub_Repo s |s. s \<in> set (subscriptions (db w)) \<and> sub_Confirmed s})"
    and subscribers: "sc_SubscribersForRepo sc repo w = (rs, ws) \<Longrightarrow>
      db ws = db w \<and> tried (hist ws) = tried (hist w) \<and>
      (\<forall>xs. rs = Inr xs \<longrightarrow> set xs = slim ` {s \<in> set (subscriptions (db w)). sub_Repo s = repo \<and> sub_Confirmed s})"
    and tracking: "sc_GetRepoTracking sc repo w = (rt, wt) \<Longrightarrow>
      db wt = db w \<and> tried (hist wt) = tried (hist w) \<and>
      (\<forall>x. rt = Inr x \<longrightarrow> map_option repo_LastSeenTag x = seen_tag repo (db w))"
    and touch: "sc_TouchLastChecked sc repo w = (rc, wc) \<Longrightarrow>
      grows (db w) (db wc) \<and> tried (hist wc) = tried (hist w) \<and> subscriptions (db wc) = subscriptions (db w) \<and>
      sagas (db wc) = sagas (db w) \<and> outbox (db wc) = outbox (db w) \<and>
      (\<forall>r. seen_tag r (db wc) = seen_tag r (db w) \<or> r = repo \<and> seen_tag r (db w) = None \<and> seen_tag r (db wc) = Some [])"
    and record_release: "sc_RecordRelease sc repo tag w = (rr, wr) \<Longrightarrow>
      grows (db w) (db wr) \<and> tried (hist wr) = tried (hist w) \<and> subscriptions (db wr) = subscriptions (db w) \<and>
      sagas (db wr) = sagas (db w) \<and> outbox (db wr) = outbox (db w) \<and>
      (\<forall>r. r \<noteq> repo \<longrightarrow> seen_tag r (db wr) = seen_tag r (db w)) \<and>
      ((\<exists>x. rr = Inr x) \<longrightarrow> seen_tag repo (db wr) = Some tag)"
    and latest: "sc_GetLatestRelease sc owner name w = (rl, wl) \<Longrightarrow> db wl = db w \<and> tried (hist wl) = tried (hist w)"
    and send: "sc_SendReleaseNotification sc to repo tag url w = (rn, wn) \<Longrightarrow>
      db wn = db w \<and> tried (hist wn) = tried (hist w) @ [(to, repo, tag, url)]"
    and clock: "sc_Now sc w = (t, wk) \<Longrightarrow> db wk = db w \<and> tried (hist wk) = tried (hist w)"
begin

lemma notify_all_trace:
  "db (notify_all sc repo tag subs w) = db w \<and>
   tried (hist (notify_all sc repo tag subs w)) = tried (hist w) @ map (notice sc repo tag) subs"
proof (induction subs arbitrary: w)
  case (Cons sub subs)
  obtain r w1 where s: "sc_SendReleaseNotification sc (subscriber_Email sub) repo tag
      (unsubscribe_url (sc_baseURL sc) (subscriber_Token sub)) w = (r, w1)"
    by (cases "sc_SendReleaseNotification sc (subscriber_Email sub) repo tag
      (unsubscribe_url (sc_baseURL sc) (subscriber_Token sub)) w")
  then show ?case
    using send [OF s] Cons.IH [of "metric_inc NotificationsSent w1"]
      Cons.IH [of "metric_inc (ScannerErrorsTotal ''notify'') w1"]
    by (cases r) (simp_all add: notice_def)
qed simp

text \<open>
  What one repository check does to the tables and which notices it sends: none, or the new
  tag is recorded first and every confirmed subscriber of the repository gets one notice.
\<close>

lemma detectNewRelease_spec:
  assumes "detectNewRelease sc repo w = (r, w')"
  shows "grows (db w) (db w') \<and> tried (hist w') = tried (hist w) \<and> subscriptions (db w') = subscriptions (db w) \<and>
     sagas (db w') = sagas (db w) \<and> outbox (db w') = outbox (db w) \<and>
     (\<forall>q. seen_tag q (db w') = seen_tag q (db w) \<or> q = repo \<and> seen_tag q (db w) = None \<and> seen_tag q (db w') = Some []) \<and>
     (\<forall>tag. r = Some tag \<longrightarrow> tag \<noteq> [] \<and> seen_tag repo (db w) \<noteq> Some tag)"
proof (cases "ParseRepoSpec repo")
  case (Inl e)
  then show ?thesis using assms by (auto simp: detectNewRelease_def)
next
  case (Inr spec)
  obtain l w1 where la: "sc_GetLatestRelease sc (Owner spec) (Name spec) w = (l, w1)"
    by (cases "sc_GetLatestRelease sc (Owner spec) (Name spec) w")
  note l1 = latest [OF la]
  obtain t w2 where to: "sc_TouchLastChecked sc repo w1 = (t, w2)" by (cases "sc_TouchLastChecked sc repo w1")
  let ?w2 = "count_error ''tracking'' (sc_TouchLastChecked sc repo w1)"
  have w2: "db ?w2 = db w2" "hist ?w2 = hist w2" by (cases t; simp add: to count_error_def)+
  note t2 = touch [OF to]
  obtain g w3 where gt: "sc_GetRepoTracking sc repo ?w2 = (g, w3)" by (cases "sc_GetRepoTracking sc repo ?w2")
  note g3 = tracking [OF gt]
  show ?thesis
  proof (cases l)
    case lerr: (Inl e)
    then show ?thesis using assms Inr la l1 by (auto simp: detectNewRelease_def)
  next
    case lok: (Inr tag)
    have "db w' = db w2 \<and> tried (hist w') = tried (hist w) \<and>
        (\<forall>tag. r = Some tag \<longrightarrow> tag \<noteq> [] \<and> seen_tag repo (db w2) \<noteq> Some tag)"
    proof (cases "tag = []")
      case True
      then show ?thesis using assms Inr la lok w2 t2 l1 by (auto simp: detectNewRelease_def Let_def)
    next
      case ne: False
      show ?thesis
      proof (cases g)
        case (Inl e)
        then show ?thesis using assms Inr la lok ne gt g3 w2 t2 l1 by (auto simp: detectNewRelease_def Let_def)
      next
        case gok: (Inr x)
        have "seen_tag repo (db w2) = map_option repo_LastSeenTag x" using g3 gok w2 by simp
        then show ?thesis
          using assms Inr la lok ne gt gok g3 w2 t2 l1
          by (auto simp: detectNewRelease_def Let_def split: if_splits option.splits)
      qed
    qed
    moreover have "tag \<noteq> [] \<Longrightarrow> seen_tag repo (db w2) \<noteq> Some tag \<Longrightarrow> seen_tag repo (db w) \<noteq> Some tag" for tag
      using t2 l1 by (metis option.distinct(1) option.inject)
    ultimately show ?thesis using t2 l1 by auto
  qed
qed

lemma recordAndNotify_spec:
  assumes "w' = recordAndNotify sc repo tag w"
  shows "grows (db w) (db w') \<and> subscriptions (db w') = subscriptions (db w) \<and>
     sagas (db w') = sagas (db w) \<and> outbox (db w') = outbox (db w) \<and>
     (\<forall>q. q \<noteq> repo \<longrightarrow> seen_tag q (db w') = seen_tag q (db w)) \<and>
     (tried (hist w') = tried (hist w) \<or>
      (\<exists>subs. set subs = slim ` {s \<in> set (subscriptions (db w)). sub_Repo s = repo \<and> sub_Confirmed s} \<and>
         tried (hist w') = tried (hist w) @ map (notice sc repo tag) subs \<and> seen_tag repo (db w') = Some tag))"
proof -
  obtain r w1 where re: "sc_RecordRelease sc repo tag w = (r, w1)" by (cases "sc_RecordRelease sc repo tag w")
  note r1 = record_release [OF re]
  show ?thesis
  proof (cases r)
    case (Inl e)
    then show ?thesis using assms re r1 by (simp add: recordAndNotify_def)
  next
    case (Inr x)
    obtain s w2 where sb: "sc_SubscribersForRepo sc repo w1 = (s, w2)" by (cases "sc_SubscribersForRepo sc repo w1")
    note s2 = subscribers [OF sb]
    show ?thesis
    proof (cases s)
      case serr: (Inl e)
      then show ?thesis using assms re Inr sb s2 r1 by (simp add: recordAndNotify_def)
    next
      case sok: (Inr subs)
      then have "w' = notify_all sc repo tag subs w2" using assms re Inr sb by (simp add: recordAndNotify_def)
      then show ?thesis
        using notify_all_trace [of repo tag subs w2] s2 sok r1 Inr
        by (intro conjI disjI2 exI [of _ subs]) auto
    qed
  qed
qed

lemma checkRepo_spec:
  assumes "w' = checkRepo sc repo w"
  shows "grows (db w) (db w') \<and> subscriptions (db w') = subscriptions (db w) \<and>
     sagas (db w') = sagas (db w) \<and> outbox (db w') = outbox (db w) \<and>
     (tried (hist w') = tried (hist w) \<or>
      (\<exists>tag subs. tag \<noteq> [] \<and> seen_tag repo (db w) \<noteq> Some tag \<and> seen_tag repo (db w') = Some tag \<and>
         set subs = slim ` {s \<in> set (subscriptions (db w)). sub_Repo s = repo \<and> sub_Confirmed s} \<and>
         tried (hist w') = tried (hist w) @ map (notice sc repo tag) subs))"
proof -
  obtain r w1 where de: "detectNewRelease sc repo w = (r, w1)" by (cases "detectNewRelease sc repo w")
  note d1 = detectNewRelease_spec [OF de]
  show ?thesis
  proof (cases r)
    case None
    then show ?thesis using assms de d1 by (simp add: checkRepo_def)
  next
    case (Some tag)
    then have w': "w' = recordAndNotify sc repo tag w1" using assms de by (simp add: checkRepo_def)
    note n = recordAndNotify_spec [OF w']
    have "grows (db w) (db w')" using n d1 grows_trans by blast
    then show ?thesis using n d1 Some by auto
  qed
qed

text \<open>The stop-watch around a cycle leaves the tables and the notices alone.\<close>

lemma scan_frame_repos:
  obtains w1 where "db w1 = db w" "tried (hist w1) = tried (hist w)"
    "db (scan sc w) = db (scan_repos sc w1)" "tried (hist (scan sc w)) = tried (hist (scan_repos sc w1))"
proof -
  obtain start w1 where s: "sc_Now sc (metric_inc ScannerRunsTotal w) = (start, w1)"
    by (cases "sc_Now sc (metric_inc ScannerRunsTotal w)")
  obtain t w2 where e: "sc_Now sc (scan_repos sc w1) = (t, w2)" by (cases "sc_Now sc (scan_repos sc w1)")
  let ?w2 = "metric_inc (ScannerCycleDuration (time_Sub t start)) w2"
  obtain t' w3 where l: "sc_Now sc ?w2 = (t', w3)" by (cases "sc_Now sc ?w2")
  show thesis
    by (rule that [of w1]) (use clock [OF s] clock [OF e] clock [OF l] s e l in \<open>simp_all add: scan_def\<close>)
qed

lemma scan_repos_grows: "grows (db w) (db (scan_repos sc w))"
proof -
  have f: "grows (db w) (db (fold (checkRepo sc) repos w))" for repos w
    by (induction repos arbitrary: w) (auto intro: grows_trans checkRepo_spec [THEN conjunct1])
  obtain r w1 where a: "sc_ActiveRepos sc w = (r, w1)" by (cases "sc_ActiveRepos sc w")
  then show ?thesis using active [OF a] f [of w1] by (cases r) (auto simp: scan_repos_def)
qed

lemma scan_grows: "grows (db w) (db (scan sc w))"
  using scan_repos_grows by (metis scan_frame_repos [of w])

lemma scan_frame:
  "sagas (db (scan sc w)) = sagas (db w) \<and> outbox (db (scan sc w)) = outbox (db w) \<and>
   subscriptions (db (scan sc w)) = subscriptions (db w)"
proof -
  let ?same = "\<lambda>d d'. sagas d' = sagas d \<and> outbox d' = outbox d \<and> subscriptions d' = subscriptions d"
  have f: "?same (db w) (db (fold (checkRepo sc) repos w))" for repos w
  proof (induction repos arbitrary: w)
    case (Cons r rs)
    then show ?case using checkRepo_spec [of _ r w, OF refl] by simp
  qed simp
  obtain w1 where w1: "db w1 = db w" "db (scan sc w) = db (scan_repos sc w1)" by (rule scan_frame_repos)
  obtain r w2 where a: "sc_ActiveRepos sc w1 = (r, w2)" by (cases "sc_ActiveRepos sc w1")
  show ?thesis using a active [OF a] f [of _ w2] w1 by (cases r) (auto simp: scan_repos_def)
qed

text \<open>
  A whole scan: whoever is told about a release is a confirmed subscriber of the repository,
  the tag was not the recorded one when the scan began, and it is recorded when the scan ends.
\<close>

definition due :: "db \<Rightarrow> db \<Rightarrow> string \<times> string \<times> string \<times> string \<Rightarrow> bool" where
  "due d d' n \<longleftrightarrow> (case n of (to, repo, tag, url) \<Rightarrow>
     tag \<noteq> [] \<and> seen_tag repo d \<noteq> Some tag \<and> seen_tag repo d' = Some tag \<and>
     (\<exists>s\<in>set (subscriptions d). sub_Confirmed s \<and> sub_Repo s = repo \<and> sub_Email s = to \<and>
        url = unsubscribe_url (sc_baseURL sc) (sub_Token s)))"

lemma checkRepo_other:
  assumes "q \<noteq> repo"
  shows "seen_tag q (db (checkRepo sc repo w)) = seen_tag q (db w)"
proof -
  obtain r w1 where de: "detectNewRelease sc repo w = (r, w1)" by (cases "detectNewRelease sc repo w")
  have d1: "seen_tag q (db w1) = seen_tag q (db w)" using detectNewRelease_spec [OF de] assms by blast
  show ?thesis
    using de d1 assms recordAndNotify_spec [of _ repo _ w1, OF refl]
    by (cases r) (auto simp: checkRepo_def)
qed

lemma checkRepo_due:
  "\<exists>new. tried (hist (checkRepo sc repo w)) = tried (hist w) @ new \<and>
     (\<forall>n\<in>set new. fst (snd n) = repo \<and> due (db w) (db (checkRepo sc repo w)) n)"
proof -
  note c = checkRepo_spec [of _ repo w, OF refl]
  then consider "tried (hist (checkRepo sc repo w)) = tried (hist w)"
    | (new) tag subs where "tag \<noteq> []" "seen_tag repo (db w) \<noteq> Some tag"
      "seen_tag repo (db (checkRepo sc repo w)) = Some tag"
      "set subs = slim ` {s \<in> set (subscriptions (db w)). sub_Repo s = repo \<and> sub_Confirmed s}"
      "tried (hist (checkRepo sc repo w)) = tried (hist w) @ map (notice sc repo tag) subs" by blast
  then show ?thesis
  proof cases
    case 1
    then show ?thesis by simp
  next
    case new
    then have "fst (snd n) = repo \<and> due (db w) (db (checkRepo sc repo w)) n" if "n \<in> set (map (notice sc repo tag) subs)" for n
      using that by (auto simp: due_def notice_def slim_def)
    then show ?thesis using new(5) by blast
  qed
qed

lemma fold_check_due:
  assumes "distinct repos"
  shows "\<exists>new. tried (hist (fold (checkRepo sc) repos w)) = tried (hist w) @ new \<and>
     (\<forall>n\<in>set new. fst (snd n) \<in> set repos \<and> due (db w) (db (fold (checkRepo sc) repos w)) n)"
  using assms
proof (induction repos arbitrary: w)
  case (Cons repo repos)
  let ?w1 = "checkRepo sc repo w" and ?w2 = "fold (checkRepo sc) repos (checkRepo sc repo w)"
  from checkRepo_due [of repo w] obtain n1 where n1: "tried (hist ?w1) = tried (hist w) @ n1"
    "\<forall>n\<in>set n1. fst (snd n) = repo \<and> due (db w) (db ?w1) n" by blast
  from Cons.IH [of ?w1] Cons.prems obtain n2 where n2: "tried (hist ?w2) = tried (hist ?w1) @ n2"
    "\<forall>n\<in>set n2. fst (snd n) \<in> set repos \<and> due (db ?w1) (db ?w2) n" by auto
  have keep: "seen_tag repo (db (fold (checkRepo sc) rs v)) = seen_tag repo (db v)" if "repo \<notin> set rs" for rs v
    using that by (induction rs arbitrary: v) (auto simp: checkRepo_other)
  have subs: "subscriptions (db ?w1) = subscriptions (db w)" using checkRepo_spec [of _ repo w, OF refl] by blast
  have "due (db w) (db ?w2) n" if "n \<in> set n1" for n
    using n1(2) that keep [of repos ?w1] Cons.prems by (auto simp: due_def)
  moreover have "due (db w) (db ?w2) n" if "n \<in> set n2" for n
  proof -
    have n: "fst (snd n) \<in> set repos" "due (db ?w1) (db ?w2) n" using n2(2) that by blast+
    then have "seen_tag (fst (snd n)) (db ?w1) = seen_tag (fst (snd n)) (db w)"
      using Cons.prems by (intro checkRepo_other) auto
    then show ?thesis using n(2) subs by (auto simp: due_def)
  qed
  ultimately show ?case using n1 n2 by (intro exI [of _ "n1 @ n2"]) auto
qed simp

lemma scan_due:
  "\<exists>new. tried (hist (scan sc w)) = tried (hist w) @ new \<and> (\<forall>n\<in>set new. due (db w) (db (scan sc w)) n)"
proof -
  obtain w1 where w1: "db w1 = db w" "tried (hist w1) = tried (hist w)" "db (scan sc w) = db (scan_repos sc w1)"
    "tried (hist (scan sc w)) = tried (hist (scan_repos sc w1))" by (rule scan_frame_repos)
  obtain r w2 where a: "sc_ActiveRepos sc w1 = (r, w2)" by (cases "sc_ActiveRepos sc w1")
  note a1 = active [OF a]
  show ?thesis
  proof (cases r)
    case (Inl e)
    then show ?thesis using a a1 w1 by (simp add: scan_repos_def)
  next
    case (Inr repos)
    then have "distinct repos" using a1 by blast
    from fold_check_due [OF this, of w2] show ?thesis using a a1 w1 Inr by (auto simp: scan_repos_def)
  qed
qed

end

section \<open>The scanner of the monolith\<close>

text \<open>The release notices handed to the broker, oldest first.\<close>

definition release_notice :: "io_event \<Rightarrow> (string \<times> string \<times> string \<times> string) option" where
  "release_notice e = (case e of
     AmqpPublish p _ \<Rightarrow>
       (if pub_RoutingKey p = RoutingRelease
        then (case unmarshal_ReleaseRequest (pub_Body p) of
                Inr rq \<Rightarrow> Some (rr_To rq, rr_Repo rq, rr_Tag rq, rr_UnsubscribeURL rq) | Inl _ \<Rightarrow> None)
        else None)
   | _ \<Rightarrow> None)"

definition release_notices :: "history \<Rightarrow> (string \<times> string \<times> string \<times> string) list" where
  "release_notices h = rev (List.map_filter release_notice h)"

lemma release_notices_Cons [simp]:
  "release_notices (e # h) = release_notices h @ (case release_notice e of None \<Rightarrow> [] | Some n \<Rightarrow> [n])"
  by (simp add: release_notices_def map_filter_simps split: option.split)

lemma release_notice_simps [simp]:
  "release_notice (PgStatement s) = None" "release_notice (Wait d) = None" "release_notice (RedisGET k) = None"
  "release_notice (RedisSET k v d b) = None" "release_notice (HttpDo q) = None" "release_notice TimeNow = None"
  by (simp_all add: release_notice_def)

lemma run_stmt_notices: "run_stmt E ext nm body w = (r, w') \<Longrightarrow> release_notices (hist w') = release_notices (hist w)"
  by (drule run_stmt_hist) simp

lemma retry_notices:
  assumes "retry_from E req i n w = (r, w')"
  shows "release_notices (hist w') = release_notices (hist w)"
proof -
  have *: "release_notices (evs @ h) = release_notices h" if "set evs \<subseteq> insert (HttpDo req) (range Wait)" for evs h
    using that by (induction evs) auto
  from retry_from_hist [OF assms] show ?thesis using * by auto
qed

lemma Client_GetLatestRelease_notices:
  "Client_GetLatestRelease E c owner repo w = (r, w') \<Longrightarrow> release_notices (hist w') = release_notices (hist w)"
  by (auto simp: Client_GetLatestRelease_def doWithRetry_def split: sum.splits prod.splits if_splits dest: retry_notices)

lemma Cached_GetLatestRelease_frame:
  assumes "Cached_GetLatestRelease (main_gateway E c ca) owner repo w = (r, w')"
  shows "db w' = db w \<and> release_notices (hist w') = release_notices (hist w)"
proof -
  let ?k = "release_key owner repo" and ?m = "metric_inc (GitHubAPICalls ''latest_release'' ''miss'')"
  obtain g w1 where g: "Cache_Get E ca ?k w = (g, w1)" by (cases "Cache_Get E ca ?k w")
  obtain u w2 where u: "Client_GetLatestRelease E c owner repo (?m w1) = (u, w2)"
    by (cases "Client_GetLatestRelease E c owner repo (?m w1)")
  have d1: "db w1 = db w" "release_notices (hist w1) = release_notices (hist w)"
    using g by (auto simp: Cache_Get_def Let_def split: redis_reply.splits)
  have d2: "db w2 = db w" "release_notices (hist w2) = release_notices (hist w)"
    using Client_GetLatestRelease_said [OF u] Client_GetLatestRelease_notices [OF u] d1 by simp_all
  have d3: "db (snd (Cache_Set E ca ?k v w2)) = db w"
      "release_notices (hist (snd (Cache_Set E ca ?k v w2))) = release_notices (hist w)" for v
    using d2 by (simp_all add: Cache_Set_def split: option.splits)
  show ?thesis
    using assms g u d1 d2 d3
    by (cases u) (auto simp: Cached_GetLatestRelease_def main_gateway_def Let_def split: if_splits)
qed

lemma github_GetLatestRelease_frame:
  assumes "github_GetLatestRelease E c ca owner repo w = (r, w')"
  shows "db w' = db w \<and> release_notices (hist w') = release_notices (hist w)"
  using assms Cached_GetLatestRelease_frame Client_GetLatestRelease_said Client_GetLatestRelease_notices
  by (cases ca) (fastforce simp: github_GetLatestRelease_def)+

lemma upsert_repo_seen:
  assumes "upsert_repo repo tag new upd d = (r, d')" "\<And>n. repo_Repo (new n) = repo" "\<And>x. repo_Repo (upd x) = repo_Repo x"
    "q \<noteq> repo"
  shows "seen_tag q d' = seen_tag q d"
  using upsert_repo_other [OF assms(1,4,2,3)] by (simp add: seen_tag_def)

lemma touch_seen:
  assumes "touch_stmt repo t d = (r, d')"
  shows "seen_tag q d' = seen_tag q d \<or> q = repo \<and> seen_tag q d = None \<and> seen_tag q d' = Some []"
proof (cases "q = repo")
  case False
  then show ?thesis using upsert_repo_seen [OF assms [unfolded touch_stmt_def]] by simp
next
  case True
  from upsert_repo_effect [OF assms [unfolded touch_stmt_def]] show ?thesis
    using True by (auto simp: seen_tag_def row_simps lookup_by_append split: option.splits)
qed

text \<open>The laws of the two statements that write the tracking table.\<close>

lemma TouchLastChecked_law:
  assumes run: "TouchLastChecked E repo w = (rc, wc)"
  shows "grows (db w) (db wc) \<and> release_notices (hist wc) = release_notices (hist w) \<and>
     subscriptions (db wc) = subscriptions (db w) \<and> sagas (db wc) = sagas (db w) \<and> outbox (db wc) = outbox (db w) \<and>
     (\<forall>r. seen_tag r (db wc) = seen_tag r (db w) \<or> r = repo \<and> seen_tag r (db w) = None \<and> seen_tag r (db wc) = Some [])"
proof -
  note st = run [unfolded TouchLastChecked_def]
  have "seen_tag r (db wc) = seen_tag r (db w) \<or> r = repo \<and> seen_tag r (db w) = None \<and> seen_tag r (db wc) = Some []" for r
    by (rule run_stmt_keeps [OF st, where P = "\<lambda>d. seen_tag r d = seen_tag r (db w) \<or>
          r = repo \<and> seen_tag r (db w) = None \<and> seen_tag r d = Some []"]) (simp, metis touch_seen prod.collapse)
  then show ?thesis using TouchLastChecked_grows [OF run] run_stmt_notices [OF st] tracking_frame [OF st, of repo] by blast
qed

lemma RecordRelease_law:
  assumes run: "RecordRelease E repo tag w = (rr, wr)"
  shows "grows (db w) (db wr) \<and> release_notices (hist wr) = release_notices (hist w) \<and>
     subscriptions (db wr) = subscriptions (db w) \<and> sagas (db wr) = sagas (db w) \<and> outbox (db wr) = outbox (db w) \<and>
     (\<forall>r. r \<noteq> repo \<longrightarrow> seen_tag r (db wr) = seen_tag r (db w)) \<and> ((\<exists>x. rr = Inr x) \<longrightarrow> seen_tag repo (db wr) = Some tag)"
proof -
  note st = run [unfolded RecordRelease_def]
  have "q \<noteq> repo \<Longrightarrow> seen_tag q (snd (record_stmt repo tag n d)) = seen_tag q d" for q n d
    by (cases "record_stmt repo tag n d") (auto simp: record_stmt_def dest!: upsert_repo_seen)
  then have "\<forall>q. q \<noteq> repo \<longrightarrow> seen_tag q (db wr) = seen_tag q (db w)"
    by (intro run_stmt_keeps [OF st, where P = "\<lambda>d. \<forall>q. q \<noteq> repo \<longrightarrow> seen_tag q d = seen_tag q (db w)"]) simp_all
  then show ?thesis
    using RecordRelease_grows [OF run] run_stmt_notices [OF st] RecordRelease_Inr [of E repo tag w _ wr] run
      tracking_frame [OF st, of repo tag] by auto
qed

interpretation main_scan: scanner_io "main_scanner E tr c ca base interval" release_notices
  for E tr c ca base interval
proof (unfold_locales, goal_cases)
  case (1 w ra wa)
  then have run: "GetActiveRepos E w = (ra, wa)" by (simp add: main_scanner_def Let_def ActiveRepos_def main_service_def)
  show ?case
    using lookup_stmt [OF run [unfolded GetActiveRepos_def]] run_stmt_notices [OF run [unfolded GetActiveRepos_def]] by auto
next
  case (2 repo w rs ws)
  then obtain q where run: "GetSubscribersByRepo E repo w = (q, ws)"
    and rs: "\<forall>xs. rs = Inr xs \<longrightarrow> (\<exists>subs. q = Inr subs \<and> xs = map slim subs)"
    by (auto simp: main_scanner_def Let_def SubscribersForRepo_def main_service_def slim_def [abs_def]
        split: prod.splits sum.splits)
  show ?case
    using lookup_stmt [OF run [unfolded GetSubscribersByRepo_def]] rs run_stmt_notices [OF run [unfolded GetSubscribersByRepo_def]]
    by fastforce
next
  case (3 repo w rt wt)
  then have run: "GetRepoTracking E repo w = (rt, wt)" by (simp add: main_scanner_def Let_def)
  show ?case
    using lookup_stmt [OF run [unfolded GetRepoTracking_def]] run_stmt_notices [OF run [unfolded GetRepoTracking_def]]
    by (auto simp: seen_tag_def)
next
  case (4 repo w rc wc)
  then show ?case by (intro TouchLastChecked_law) (simp add: main_scanner_def Let_def)
next
  case (5 repo tag w rr wr)
  then show ?case by (intro RecordRelease_law) (simp add: main_scanner_def Let_def)
next
  case (6 owner name w rl wl)
  then show ?case by (intro github_GetLatestRelease_frame) (simp add: main_scanner_def Let_def)
next
  case (7 to repo tag url w rn wn)
  then have "PublishWithContext E (broker_message RoutingRelease (release_message_id repo tag url)
      (marshal_ReleaseRequest \<lparr>rr_To = to, rr_Repo = repo, rr_Tag = tag, rr_UnsubscribeURL = url\<rparr>)) w = (rn, wn)"
    by (simp add: main_scanner_def Let_def SendReleaseNotification_def Publish_def)
  from PublishWithContext_trace [OF this] show ?case by (simp add: release_notice_def broker_message_def)
next
  case (8 w t wk)
  then show ?case by (auto simp: main_scanner_def Let_def now_def)
qed

end
