(* ===== verification/Sweeper.thy ===== *)
theory Sweeper
  imports Compensation Outbox_Store
begin

text \<open>
  The resume sweeper (\<open>internal/orchestrator/sweeper.go\<close>): sagas that sat too long in a
  non-terminal state are re-driven (their outbox command is published again) or their
  interrupted compensation is finished. Errors on one saga are logged and do not stop the
  pass.
\<close>

section \<open>Operations\<close>

text \<open>One iteration of the loop of \<open>Sweep\<close>; every error ends in \<open>continue\<close>.\<close>

definition sweep_saga :: "env \<Rightarrow> (nat \<Rightarrow> (world, unit) act) \<Rightarrow> Saga \<Rightarrow> world \<Rightarrow> world" where
  "sweep_saga E mark_failed sg w =
     (case saga_State sg of
        StateSubscriptionCreated \<Rightarrow> snd (Requeue E (saga_ID sg) w)
      | StateCompensating \<Rightarrow>
          (case mark_failed (saga_SubscriptionID sg) w of
             (Inl _, w1) \<Rightarrow> w1
           | (Inr _, w1) \<Rightarrow>
               snd (UpdateState E (saga_ID sg) StateFailed ''compensation finished by sweeper'' w1))
      | _ \<Rightarrow> w)"

fun sweep_sagas :: "env \<Rightarrow> (nat \<Rightarrow> (world, unit) act) \<Rightarrow> Saga list \<Rightarrow> world \<Rightarrow> world" where
  "sweep_sagas E mf [] w = w"
| "sweep_sagas E mf (sg # sgs) w = sweep_sagas E mf sgs (sweep_saga E mf sg w)"

definition Sweep :: "env \<Rightarrow> (nat \<Rightarrow> (world, unit) act) \<Rightarrow> duration \<Rightarrow> (world, unit) act" where
  "Sweep E mark_failed staleAfter w =
     (case now E w of (t, w1) \<Rightarrow>
       (case FindResumable E (t - sint staleAfter) w1 of
          (Inl e, w2) \<Rightarrow> (Inl e, w2)
        | (Inr sgs, w2) \<Rightarrow> (Inr (), sweep_sagas E mark_failed sgs w2)))"

text \<open>\<open>Run\<close>: one sweep at once, then one per tick; a sweep that fails is only logged.\<close>

definition Sweeper_Run ::
  "env \<Rightarrow> (nat \<Rightarrow> (world, unit) act) \<Rightarrow> duration \<Rightarrow> duration \<Rightarrow> ticked list \<Rightarrow> world \<Rightarrow> run_end \<times> world" where
  "Sweeper_Run E mf interval stale = ticker_run (\<lambda>w. snd (Sweep E mf stale w)) interval"

section \<open>Which sagas are swept\<close>

text \<open>Saga ids are stored in the form PostgreSQL gives them.\<close>

definition saga_ids_canonical :: "env \<Rightarrow> db \<Rightarrow> bool" where
  "saga_ids_canonical E d \<longleftrightarrow> (\<forall>g\<in>set (sagas d). pg_uuid E (saga_ID g) = Some (saga_ID g))"

definition resumable :: "int \<Rightarrow> Saga \<Rightarrow> bool" where
  "resumable before g \<longleftrightarrow> saga_State g \<in> {StateSubscriptionCreated, StateCompensating} \<and> saga_UpdatedAt g < before"

lemma FindResumable_db: "FindResumable E t w = (r, w') \<Longrightarrow> db w' = db w"
  unfolding FindResumable_def
  by (auto split: prod.splits sum.splits elim!: run_stmt_keeps [where P = "\<lambda>d. d = db w"])

lemma FindResumable_Inr:
  assumes "FindResumable E t w = (Inr gs, w')"
  shows "set gs \<subseteq> {g \<in> set (sagas (db w)). resumable t g} \<and>
     (distinct (map saga_ID (sagas (db w))) \<longrightarrow> distinct (map saga_ID gs)) \<and>
     length gs \<le> 100 \<and> sorted (map saga_UpdatedAt gs) \<and>
     (length (filter (resumable t) (sagas (db w))) \<le> 100 \<longrightarrow>
        set gs = {g \<in> set (sagas (db w)). resumable t g})"
proof -
  define fs where "fs = filter (resumable t) (sagas (db w))"
  define ss where "ss = sort_key saga_UpdatedAt (sort_key (pg_rank_text E (hist w) \<circ> saga_ID) fs)"
  have gs: "gs = take 100 ss"
    using assms
    by (auto simp: FindResumable_def resumable_def [abs_def] fs_def ss_def comp_def
          split: prod.splits sum.splits dest!: run_stmt_Inr)
  have set: "set ss = set fs" and len: "length ss = length fs" by (simp_all add: ss_def)
  have "distinct (map saga_ID ss)" if "distinct (map saga_ID (sagas (db w)))"
  proof -
    have "distinct (map saga_ID fs)" using that unfolding fs_def by (rule distinct_map_filter)
    then show ?thesis by (simp add: distinct_map set) (simp add: ss_def)
  qed
  moreover have "sorted (map saga_UpdatedAt ss)" by (simp add: ss_def)
  ultimately show ?thesis
    using set_take_subset [of 100 ss] set len
    by (auto simp: gs fs_def take_map [symmetric] sorted_wrt_take distinct_take)
qed

section \<open>A pass keeps the saga order\<close>

context compensator
begin

lemma sweep_saga_grows: "grows (db w) (db (sweep_saga E mark_failed sg w))"
proof -
  have "grows (db w) (db (snd (Requeue E (saga_ID sg) w)))"
    by (cases "Requeue E (saga_ID sg) w") (auto dest: Requeue_grows)
  moreover have "grows (db w1) (db (snd (UpdateState E u st le w1)))" for w1 u st le
    by (cases "UpdateState E u st le w1") (auto dest: UpdateState_grows)
  moreover have "grows (db w) (db w1)" if "mark_failed n w = (q, w1)" for n q w1
    using mark_grows that .
  ultimately show ?thesis
    unfolding sweep_saga_def
    by (auto split: saga_state.splits prod.splits sum.splits) (blast intro: grows_trans)
qed

text \<open>
  The effect of one iteration on the saga table: nothing, or the swept saga moves from
  compensating to failed.
\<close>

lemma sweep_saga_sagas:
  assumes "pg_uuid E (saga_ID sg) = Some (saga_ID sg)"
  shows "sagas (db (sweep_saga E mark_failed sg w)) = sagas (db w) \<or>
     (saga_State sg = StateCompensating \<and>
      (\<exists>t. sagas (db (sweep_saga E mark_failed sg w)) = upd_rows (\<lambda>g. saga_ID g = saga_ID sg)
         (\<lambda>g. g\<lparr>saga_State := StateFailed,
                saga_LastError := Some ''compensation finished by sweeper'', saga_UpdatedAt := t\<rparr>)
         (sagas (db w))))"
proof (cases "saga_State sg")
  case StateSubscriptionCreated
  obtain r w1 where rq: "Requeue E (saga_ID sg) w = (r, w1)" by (cases "Requeue E (saga_ID sg) w")
  from Requeue_effect [OF rq] have "sagas (db w1) = sagas (db w)" by auto
  then show ?thesis using StateSubscriptionCreated rq by (simp add: sweep_saga_def)
next
  case StateCompensating
  obtain q w1 where mk: "mark_failed (saga_SubscriptionID sg) w = (q, w1)"
    by (cases "mark_failed (saga_SubscriptionID sg) w")
  obtain s w2 where up: "UpdateState E (saga_ID sg) StateFailed ''compensation finished by sweeper'' w1 = (s, w2)"
    by (cases "UpdateState E (saga_ID sg) StateFailed ''compensation finished by sweeper'' w1")
  have "sweep_saga E mark_failed sg w = (case q of Inl _ \<Rightarrow> w1 | Inr _ \<Rightarrow> w2)"
    using StateCompensating mk up by (simp add: sweep_saga_def split: sum.split)
  then show ?thesis
    using StateCompensating mark_sagas [OF mk] UpdateState_sagas [OF up] assms by (auto split: sum.splits)
qed (simp_all add: sweep_saga_def)

lemma sweep_sagas_moves:
  assumes "set sgs \<subseteq> set (sagas (db w))" "distinct (map saga_ID sgs)"
    "sagas_ok (sagas (db w))" "\<And>g. g \<in> set sgs \<Longrightarrow> pg_uuid E (saga_ID g) = Some (saga_ID g)"
  shows "sagas_moved (sagas (db w)) (sagas (db (sweep_sagas E mark_failed sgs w)))"
  using assms
proof (induction sgs arbitrary: w)
  case (Cons sg sgs)
  let ?w1 = "sweep_saga E mark_failed sg w"
  have canon: "pg_uuid E (saga_ID sg) = Some (saga_ID sg)" using Cons.prems(4) by simp
  have lk: "lookup_by saga_ID (saga_ID sg) (sagas (db w)) = Some sg"
    using Cons.prems(1,3) by (intro lookup_by_eq_Some) (auto simp: sagas_ok_def)
  have same: "g = sg" if "g \<in> set (sagas (db w))" "saga_ID g = saga_ID sg" for g
    using lk lookup_by_eq_Some [OF Cons.prems(3) [unfolded sagas_ok_def] that] by simp
  have move: "sagas_moved (sagas (db w)) (sagas (db ?w1))"
    using sweep_saga_sagas [OF canon, of w]
  proof (elim disjE conjE exE)
    fix t
    assume "saga_State sg = StateCompensating"
      and "sagas (db ?w1) = upd_rows (\<lambda>g. saga_ID g = saga_ID sg)
         (\<lambda>g. g\<lparr>saga_State := StateFailed,
                saga_LastError := Some ''compensation finished by sweeper'', saga_UpdatedAt := t\<rparr>)
         (sagas (db w))"
    then show ?thesis
      by (simp only:) (rule sagas_moved_upd, drule (1) same, simp add: saga_moved_def)
  qed simp
  have "set sgs \<subseteq> set (sagas (db ?w1))"
  proof
    fix g assume "g \<in> set sgs"
    then have "g \<in> set (sagas (db w))" "saga_ID g \<noteq> saga_ID sg"
      using Cons.prems(1,2) by (auto, metis imageI)
    then show "g \<in> set (sagas (db ?w1))"
      using sweep_saga_sagas [OF canon, of w] by (auto simp: set_upd_rows)
  qed
  moreover have "sagas_ok (sagas (db ?w1))"
    using sweep_saga_sagas [OF canon, of w] Cons.prems(3) by (auto intro!: sagas_ok_upd)
  ultimately have "sagas_moved (sagas (db ?w1)) (sagas (db (sweep_sagas E mark_failed sgs ?w1)))"
    using Cons.prems(2,4) by (intro Cons.IH) auto
  with move show ?case by (auto elim: sagas_moved_trans)
qed simp

lemma sweep_sagas_grows: "grows (db w) (db (sweep_sagas E mark_failed sgs w))"
  by (induction sgs arbitrary: w) (auto intro: grows_trans sweep_saga_grows)

lemma Sweep_cases:
  assumes "Sweep E mark_failed stale w = (r, w')"
  obtains (error) e where "r = Inl e" "db w' = db w"
  | (swept) t w1 w2 gs where "FindResumable E t w1 = (Inr gs, w2)" "db w1 = db w" "db w2 = db w"
      "w' = sweep_sagas E mark_failed gs w2" "t = time_Now E (hist w) - sint stale" "r = Inr ()"
proof -
  let ?t = "time_Now E (hist w) - sint stale"
  obtain q w2 where find: "FindResumable E ?t (logged TimeNow w) = (q, w2)"
    by (cases "FindResumable E ?t (logged TimeNow w)")
  have db2: "db w2 = db w" using FindResumable_db [OF find] by simp
  show ?thesis
  proof (cases q)
    case (Inl e)
    then show ?thesis using assms find db2 by (intro error) (auto simp: Sweep_def now_def)
  next
    case (Inr gs)
    then show ?thesis
      using assms find db2
      by (intro swept [of ?t "logged TimeNow w" gs w2]) (auto simp: Sweep_def now_def)
  qed
qed

lemma Sweep_grows: "Sweep E mark_failed stale w = (r, w') \<Longrightarrow> grows (db w) (db w')"
  by (erule Sweep_cases) (simp, metis sweep_sagas_grows)

lemma Sweep_moves:
  assumes "Sweep E mark_failed stale w = (r, w')" "sagas_ok (sagas (db w))" "saga_ids_canonical E (db w)"
  shows "sagas_moved (sagas (db w)) (sagas (db w'))"
  using assms(1)
proof (cases rule: Sweep_cases)
  case (swept t w1 w2 gs)
  note find = FindResumable_Inr [OF swept(1)]
  have "sagas_moved (sagas (db w2)) (sagas (db w'))"
    unfolding swept(4)
    by (rule sweep_sagas_moves)
      (use find swept assms(2,3) in \<open>auto simp: sagas_ok_def saga_ids_canonical_def\<close>)
  then show ?thesis using swept(3) by simp
qed simp

end

section \<open>What a pass achieves\<close>

text \<open>
  The goal for one swept saga: the commands of a created saga are unpublished again; a
  compensating saga whose subscription still exists is failed, and so is the subscription.
\<close>

definition swept_ok :: "Saga \<Rightarrow> db \<Rightarrow> bool" where
  "swept_ok sg d \<longleftrightarrow> (case saga_State sg of
     StateSubscriptionCreated \<Rightarrow>
       (\<forall>m\<in>set (outbox d). msg_SagaID m = Some (saga_ID sg) \<longrightarrow> msg_PublishedAt m = None)
   | StateCompensating \<Rightarrow>
       (saga_SubscriptionID sg \<in> sub_ID ` set (subscriptions d) \<longrightarrow> saga_in (saga_ID sg) {StateFailed} d \<and>
          (\<forall>s\<in>set (subscriptions d). sub_ID s = saga_SubscriptionID sg \<longrightarrow> sub_Status s = StatusFailed))
   | _ \<Rightarrow> True)"

lemma sub_ids_fail_rows [simp]: "sub_ID ` set (fail_rows n rows) = sub_ID ` set rows"
  unfolding fail_rows_def by (induction rows) auto

lemma fail_rows_failed:
  "s \<in> set (fail_rows n rows) \<Longrightarrow> sub_ID s = n \<Longrightarrow> sub_Status s = StatusFailed"
  "\<forall>s\<in>set rows. sub_ID s = m \<longrightarrow> sub_Status s = StatusFailed \<Longrightarrow>
     \<forall>s\<in>set (fail_rows n rows). sub_ID s = m \<longrightarrow> sub_Status s = StatusFailed"
proof -
  show "s \<in> set (fail_rows n rows) \<Longrightarrow> sub_ID s = n \<Longrightarrow> sub_Status s = StatusFailed"
    unfolding fail_rows_def by (erule in_upd_rowsE) simp_all
  assume *: "\<forall>s\<in>set rows. sub_ID s = m \<longrightarrow> sub_Status s = StatusFailed"
  show "\<forall>s\<in>set (fail_rows n rows). sub_ID s = m \<longrightarrow> sub_Status s = StatusFailed"
  proof (intro ballI impI)
    fix s assume "s \<in> set (fail_rows n rows)" "sub_ID s = m"
    then show "sub_Status s = StatusFailed" using * unfolding fail_rows_def by (elim in_upd_rowsE) simp_all
  qed
qed

lemma sweep_saga_ids:
  assumes "pg_uuid E (saga_ID g) = Some (saga_ID g)"
  shows "saga_ID ` set (sagas (db (sweep_saga E (MarkFailed E) g v))) = saga_ID ` set (sagas (db v))"
  using store_compensator.sweep_saga_sagas [OF assms, of E v]
proof (elim disjE conjE exE)
  fix t
  assume "sagas (db (sweep_saga E (MarkFailed E) g v)) = upd_rows (\<lambda>x. saga_ID x = saga_ID g)
       (\<lambda>x. x\<lparr>saga_State := StateFailed, saga_LastError := Some ''compensation finished by sweeper'',
              saga_UpdatedAt := t\<rparr>) (sagas (db v))"
  then show ?thesis by (simp add: set_map [symmetric] row_simps del: set_map)
qed simp

text \<open>The three ways one iteration can change the tables.\<close>

lemma sweep_saga_effect:
  assumes "pg_uuid E (saga_ID sg) = Some (saga_ID sg)" "d = db w" "d' = db (sweep_saga E (MarkFailed E) sg w)"
  shows "(outbox d' = outbox d \<or> (outbox d' = upd_rows (\<lambda>m. msg_SagaID m = Some (saga_ID sg))
            (\<lambda>m. m\<lparr>msg_PublishedAt := None\<rparr>) (outbox d))) \<and>
     (subscriptions d' = subscriptions d \<or> (\<exists>n. subscriptions d' = fail_rows n (subscriptions d))) \<and>
     (\<forall>g\<in>set (sagas d'). saga_ID g \<noteq> saga_ID sg \<longrightarrow> g \<in> set (sagas d))"
proof (cases "saga_State sg")
  case StateSubscriptionCreated
  obtain r w1 where rq: "Requeue E (saga_ID sg) w = (r, w1)" by (cases "Requeue E (saga_ID sg) w")
  show ?thesis
    using Requeue_effect [OF rq] assms StateSubscriptionCreated rq by (auto simp: sweep_saga_def)
next
  case StateCompensating
  obtain q w1 where mk: "MarkFailed E (saga_SubscriptionID sg) w = (q, w1)"
    by (cases "MarkFailed E (saga_SubscriptionID sg) w")
  have m: "outbox (db w1) = outbox (db w)"
    "subscriptions (db w1) = subscriptions (db w) \<or> (\<exists>n. subscriptions (db w1) = fail_rows n (subscriptions (db w)))"
    using store_compensator.mark_effect [OF mk] by (elim disjE; auto)+
  obtain s w2 where up: "UpdateState E (saga_ID sg) StateFailed ''compensation finished by sweeper'' w1 = (s, w2)"
    by (cases "UpdateState E (saga_ID sg) StateFailed ''compensation finished by sweeper'' w1")
  have d': "d' = db (case q of Inl _ \<Rightarrow> w1 | Inr _ \<Rightarrow> w2)"
    using StateCompensating mk up assms(3) by (simp add: sweep_saga_def split: sum.split)
  have "\<forall>g\<in>set (sagas d'). saga_ID g \<noteq> saga_ID sg \<longrightarrow> g \<in> set (sagas d)"
    using store_compensator.sweep_saga_sagas [OF assms(1), of E w] assms(2,3) by (auto elim!: in_upd_rowsE)
  then show ?thesis using d' m UpdateState_frame [OF up] assms(2) by (cases q) simp_all
qed (use assms in \<open>simp_all add: sweep_saga_def\<close>)

lemma sweep_saga_sub_ids:
  assumes "pg_uuid E (saga_ID sg) = Some (saga_ID sg)"
  shows "sub_ID ` set (subscriptions (db (sweep_saga E (MarkFailed E) sg w))) = sub_ID ` set (subscriptions (db w))"
proof -
  have "subscriptions (db (sweep_saga E (MarkFailed E) sg w)) = subscriptions (db w) \<or>
      (\<exists>n. subscriptions (db (sweep_saga E (MarkFailed E) sg w)) = fail_rows n (subscriptions (db w)))"
    using sweep_saga_effect [OF assms refl refl] by blast
  then show ?thesis using sub_ids_fail_rows by (elim disjE exE) simp_all
qed

lemma swept_ok_keep:
  assumes "pg_uuid E (saga_ID sg) = Some (saga_ID sg)" "saga_ID sg' \<noteq> saga_ID sg" "swept_ok sg' (db w)"
  shows "swept_ok sg' (db (sweep_saga E (MarkFailed E) sg w))"
proof -
  note e = sweep_saga_effect [OF assms(1) refl refl, of w]
  let ?w' = "sweep_saga E (MarkFailed E) sg w"
  have out: "\<exists>m0\<in>set (outbox (db w)). msg_SagaID m0 = msg_SagaID m \<and> (msg_PublishedAt m0 = None \<longrightarrow> msg_PublishedAt m = None)"
    if "m \<in> set (outbox (db ?w'))" for m
    using e that by (auto elim!: in_upd_rowsE) blast+
  have sg: "saga_in (saga_ID sg') sts (db w) \<Longrightarrow> saga_in (saga_ID sg') sts (db ?w')" for sts
    using conjunct2 [OF conjunct2 [OF e]] assms(2) sweep_saga_ids [OF assms(1), of w] by (simp add: saga_in_def)
  note ids = sweep_saga_sub_ids [OF assms(1), of w]
  have failed: "\<forall>s\<in>set (subscriptions (db ?w')). sub_ID s = n \<longrightarrow> sub_Status s = StatusFailed"
    if "\<forall>s\<in>set (subscriptions (db w)). sub_ID s = n \<longrightarrow> sub_Status s = StatusFailed" for n
    using conjunct1 [OF conjunct2 [OF e]]
  proof (elim disjE exE)
    fix k assume "subscriptions (db ?w') = fail_rows k (subscriptions (db w))"
    then show ?thesis using fail_rows_failed(2) [OF that] by simp
  qed (use that in simp)
  show ?thesis
  proof (cases "saga_State sg'")
    case StateSubscriptionCreated
    show ?thesis
      unfolding swept_ok_def StateSubscriptionCreated saga_state.case
    proof (intro ballI impI)
      fix m assume m: "m \<in> set (outbox (db ?w'))" "msg_SagaID m = Some (saga_ID sg')"
      from out [OF m(1)] assms(3) m(2) StateSubscriptionCreated show "msg_PublishedAt m = None"
        by (auto simp: swept_ok_def)
    qed
  next
    case StateCompensating
    show ?thesis
      unfolding swept_ok_def StateCompensating saga_state.case ids
    proof (intro impI conjI)
      assume "saga_SubscriptionID sg' \<in> sub_ID ` set (subscriptions (db w))"
      then have k: "saga_in (saga_ID sg') {StateFailed} (db w)"
        "\<forall>s\<in>set (subscriptions (db w)). sub_ID s = saga_SubscriptionID sg' \<longrightarrow> sub_Status s = StatusFailed"
        using assms(3) StateCompensating by (simp_all add: swept_ok_def)
      show "saga_in (saga_ID sg') {StateFailed} (db ?w')" by (rule sg [OF k(1)])
      show "\<forall>s\<in>set (subscriptions (db ?w')). sub_ID s = saga_SubscriptionID sg' \<longrightarrow> sub_Status s = StatusFailed"
        by (rule failed [OF k(2)])
    qed
  qed (simp_all add: swept_ok_def)
qed

lemma Requeue_up:
  assumes "pg_up E" "pg_uuid E u = Some u"
  shows "\<exists>w'. Requeue E u w = (Inr (), w') \<and> db w' = (db w)\<lparr>outbox :=
     upd_rows (\<lambda>m. msg_SagaID m = Some u) (\<lambda>m. m\<lparr>msg_PublishedAt := None\<rparr>) (outbox (db w))\<rparr>"
  using assms by (simp add: Requeue_def run_stmt_up requeue_stmt_def)

lemma MarkFailed_up:
  assumes "pg_up E" "n \<in> sub_ID ` set (subscriptions (db w))"
  shows "\<exists>w'. MarkFailed E n w = (Inr (), w') \<and>
     db w' = (db w)\<lparr>subscriptions := fail_rows n (subscriptions (db w))\<rparr>"
proof -
  have "affected (\<lambda>s. sub_ID s = n) (subscriptions (db w)) \<noteq> 0"
    using assms(2) by (auto simp: affected_0_iff)
  then show ?thesis
    using assms(1) by (simp add: MarkFailed_def run_stmt_up mark_failed_stmt_def fail_rows_def)
qed

lemma UpdateState_up:
  assumes "pg_up E" "pg_uuid E i = Some u" "u \<in> saga_ID ` set (sagas (db w))"
  shows "\<exists>w'. UpdateState E i st le w = (Inr (), w')"
proof -
  have "affected (\<lambda>g. saga_ID g = u) (sagas (db w)) \<noteq> 0"
    using assms(3) by (auto simp: affected_0_iff)
  then show ?thesis using assms(1,2) by (simp add: UpdateState_def run_stmt_up update_saga_def Let_def)
qed

lemma swept_ok_own:
  assumes up: "pg_up E" and u: "pg_uuid E (saga_ID sg) = Some (saga_ID sg)"
    and mem: "saga_ID sg \<in> saga_ID ` set (sagas (db w))"
  shows "swept_ok sg (db (sweep_saga E (MarkFailed E) sg w))"
proof (cases "saga_State sg")
  case StateSubscriptionCreated
  obtain w' where rq: "Requeue E (saga_ID sg) w = (Inr (), w')" "db w' = (db w)\<lparr>outbox :=
      upd_rows (\<lambda>m. msg_SagaID m = Some (saga_ID sg)) (\<lambda>m. m\<lparr>msg_PublishedAt := None\<rparr>) (outbox (db w))\<rparr>"
    using Requeue_up [OF up u, of w] by blast
  have "msg_PublishedAt m = None" if "m \<in> set (outbox (db w'))" "msg_SagaID m = Some (saga_ID sg)" for m
    using that rq(2) by (auto elim!: in_upd_rowsE)
  then show ?thesis using rq(1) StateSubscriptionCreated by (simp add: swept_ok_def sweep_saga_def)
next
  case StateCompensating
  show ?thesis
  proof (cases "saga_SubscriptionID sg \<in> sub_ID ` set (subscriptions (db w))")
    case True
    then obtain w1 where mk: "MarkFailed E (saga_SubscriptionID sg) w = (Inr (), w1)"
      "sagas (db w1) = sagas (db w)" "subscriptions (db w1) = fail_rows (saga_SubscriptionID sg) (subscriptions (db w))"
      using MarkFailed_up [OF up True] by auto
    obtain w2 where us: "UpdateState E (saga_ID sg) StateFailed ''compensation finished by sweeper'' w1 = (Inr (), w2)"
      using UpdateState_up [OF up u] mem mk(2) by metis
    show ?thesis
      using UpdateState_saga_in [OF us u] mk(1,3) us StateCompensating UpdateState_frame [OF us] fail_rows_failed(1)
      by (simp add: swept_ok_def sweep_saga_def)
  next
    case False
    then show ?thesis
      using sweep_saga_sub_ids [OF u, of w] StateCompensating unfolding swept_ok_def by simp
  qed
qed (simp_all add: swept_ok_def)

lemma sweep_sagas_ok:
  assumes "pg_up E" "distinct (map saga_ID sgs)" "\<And>g. g \<in> set sgs \<Longrightarrow> pg_uuid E (saga_ID g) = Some (saga_ID g)"
    "saga_ID ` set sgs \<subseteq> saga_ID ` set (sagas (db w))" "sg \<in> set sgs"
  shows "swept_ok sg (db (sweep_sagas E (MarkFailed E) sgs w))"
proof -
  have keep: "swept_ok g (db (sweep_sagas E (MarkFailed E) gs v))"
    if "swept_ok g (db v)" "\<And>x. x \<in> set gs \<Longrightarrow> pg_uuid E (saga_ID x) = Some (saga_ID x) \<and> saga_ID x \<noteq> saga_ID g" for g gs v
    using that
  proof (induction gs arbitrary: v)
    case (Cons x gs)
    have "swept_ok g (db (sweep_saga E (MarkFailed E) x v))"
      using Cons.prems(1) Cons.prems(2) [of x] swept_ok_keep [of E x g v] by auto
    then show ?case using Cons.IH Cons.prems(2) by simp
  qed simp
  show ?thesis
    using assms(2-5)
  proof (induction sgs arbitrary: w)
    case (Cons g gs)
    have g: "pg_uuid E (saga_ID g) = Some (saga_ID g)" using Cons.prems(2) by simp
    show ?case
    proof (cases "sg = g")
      case True
      have "swept_ok g (db (sweep_saga E (MarkFailed E) g w))"
        using Cons.prems(3) by (intro swept_ok_own assms(1) g) auto
      moreover have "saga_ID x \<noteq> saga_ID g" if "x \<in> set gs" for x
        using Cons.prems(1) that by (auto simp: image_iff)
      ultimately show ?thesis using True Cons.prems(2) by (auto intro!: keep)
    next
      case False
      then show ?thesis
        using Cons.prems sweep_saga_ids [OF g, of w] by (auto intro!: Cons.IH)
    qed
  qed simp
qed

text \<open>
  A pass with the database up settles every stuck saga of its batch, and the batch is all of
  them when there are at most a hundred.
\<close>

lemma Sweep_recovers:
  assumes "Sweep E (MarkFailed E) stale w = (r, w')" "pg_up E" "db_ok (db w)" "saga_ids_canonical E (db w)"
    "sg \<in> set (sagas (db w))" "resumable (time_Now E (hist w) - sint stale) sg"
    "length (filter (resumable (time_Now E (hist w) - sint stale)) (sagas (db w))) \<le> 100"
  shows "r = Inr () \<and> swept_ok sg (db w')"
  using assms(1)
proof (cases rule: store_compensator.Sweep_cases)
  case (error e)
  then show ?thesis
    using assms(1,2) by (auto simp: Sweep_def now_def FindResumable_def run_stmt_up)
next
  case (swept t w1 w2 gs)
  note f = FindResumable_Inr [OF swept(1)]
  have all: "set gs = {g \<in> set (sagas (db w)). resumable t g}"
    using f swept(2,5) assms(7) by simp
  have "swept_ok sg (db w')"
    unfolding swept(4)
    by (rule sweep_sagas_ok [OF assms(2)])
      (use f all swept assms in \<open>auto simp: db_ok_def sagas_ok_def saga_ids_canonical_def\<close>)
  then show ?thesis using swept(6) by simp
qed

end
