(* ===== verification/Outbox_Relay.thy ===== *)
theory Outbox_Relay
  imports Outbox_Store Notification
begin

text \<open>
  The message relay (\<open>internal/outbox/relay.go\<close>): one drain fetches a batch of unpublished
  messages, publishes each and then marks it. The relay is written against two interfaces,
  its store and its publisher, so it is a function of their operations; the interface is the
  locale \<open>relay_io\<close>, whose laws speak of a ledger of marked and published messages, and the
  outbox store with the broker publisher is shown to provide it.
\<close>

section \<open>Operations\<close>

record 'w Relay =
  store_FetchUnpublished :: "nat \<Rightarrow> ('w, Message list) act"
  store_MarkPublished :: "nat \<Rightarrow> ('w, unit) act"
  pub_Publish :: "string \<Rightarrow> string \<Rightarrow> json \<Rightarrow> ('w, unit) act"
  relay_interval :: duration
  relay_batch :: nat

definition NewRelay ::
  "(nat \<Rightarrow> ('w, Message list) act) \<Rightarrow> (nat \<Rightarrow> ('w, unit) act) \<Rightarrow>
   (string \<Rightarrow> string \<Rightarrow> json \<Rightarrow> ('w, unit) act) \<Rightarrow> duration \<Rightarrow> 'w Relay" where
  "NewRelay fetch mark pub interval =
     \<lparr>store_FetchUnpublished = fetch, store_MarkPublished = mark, pub_Publish = pub,
      relay_interval = interval, relay_batch = 100\<rparr>"

text \<open>
  The loop over the batch: a publish error ends it, a mark error is only logged.
\<close>

fun drain_messages :: "'w Relay \<Rightarrow> Message list \<Rightarrow> 'w \<Rightarrow> 'w" where
  "drain_messages r [] w = w"
| "drain_messages r (m # ms) w =
     (case pub_Publish r (msg_RoutingKey m) (msg_MessageID m) (msg_Payload m) w of
        (Inl e, w1) \<Rightarrow> w1
      | (Inr _, w1) \<Rightarrow> drain_messages r ms (snd (store_MarkPublished r (msg_ID m) w1)))"

definition drain :: "'w Relay \<Rightarrow> 'w \<Rightarrow> 'w" where
  "drain r w =
     (case store_FetchUnpublished r (relay_batch r) w of
        (Inl e, w1) \<Rightarrow> w1
      | (Inr msgs, w1) \<Rightarrow> drain_messages r msgs w1)"

text \<open>\<open>Run\<close>: one drain at once, then one per tick.\<close>

definition Relay_Run :: "'w Relay \<Rightarrow> ticked list \<Rightarrow> 'w \<Rightarrow> run_end \<times> 'w" where
  "Relay_Run r = ticker_run (drain r) (relay_interval r)"

section \<open>The relay against its interfaces\<close>

text \<open>
  \<open>pending w\<close> are the unpublished messages of the store, oldest first; \<open>sent w\<close> is the list of
  messages handed to the broker so far. A fetch returns a prefix of the pending messages; a
  publish that succeeds adds its message to the sent list and touches nothing else; a mark removes at most the marked message from the pending ones, and does so on
  success.
\<close>

locale relay_io =
  fixes rel :: "'w Relay"
    and pending :: "'w \<Rightarrow> Message list"
    and sent :: "'w \<Rightarrow> (string \<times> string \<times> json) list"
    and valid :: "'w \<Rightarrow> bool"
  assumes fetch: "valid w \<Longrightarrow> store_FetchUnpublished rel n w = (rf, wt) \<Longrightarrow>
      valid wt \<and> pending wt = pending w \<and> sent wt = sent w \<and>
      (\<forall>ms. rf = Inr ms \<longrightarrow> ms = take n (pending w))"
    and publish: "valid w \<Longrightarrow> pub_Publish rel rk mid body w = (rp, wp) \<Longrightarrow>
      valid wp \<and> pending wp = pending w \<and>
      (case rp of Inr _ \<Rightarrow> sent wp = sent w @ [(rk, mid, body)] | Inl _ \<Rightarrow> sent wp = sent w)"
    and mark: "valid w \<Longrightarrow> store_MarkPublished rel i w = (rm, wm) \<Longrightarrow>
      valid wm \<and> sent wm = sent w \<and>
      (pending wm = pending w \<or> pending wm = filter (\<lambda>m. msg_ID m \<noteq> i) (pending w)) \<and>
      ((\<exists>x. rm = Inr x) \<longrightarrow> pending wm = filter (\<lambda>m. msg_ID m \<noteq> i) (pending w))"
begin

abbreviation as_sent :: "Message \<Rightarrow> string \<times> string \<times> json" where
  "as_sent m \<equiv> (msg_RoutingKey m, msg_MessageID m, msg_Payload m)"

text \<open>
  The outbox never loses a message: whatever fails during a drain, a message that is no
  longer pending was handed to the broker; and what is sent is a prefix of the batch, in order.
\<close>

lemma drain_messages_ledger:
  assumes "valid w" "w' = drain_messages rel ms w"
  shows "valid w' \<and>
     (\<exists>k\<le>length ms. sent w' = sent w @ map as_sent (take k ms) \<and>
        set (pending w') \<subseteq> set (pending w) \<and>
        (\<forall>m\<in>set (pending w). m \<notin> set (pending w') \<longrightarrow> msg_ID m \<in> msg_ID ` set (take k ms)))"
  using assms
proof (induction ms arbitrary: w w')
  case Nil
  then show ?case by simp
next
  case (Cons m ms)
  obtain r w1 where pub: "pub_Publish rel (msg_RoutingKey m) (msg_MessageID m) (msg_Payload m) w = (r, w1)"
    by (cases "pub_Publish rel (msg_RoutingKey m) (msg_MessageID m) (msg_Payload m) w")
  note p = publish [OF Cons.prems(1) pub]
  show ?case
  proof (cases r)
    case (Inl e)
    then have "w' = w1" using Cons.prems(2) pub by simp
    then show ?thesis using p Inl by (intro conjI exI [of _ 0]) auto
  next
    case (Inr x)
    obtain q w2 where mk: "store_MarkPublished rel (msg_ID m) w1 = (q, w2)"
      by (cases "store_MarkPublished rel (msg_ID m) w1")
    have w': "w' = drain_messages rel ms w2" using Cons.prems(2) pub Inr mk by simp
    have v1: "valid w1" using p by simp
    note k2 = mark [OF v1 mk]
    from k2 Cons.IH [OF _ w'] obtain k where v': "valid w'" and k: "k \<le> length ms"
      and s: "sent w' = sent w2 @ map as_sent (take k ms)"
      and sub: "set (pending w') \<subseteq> set (pending w2)"
      and gone: "\<forall>m\<in>set (pending w2). m \<notin> set (pending w') \<longrightarrow> msg_ID m \<in> msg_ID ` set (take k ms)"
      by auto
    have "sent w' = sent w @ map as_sent (take (Suc k) (m # ms))" using s k2 p Inr by simp
    moreover have "set (pending w') \<subseteq> set (pending w)" using sub k2 p by auto
    moreover have "\<forall>m'\<in>set (pending w). m' \<notin> set (pending w') \<longrightarrow>
        msg_ID m' \<in> msg_ID ` set (take (Suc k) (m # ms))"
    proof (intro ballI impI)
      fix m' assume m': "m' \<in> set (pending w)" "m' \<notin> set (pending w')"
      show "msg_ID m' \<in> msg_ID ` set (take (Suc k) (m # ms))"
      proof (cases "m' \<in> set (pending w2)")
        case True
        then show ?thesis using gone m' by auto
      next
        case False
        then have "msg_ID m' = msg_ID m" using k2 p m'(1) by auto
        then show ?thesis by simp
      qed
    qed
    ultimately show ?thesis using v' k by (intro conjI exI [of _ "Suc k"]) auto
  qed
qed

lemma drain_ledger:
  assumes "valid w"
  shows "valid (drain rel w) \<and>
     (\<exists>k\<le>min (relay_batch rel) (length (pending w)).
        sent (drain rel w) = sent w @ map as_sent (take k (pending w)) \<and>
        set (pending (drain rel w)) \<subseteq> set (pending w) \<and>
        (\<forall>m\<in>set (pending w). m \<notin> set (pending (drain rel w)) \<longrightarrow>
           msg_ID m \<in> msg_ID ` set (take k (pending w))))"
proof -
  obtain r w1 where f: "store_FetchUnpublished rel (relay_batch rel) w = (r, w1)"
    by (cases "store_FetchUnpublished rel (relay_batch rel) w")
  note f1 = fetch [OF assms f]
  show ?thesis
  proof (cases r)
    case (Inl e)
    then have "drain rel w = w1" using f by (simp add: drain_def)
    then show ?thesis using f1 by (intro conjI exI [of _ 0]) auto
  next
    case (Inr ms)
    then have d: "drain rel w = drain_messages rel ms w1" using f by (simp add: drain_def)
    have ms: "ms = take (relay_batch rel) (pending w)" using f1 Inr by simp
    from drain_messages_ledger [OF _ d] f1 obtain k where "valid (drain rel w)" "k \<le> length ms"
      "sent (drain rel w) = sent w @ map as_sent (take k ms)"
      "set (pending (drain rel w)) \<subseteq> set (pending w)"
      "\<forall>m\<in>set (pending w). m \<notin> set (pending (drain rel w)) \<longrightarrow> msg_ID m \<in> msg_ID ` set (take k ms)"
      by auto
    moreover have "take k ms = take k (pending w)" using \<open>k \<le> length ms\<close> by (simp add: ms min_absorb1)
    ultimately show ?thesis by (intro conjI exI [of _ k]) (simp_all add: ms)
  qed
qed

text \<open>With the store and the broker up, a drain publishes and marks a whole batch.\<close>

lemma drain_messages_all:
  assumes "valid w" "\<And>rk mid body v. \<exists>v'. pub_Publish rel rk mid body v = (Inr (), v')"
    "\<And>i v. \<exists>v'. store_MarkPublished rel i v = (Inr (), v')"
  shows "valid (drain_messages rel ms w) \<and> sent (drain_messages rel ms w) = sent w @ map as_sent ms \<and>
     pending (drain_messages rel ms w) = filter (\<lambda>m. msg_ID m \<notin> msg_ID ` set ms) (pending w)"
  using assms(1)
proof (induction ms arbitrary: w)
  case (Cons m ms)
  obtain w1 where pub: "pub_Publish rel (msg_RoutingKey m) (msg_MessageID m) (msg_Payload m) w = (Inr (), w1)"
    using assms(2) by blast
  obtain w2 where mk: "store_MarkPublished rel (msg_ID m) w1 = (Inr (), w2)" using assms(3) by blast
  note p = publish [OF Cons.prems pub]
  then have v1: "valid w1" by simp
  note k = mark [OF v1 mk]
  then have "valid w2" by simp
  from Cons.IH [OF this] show ?case using pub mk p k by (simp add: conj_commute)
qed simp

lemma drain_all:
  assumes "valid w" "\<And>rk mid body v. \<exists>v'. pub_Publish rel rk mid body v = (Inr (), v')"
    "\<And>i v. \<exists>v'. store_MarkPublished rel i v = (Inr (), v')"
    "\<And>n v. \<exists>ms v'. store_FetchUnpublished rel n v = (Inr ms, v')"
    "distinct (map msg_ID (pending w))"
  shows "sent (drain rel w) = sent w @ map as_sent (take (relay_batch rel) (pending w)) \<and>
     pending (drain rel w) = drop (relay_batch rel) (pending w)"
proof -
  let ?n = "relay_batch rel"
  obtain ms w1 where f: "store_FetchUnpublished rel ?n w = (Inr ms, w1)" using assms(4) by blast
  note f1 = fetch [OF assms(1) f]
  have ms: "ms = take ?n (pending w)" using f1 by simp
  have d: "drain rel w = drain_messages rel ms w1" using f by (simp add: drain_def)
  have dis: "distinct (map msg_ID (take ?n (pending w)) @ map msg_ID (drop ?n (pending w)))"
    using assms(5) by (metis append_take_drop_id map_append)
  define P where "P m \<longleftrightarrow> msg_ID m \<notin> msg_ID ` set (take ?n (pending w))" for m :: Message
  have "filter P (take ?n (pending w)) = []"
    by (simp add: filter_empty_conv P_def)
  moreover have "filter P (drop ?n (pending w)) = drop ?n (pending w)"
    by (rule filter_True) (use dis in \<open>auto simp: P_def image_iff\<close>)
  ultimately have "filter P (take ?n (pending w) @ drop ?n (pending w)) = drop ?n (pending w)"
    by (simp only: filter_append append_Nil)
  then have "filter P (pending w) = drop ?n (pending w)" by (simp only: append_take_drop_id)
  moreover have v1: "valid w1" "pending w1 = pending w" "sent w1 = sent w" using f1 by simp_all
  note all = drain_messages_all [OF v1(1) assms(2,3), of ms]
  have "pending (drain rel w) = filter P (pending w)"
    using all unfolding d v1 ms P_def by (elim conjE)
  moreover have "sent (drain rel w) = sent w @ map as_sent (take ?n (pending w))"
    using all unfolding d v1 ms by (elim conjE)
  ultimately show ?thesis by simp
qed

end

section \<open>The relay of the monolith\<close>

text \<open>The wiring of \<open>main.go\<close>: the outbox store and the broker publisher.\<close>

definition main_relay :: "env \<Rightarrow> duration \<Rightarrow> world Relay" where
  "main_relay E interval =
     NewRelay (FetchUnpublished E) (MarkPublished E) (Publish E) interval"

definition pending_msgs :: "world \<Rightarrow> Message list" where
  "pending_msgs w = sort_key msg_ID (filter (\<lambda>m. msg_PublishedAt m = None) (outbox (db w)))"

definition sent_msgs :: "world \<Rightarrow> (string \<times> string \<times> json) list" where
  "sent_msgs w = rev (List.map_filter (\<lambda>e. case e of
      AmqpPublish p True \<Rightarrow> Some (pub_RoutingKey p, pub_MessageId p, pub_Body p) | _ \<Rightarrow> None) (hist w))"

lemma pending_after_mark:
  "sort_key msg_ID (filter (\<lambda>m. msg_PublishedAt m = None)
     (upd_rows (\<lambda>m. msg_ID m = i) (\<lambda>m. m\<lparr>msg_PublishedAt := Some t\<rparr>) rows)) =
   filter (\<lambda>m. msg_ID m \<noteq> i) (sort_key msg_ID (filter (\<lambda>m. msg_PublishedAt m = None) rows))"
proof -
  have "filter (\<lambda>m. msg_PublishedAt m = None)
     (upd_rows (\<lambda>m. msg_ID m = i) (\<lambda>m. m\<lparr>msg_PublishedAt := Some t\<rparr>) rows) =
     filter (\<lambda>m. msg_ID m \<noteq> i) (filter (\<lambda>m. msg_PublishedAt m = None) rows)"
    by (induction rows) auto
  then show ?thesis by (simp add: filter_sort)
qed

lemma run_stmt_sent: "run_stmt E ext nm body w = (r, w') \<Longrightarrow> sent_msgs w' = sent_msgs w"
  by (drule run_stmt_hist) (simp add: sent_msgs_def map_filter_simps)

interpretation relay: relay_io "main_relay E interval" pending_msgs sent_msgs "\<lambda>_. True" for E interval
proof
  fix n :: nat and w :: world and r w'
  assume f: "store_FetchUnpublished (main_relay E interval) n w = (r, w')"
  then have f': "FetchUnpublished E n w = (r, w')" by (simp add: main_relay_def NewRelay_def)
  then have "sent_msgs w' = sent_msgs w"
    by (auto simp: FetchUnpublished_def split: prod.splits sum.splits dest: run_stmt_sent)
  then show "True \<and> pending_msgs w' = pending_msgs w \<and> sent_msgs w' = sent_msgs w \<and>
      (\<forall>ms. r = Inr ms \<longrightarrow> ms = take n (pending_msgs w))"
    using FetchUnpublished_db [OF f'] FetchUnpublished_Inr [of E n w _ w'] f'
    by (auto simp: pending_msgs_def unpublished_def)
next
  fix rk mid body and w :: world and r w'
  assume "pub_Publish (main_relay E interval) rk mid body w = (r, w')"
  then have "PublishWithContext E (broker_message rk mid body) w = (r, w')"
    by (simp add: main_relay_def NewRelay_def Publish_def)
  then show "True \<and> pending_msgs w' = pending_msgs w \<and>
      (case r of Inr _ \<Rightarrow> sent_msgs w' = sent_msgs w @ [(rk, mid, body)] | Inl _ \<Rightarrow> sent_msgs w' = sent_msgs w)"
    by (auto simp: PublishWithContext_def pending_msgs_def sent_msgs_def map_filter_simps
          broker_message_def split: option.splits)
next
  fix i and w :: world and r w'
  assume "store_MarkPublished (main_relay E interval) i w = (r, w')"
  then have m: "MarkPublished E i w = (r, w')" by (simp add: main_relay_def NewRelay_def)
  then have "sent_msgs w' = sent_msgs w"
    by (auto simp: MarkPublished_def split: prod.splits sum.splits dest: run_stmt_sent)
  moreover have "pending_msgs w' = pending_msgs w \<or> pending_msgs w' = filter (\<lambda>m. msg_ID m \<noteq> i) (pending_msgs w)"
    using MarkPublished_effect [OF m] by (auto simp: pending_msgs_def pending_after_mark)
  moreover have "pending_msgs w' = filter (\<lambda>m. msg_ID m \<noteq> i) (pending_msgs w)" if "r = Inr x" for x
    using MarkPublished_Inr [OF m [unfolded that]] by (auto simp: pending_msgs_def pending_after_mark)
  ultimately show "True \<and> sent_msgs w' = sent_msgs w \<and>
      (pending_msgs w' = pending_msgs w \<or> pending_msgs w' = filter (\<lambda>m. msg_ID m \<noteq> i) (pending_msgs w)) \<and>
      ((\<exists>x. r = Inr x) \<longrightarrow> pending_msgs w' = filter (\<lambda>m. msg_ID m \<noteq> i) (pending_msgs w))"
    by blast
qed

text \<open>With the database and the broker up a drain publishes and marks the oldest hundred.\<close>

lemma drain_up:
  assumes "pg_up E" "\<And>h p. amqp_Publish E h p = None" "db_ok (db w)"
  shows "sent_msgs (drain (main_relay E i) w) =
      sent_msgs w @ map (\<lambda>m. (msg_RoutingKey m, msg_MessageID m, msg_Payload m)) (take 100 (pending_msgs w)) \<and>
    pending_msgs (drain (main_relay E i) w) = drop 100 (pending_msgs w)"
proof -
  have b: "relay_batch (main_relay E i) = 100" by (simp add: main_relay_def NewRelay_def)
  have "distinct (map msg_ID (filter (\<lambda>m. msg_PublishedAt m = None) (outbox (db w))))"
    using assms(3) by (intro distinct_map_filter) (simp add: db_ok_def outbox_ok_def)
  then have "distinct (map msg_ID (pending_msgs w))" by (simp add: pending_msgs_def distinct_map)
  from relay.drain_all [OF TrueI _ _ _ this, of E i, unfolded b] show ?thesis
    using assms(1,2)
    by (simp add: main_relay_def NewRelay_def Publish_def PublishWithContext_def MarkPublished_def
        FetchUnpublished_def run_stmt_up mark_stmt_def)
qed

lemma drain_messages_grows:
  "grows (db w) (db (drain_messages (main_relay E interval) ms w))"
proof (induction ms arbitrary: w)
  case (Cons m ms)
  obtain r w1 where pub: "Publish E (msg_RoutingKey m) (msg_MessageID m) (msg_Payload m) w = (r, w1)"
    by (cases "Publish E (msg_RoutingKey m) (msg_MessageID m) (msg_Payload m) w")
  have w1: "db w1 = db w"
    using pub PublishWithContext_frame(1) [of E _ w] unfolding Publish_def by (metis snd_conv)
  obtain q w2 where mk: "MarkPublished E (msg_ID m) w1 = (q, w2)" by (cases "MarkPublished E (msg_ID m) w1")
  have "grows (db w) (db w2)" using MarkPublished_grows [OF mk] w1 by simp
  then show ?case
    using Cons.IH [of w2] pub mk w1
    by (auto simp: main_relay_def NewRelay_def split: sum.splits intro: grows_trans)
qed simp

lemma drain_grows: "grows (db w) (db (drain (main_relay E interval) w))"
proof -
  obtain r w1 where f: "FetchUnpublished E 100 w = (r, w1)" by (cases "FetchUnpublished E 100 w")
  have "drain (main_relay E interval) w =
      (case r of Inl _ \<Rightarrow> w1 | Inr ms \<Rightarrow> drain_messages (main_relay E interval) ms w1)"
    using f by (simp add: drain_def main_relay_def NewRelay_def split: sum.split)
  then show ?thesis
    using FetchUnpublished_db [OF f] drain_messages_grows [of w1 E interval] by (auto split: sum.splits)
qed

end
