(* ===== verification/Reply_Consumer.thy ===== *)
theory Reply_Consumer
  imports Compensation Notification
begin

text \<open>
  The reply half of the saga (\<open>internal/orchestrator/reply_consumer.go\<close>): one reply is
  decoded, the saga is loaded, and a state guard decides between completing, compensating
  and doing nothing. The consumer retries a failed handler twice and drops the reply after
  that. Everything is stated against the \<open>compensator\<close> interface.
\<close>

section \<open>Operations\<close>

definition HandleReply :: "env \<Rightarrow> (nat \<Rightarrow> (world, unit) act) \<Rightarrow> json \<Rightarrow> (world, unit) act" where
  "HandleReply E mark_failed body w =
     (case unmarshal_SagaReply body of
        Inl e \<Rightarrow> (Inl (Errorf ''decode saga reply'' e), w)
      | Inr rep \<Rightarrow>
          (case GetByID E (rep_SagaID rep) w of
             (Inl e, w1) \<Rightarrow> (Inl (Errorf (''load saga '' @ rep_SagaID rep) e), w1)
           | (Inr None, w1) \<Rightarrow> (Inr (), w1)
           | (Inr (Some sg), w1) \<Rightarrow>
               (if rep_Status rep = SagaStatusSent
                then (if saga_State sg = StateSubscriptionCreated
                      then (case UpdateState E (saga_ID sg) StateCompleted [] w1 of
                              (Inl e, w2) \<Rightarrow> (Inl (Errorf (''complete saga '' @ saga_ID sg) e), w2)
                            | (Inr _, w2) \<Rightarrow> (Inr (), w2))
                      else (Inr (), w1))
                else if rep_Status rep = SagaStatusFailed
                then (if saga_State sg = StateSubscriptionCreated \<or> saga_State sg = StateCompensating
                      then compensate E mark_failed (saga_ID sg) (saga_SubscriptionID sg)
                             ''confirmation email failed'' w1
                      else (Inr (), w1))
                else (Inr (), w1))))"

text \<open>
  \<open>handleWithRetry\<close>: at most three attempts. \<open>handle_attempts n\<close> is the loop with \<open>n\<close>
  attempts left after the current one; a cancelled context ends the wait between attempts.
\<close>

fun handle_attempts ::
  "env \<Rightarrow> (nat \<Rightarrow> (world, unit) act) \<Rightarrow> json \<Rightarrow> nat \<Rightarrow> (world, unit) act" where
  "handle_attempts E mf body 0 w = HandleReply E mf body w"
| "handle_attempts E mf body (Suc n) w =
     (case HandleReply E mf body w of
        (Inr _, w1) \<Rightarrow> (Inr (), w1)
      | (Inl e, w1) \<Rightarrow>
          (case backoff_or_done E (200 * time_Millisecond) w1 of
             (True, w2) \<Rightarrow> (Inl (ErrorString ''context canceled''), w2)
           | (False, w2) \<Rightarrow> handle_attempts E mf body n w2))"

definition handleWithRetry :: "env \<Rightarrow> (nat \<Rightarrow> (world, unit) act) \<Rightarrow> json \<Rightarrow> (world, unit) act" where
  "handleWithRetry E mf body = handle_attempts E mf body 2"

text \<open>
  The select loop of \<open>Run\<close> over what its channels yield, one element per iteration: a
  delivery, the closed delivery channel, or a cancelled context. A handled reply is acked, a
  failed one nacked without requeue.
\<close>

datatype 'd received = Delivery 'd | ChannelClosed | ContextDone

fun reply_loop :: "env \<Rightarrow> (nat \<Rightarrow> (world, unit) act) \<Rightarrow> json received list \<Rightarrow> (world, unit) act" where
  "reply_loop E mf [] w = (Inr (), w)"
| "reply_loop E mf (ContextDone # ds) w = (Inr (), w)"
| "reply_loop E mf (ChannelClosed # ds) w = (Inl (ErrorString ''deliveries channel closed''), w)"
| "reply_loop E mf (Delivery body # ds) w =
     (case handleWithRetry E mf body w of
        (Inl e, w1) \<Rightarrow> reply_loop E mf ds (logged (Settled False) w1)
      | (Inr _, w1) \<Rightarrow> reply_loop E mf ds (logged (Settled True) w1))"

section \<open>Every path of the handler\<close>

text \<open>The saga a reply is about, if the reply decodes and the saga exists.\<close>

definition reply_saga :: "env \<Rightarrow> SagaReply \<Rightarrow> db \<Rightarrow> Saga option" where
  "reply_saga E rep d =
     (case pg_uuid E (rep_SagaID rep) of None \<Rightarrow> None | Some u \<Rightarrow> lookup_by saga_ID u (sagas d))"

lemma reply_saga_SomeD:
  assumes "reply_saga E rep d = Some sg" "uuid_column E"
  shows "pg_uuid E (rep_SagaID rep) = Some (saga_ID sg) \<and> pg_uuid E (saga_ID sg) = Some (saga_ID sg) \<and>
     lookup_by saga_ID (saga_ID sg) (sagas d) = Some sg"
  using assms by (auto simp: reply_saga_def uuid_column_def split: option.splits dest: lookup_by_SomeD)

definition compensates :: "SagaReply \<Rightarrow> Saga \<Rightarrow> bool" where
  "compensates rep sg \<longleftrightarrow> rep_Status rep = SagaStatusFailed \<and>
     (saga_State sg = StateSubscriptionCreated \<or> saga_State sg = StateCompensating)"

definition completes :: "SagaReply \<Rightarrow> Saga \<Rightarrow> bool" where
  "completes rep sg \<longleftrightarrow> rep_Status rep = SagaStatusSent \<and> saga_State sg = StateSubscriptionCreated"

lemma status_distinct [simp]: "SagaStatusFailed \<noteq> SagaStatusSent" "SagaStatusSent \<noteq> SagaStatusFailed"
  by (simp_all add: SagaStatusSent_def SagaStatusFailed_def)

text \<open>What the handler does once the reply is decoded and the saga is found.\<close>

lemma HandleReply_eq:
  assumes "unmarshal_SagaReply body = Inr rep" "GetByID E (rep_SagaID rep) w = (Inr (Some sg), w1)"
  shows "HandleReply E mf body w =
     (if completes rep sg
      then (case UpdateState E (saga_ID sg) StateCompleted [] w1 of
              (Inl e, w2) \<Rightarrow> (Inl (Errorf (''complete saga '' @ saga_ID sg) e), w2)
            | (Inr _, w2) \<Rightarrow> (Inr (), w2))
      else if compensates rep sg
      then compensate E mf (saga_ID sg) (saga_SubscriptionID sg) ''confirmation email failed'' w1
      else (Inr (), w1))"
  using assms by (simp add: HandleReply_def completes_def compensates_def)

lemma HandleReplyE:
  assumes "HandleReply E mf body w = (r, w')"
  obtains
    (bad) e where "r = Inl e" "db w' = db w" "infra e"
  | (idle) rep where "unmarshal_SagaReply body = Inr rep" "r = Inr ()" "db w' = db w"
      "\<And>sg. reply_saga E rep (db w) = Some sg \<Longrightarrow> \<not> completes rep sg \<and> \<not> compensates rep sg"
  | (complete) rep sg w1 q where "unmarshal_SagaReply body = Inr rep" "reply_saga E rep (db w) = Some sg"
      "completes rep sg" "db w1 = db w" "UpdateState E (saga_ID sg) StateCompleted [] w1 = (q, w')"
      "(r = Inr () \<and> q = Inr ()) \<or> (\<exists>p e. r = Inl (Errorf p e) \<and> q = Inl e)"
  | (undo) rep sg w1 where "unmarshal_SagaReply body = Inr rep" "reply_saga E rep (db w) = Some sg"
      "compensates rep sg" "db w1 = db w"
      "compensate E mf (saga_ID sg) (saga_SubscriptionID sg) ''confirmation email failed'' w1 = (r, w')"
proof (cases "unmarshal_SagaReply body")
  case (Inl e)
  then show ?thesis using assms unmarshal_SagaReply_infra [OF Inl]
    by (intro bad [of "Errorf ''decode saga reply'' e"]) (auto simp: HandleReply_def)
next
  case (Inr rep)
  obtain g w1 where get: "GetByID E (rep_SagaID rep) w = (g, w1)" by (cases "GetByID E (rep_SagaID rep) w")
  have w1: "db w1 = db w" using GetByID_db [OF get] .
  consider e where "g = Inl e" | "g = Inr None" | sg where "g = Inr (Some sg)"
    by (metis not_Some_eq sum.exhaust)
  then show ?thesis
  proof cases
    case (1 e)
    then show ?thesis using assms Inr get w1 GetByID_infra [of E _ w e w1]
      by (intro bad [of "Errorf (''load saga '' @ rep_SagaID rep) e"]) (auto simp: HandleReply_def)
  next
    case 2
    then show ?thesis
      using assms Inr get w1 GetByID_Inr [of E "rep_SagaID rep" w None w1]
      by (intro idle [OF Inr]) (auto simp: HandleReply_def reply_saga_def)
  next
    case (3 sg)
    have sg: "reply_saga E rep (db w) = Some sg"
      using GetByID_Inr [OF get [unfolded 3]] by (auto simp: reply_saga_def)
    note eq = HandleReply_eq [OF Inr get [unfolded 3], of mf]
    show ?thesis
    proof (cases "completes rep sg")
      case True
      obtain q w2 where up: "UpdateState E (saga_ID sg) StateCompleted [] w1 = (q, w2)"
        by (cases "UpdateState E (saga_ID sg) StateCompleted [] w1")
      show ?thesis
        using assms eq True up
        by (intro complete [OF Inr sg True w1, of q]) (auto split: sum.splits)
    next
      case False
      then show ?thesis
        using assms eq sg w1 idle [OF Inr] undo [OF Inr sg _ w1] by (auto split: if_splits)
    qed
  qed
qed

section \<open>The handler against the compensator interface\<close>

context compensator
begin

lemma HandleReply_grows:
  assumes "HandleReply E mark_failed body w = (r, w')"
  shows "grows (db w) (db w')"
  using assms
proof (cases rule: HandleReplyE)
  case (complete rep sg w1 q)
  then show ?thesis using UpdateState_grows [OF complete(5)] by simp
next
  case (undo rep sg w1)
  then show ?thesis using compensate_grows [OF undo(5)] by simp
qed auto

text \<open>Every outcome moves the sagas along their edges only.\<close>

lemma HandleReply_moves:
  assumes "HandleReply E mark_failed body w = (r, w')" "uuid_column E" "sagas_ok (sagas (db w))"
  shows "sagas_moved (sagas (db w)) (sagas (db w'))"
  using assms(1)
proof (cases rule: HandleReplyE)
  case (complete rep sg w1 q)
  note sg = reply_saga_SomeD [OF complete(2) assms(2)]
  have "saga_in (saga_ID sg) {StateSubscriptionCreated} (db w1)"
    using saga_in_lookup [OF assms(3), of "saga_ID sg" sg] sg complete(3,4) by (simp add: completes_def)
  from UpdateState_from [OF complete(5) _ this] sg
  have "sagas_moved (sagas (db w1)) (sagas (db w'))" by auto
  then show ?thesis using complete(4) by simp
next
  case (undo rep sg w1)
  note sg = reply_saga_SomeD [OF undo(2) assms(2)]
  have "saga_in (saga_ID sg) {StateSubscriptionCreated, StateCompensating} (db w1)"
    using saga_in_lookup [OF assms(3), of "saga_ID sg" sg] sg undo(3,4)
    by (auto simp: compensates_def saga_in_def)
  from compensate_moves [OF undo(5) _ this] sg
  have "sagas_moved (sagas (db w1)) (sagas (db w'))" by auto
  then show ?thesis using undo(4) by simp
qed auto

text \<open>
  A handled reply has been acted upon: its saga, if there is one, is not left in a state the
  reply would still change.
\<close>

lemma HandleReply_settles:
  assumes "HandleReply E mark_failed body w = (Inr x, w')" "uuid_column E" "sagas_ok (sagas (db w))"
    "unmarshal_SagaReply body = Inr rep" "reply_saga E rep (db w') = Some sg'"
  shows "\<not> completes rep sg' \<and> \<not> compensates rep sg'"
  using assms(1)
proof (cases rule: HandleReplyE)
  case (bad e)
  then show ?thesis by simp
next
  case (idle rep')
  then show ?thesis using assms(4,5) by simp
next
  case (complete rep' sg w1 q)
  note sg = reply_saga_SomeD [OF complete(2) assms(2)] and sg' = reply_saga_SomeD [OF assms(5,2)]
  have "UpdateState E (saga_ID sg) StateCompleted [] w1 = (Inr (), w')" using complete(5,6) by auto
  then have "saga_in (saga_ID sg) {StateCompleted} (db w')" using UpdateState_saga_in sg by blast
  moreover have "saga_ID sg' = saga_ID sg" using sg sg' complete(1) assms(4) by simp
  ultimately have "saga_State sg' = StateCompleted" using saga_in_lookupD [of _ _ "db w'" sg'] sg' by auto
  then show ?thesis by (simp add: completes_def compensates_def)
next
  case (undo rep' sg w1)
  note sg = reply_saga_SomeD [OF undo(2) assms(2)] and sg' = reply_saga_SomeD [OF assms(5,2)]
  have "saga_in (saga_ID sg) {StateFailed} (db w')" using compensate_Inr [OF undo(5)] sg by blast
  moreover have "saga_ID sg' = saga_ID sg" using sg sg' undo(1) assms(4) by simp
  ultimately have "saga_State sg' = StateFailed" using saga_in_lookupD [of _ _ "db w'" sg'] sg' by auto
  then show ?thesis by (simp add: completes_def compensates_def)
qed

text \<open>A reply that changes nothing any more: the redelivered reply is a no-op.\<close>

lemma HandleReply_noop:
  assumes "HandleReply E mark_failed body w = (r, w')"
    "\<And>rep sg. unmarshal_SagaReply body = Inr rep \<Longrightarrow> reply_saga E rep (db w) = Some sg \<Longrightarrow>
       \<not> completes rep sg \<and> \<not> compensates rep sg"
  shows "db w' = db w"
  using assms(1) by (cases rule: HandleReplyE) (use assms(2) in auto)

lemma HandleReply_idempotent:
  assumes "HandleReply E mark_failed body w = (Inr x, w1)" "uuid_column E" "sagas_ok (sagas (db w))"
    "HandleReply E mark_failed body w1 = (r, w2)"
  shows "db w2 = db w1"
  by (rule HandleReply_noop [OF assms(4)]) (rule HandleReply_settles [OF assms(1-3)])

text \<open>The retry loop keeps what every attempt keeps.\<close>

lemma handle_attempts_keeps:
  assumes "handle_attempts E mark_failed body n w = (r, w')" "P (db w)"
    "\<And>v q v'. P (db v) \<Longrightarrow> HandleReply E mark_failed body v = (q, v') \<Longrightarrow> P (db v')"
  shows "P (db w')"
  using assms(1,2)
proof (induction n arbitrary: w)
  case 0
  then show ?case using assms(3) by simp
next
  case (Suc n)
  obtain q w1 where h: "HandleReply E mark_failed body w = (q, w1)"
    by (cases "HandleReply E mark_failed body w")
  have p1: "P (db w1)" using assms(3) Suc.prems(2) h by blast
  show ?case
  proof (cases q)
    case (Inr x)
    then show ?thesis using Suc.prems(1) h p1 by simp
  next
    case (Inl e)
    obtain b w2 where bo: "backoff_or_done E (200 * time_Millisecond) w1 = (b, w2)"
      by (cases "backoff_or_done E (200 * time_Millisecond) w1")
    have "P (db w2)" using p1 bo backoff_or_done_db [of E "200 * time_Millisecond" w1] by simp
    then show ?thesis
      using Suc.prems(1) h Inl bo Suc.IH by (cases b) auto
  qed
qed

lemma handleWithRetry_grows:
  assumes "handleWithRetry E mark_failed body w = (r, w')"
  shows "grows (db w) (db w')"
  by (rule handle_attempts_keeps [OF assms [unfolded handleWithRetry_def], where P = "grows (db w)"])
    (auto dest: HandleReply_grows intro: grows_trans)

lemma handleWithRetry_moves:
  assumes "handleWithRetry E mark_failed body w = (r, w')" "uuid_column E" "db_ok (db w)"
  shows "sagas_moved (sagas (db w)) (sagas (db w'))"
proof -
  have "db_ok (db w') \<and> sagas_moved (sagas (db w)) (sagas (db w'))"
  proof (rule handle_attempts_keeps [OF assms(1) [unfolded handleWithRetry_def],
        where P = "\<lambda>d. db_ok d \<and> sagas_moved (sagas (db w)) (sagas d)"])
    show "db_ok (db w) \<and> sagas_moved (sagas (db w)) (sagas (db w))" using assms(3) by simp
  next
    fix v q v'
    assume v: "db_ok (db v) \<and> sagas_moved (sagas (db w)) (sagas (db v))"
      and h: "HandleReply E mark_failed body v = (q, v')"
    then show "db_ok (db v') \<and> sagas_moved (sagas (db w)) (sagas (db v'))"
      using grows_ok [OF HandleReply_grows [OF h]] HandleReply_moves [OF h assms(2)] sagas_moved_trans
      by (auto simp: db_ok_def)
  qed
  then show ?thesis by simp
qed

end

end
