(* ===== verification/Saga_System.thy ===== *)
theory Saga_System
  imports Http_Api Scanner Sweeper Outbox_Relay Reply_Consumer
begin

text \<open>
  The whole system as a step relation: HTTP requests, relay drains, sweeper passes, saga
  replies, release scans and notifier deliveries in any order, each as one step on the
  world. The invariant says that the schema constraints hold, that saga ids are canonical,
  and, on the broker transport, that every saga has its command in the outbox; the relation
  between two reachable states says that sagas only move along their edges and that no saga
  and no command is ever lost.
\<close>

section \<open>Invariant and evolution\<close>

text \<open>\<open>covers E g m\<close>: the message \<open>m\<close> is the confirmation command of the saga \<open>g\<close>.\<close>

definition covers :: "env \<Rightarrow> Saga \<Rightarrow> Message \<Rightarrow> bool" where
  "covers E g m \<longleftrightarrow> msg_SagaID m = Some (saga_ID g) \<and> msg_RoutingKey m = RoutingConfirm \<and>
     (\<exists>req. unmarshal_ConfirmationRequest (msg_Payload m) = Inr req \<and>
        pg_uuid E (cr_SagaID req) = Some (saga_ID g) \<and> cr_To req = saga_Email g)"

definition covered :: "env \<Rightarrow> db \<Rightarrow> bool" where
  "covered E d \<longleftrightarrow> (\<forall>g\<in>set (sagas d). \<exists>m\<in>set (outbox d). covers E g m)"

definition sys_inv :: "env \<Rightarrow> bool \<Rightarrow> db \<Rightarrow> bool" where
  "sys_inv E broker d \<longleftrightarrow> db_ok d \<and> saga_ids_canonical E d \<and> (broker \<longrightarrow> covered E d)"

text \<open>A message keeps everything but its publication time.\<close>

definition msg_kept :: "Message \<Rightarrow> Message \<Rightarrow> bool" where
  "msg_kept m m' \<longleftrightarrow> m' = m\<lparr>msg_PublishedAt := msg_PublishedAt m'\<rparr>"

definition sagas_evolve :: "Saga list \<Rightarrow> Saga list \<Rightarrow> bool" where
  "sagas_evolve gs gs' \<longleftrightarrow> (\<exists>ms new. gs' = ms @ new \<and> sagas_moved gs ms)"

definition outbox_evolve :: "Message list \<Rightarrow> Message list \<Rightarrow> bool" where
  "outbox_evolve ms ms' \<longleftrightarrow> (\<exists>ks new. ms' = ks @ new \<and> list_all2 msg_kept ms ks)"

lemma msg_kept_refl [simp]: "msg_kept m m"
  by (simp add: msg_kept_def)

lemma msg_kept_trans: "msg_kept a b \<Longrightarrow> msg_kept b c \<Longrightarrow> msg_kept a c"
  unfolding msg_kept_def by (cases a; cases b; cases c) simp

lemma list_all2_prefix_trans:
  assumes trans: "\<And>x y z. P x y \<Longrightarrow> P y z \<Longrightarrow> P x z"
    and "\<exists>us new. b = us @ new \<and> list_all2 P a us" "\<exists>us new. c = us @ new \<and> list_all2 P b us"
  shows "\<exists>us new. c = us @ new \<and> list_all2 P a us"
proof -
  from assms(2,3) obtain us new vs new' where b: "b = us @ new" "list_all2 P a us"
    and c: "c = vs @ new'" "list_all2 P (us @ new) vs" by auto
  from c(2) obtain us' rest where v: "vs = us' @ rest" "list_all2 P us us'" by (auto simp: list_all2_append1)
  have "list_all2 P a us'" using trans by (rule list_all2_trans [OF _ b(2) v(2)])
  then show ?thesis using c(1) v(1) by (intro exI [of _ us'] exI [of _ "rest @ new'"]) simp
qed

lemma sagas_moved_back:
  "sagas_moved gs gs' \<Longrightarrow> g' \<in> set gs' \<Longrightarrow> \<exists>g\<in>set gs. saga_moved g g'"
  unfolding sagas_moved_def by (induction rule: list_all2_induct) auto

lemma sagas_evolve_refl [simp]: "sagas_evolve gs gs"
  unfolding sagas_evolve_def by (metis append_Nil2 sagas_moved_refl)

lemma sagas_evolve_trans: "sagas_evolve a b \<Longrightarrow> sagas_evolve b c \<Longrightarrow> sagas_evolve a c"
  unfolding sagas_evolve_def sagas_moved_def by (rule list_all2_prefix_trans [OF saga_moved_trans])

lemma outbox_evolve_refl [simp]: "outbox_evolve ms ms"
  unfolding outbox_evolve_def by (metis append_Nil2 list_all2_refl msg_kept_refl)

lemma outbox_evolve_trans: "outbox_evolve a b \<Longrightarrow> outbox_evolve b c \<Longrightarrow> outbox_evolve a c"
  unfolding outbox_evolve_def by (rule list_all2_prefix_trans [OF msg_kept_trans])

lemma sagas_moved_evolve: "sagas_moved gs gs' \<Longrightarrow> sagas_evolve gs gs'"
  unfolding sagas_evolve_def by (metis append_Nil2)

lemma sagas_evolve_snoc: "sagas_evolve gs (gs @ new)"
  unfolding sagas_evolve_def by (metis sagas_moved_refl)

lemma outbox_evolve_snoc: "outbox_evolve ms (ms @ new)"
  unfolding outbox_evolve_def by (metis list_all2_refl msg_kept_refl)

lemma outbox_evolve_upd:
  assumes "\<And>m. msg_kept m (f m)"
  shows "outbox_evolve ms (upd_rows P f ms)"
proof -
  have "list_all2 msg_kept ms (upd_rows P f ms)" using assms by (induction ms) auto
  then show ?thesis unfolding outbox_evolve_def by (metis append_Nil2)
qed

lemma covers_kept: "covers E g m \<Longrightarrow> saga_moved g g' \<Longrightarrow> msg_kept m m' \<Longrightarrow> covers E g' m'"
  unfolding covers_def saga_moved_def msg_kept_def by (cases m; cases m') auto

lemma outbox_evolve_covers:
  assumes "outbox_evolve ms ms'" "m \<in> set ms" "covers E g m" "saga_moved g g'"
  shows "\<exists>m'\<in>set ms'. covers E g' m'"
proof -
  obtain ks new where ks: "ms' = ks @ new" "list_all2 msg_kept ms ks"
    using assms(1) by (auto simp: outbox_evolve_def)
  obtain i where i: "i < length ms" "m = ms ! i" using assms(2) by (auto simp: in_set_conv_nth)
  then have "msg_kept m (ks ! i)" "ks ! i \<in> set ks"
    using ks(2) by (auto simp: list_all2_conv_all_nth)
  then show ?thesis using covers_kept [OF assms(3,4)] ks(1) by auto
qed

text \<open>The relation every operation realises, for an environment whose UUID column is as documented.\<close>

definition evo :: "env \<Rightarrow> bool \<Rightarrow> db \<Rightarrow> db \<Rightarrow> bool" where
  "evo E broker d d' \<longleftrightarrow> (uuid_column E \<and> sys_inv E broker d \<longrightarrow>
     sys_inv E broker d' \<and> sagas_evolve (sagas d) (sagas d') \<and> outbox_evolve (outbox d) (outbox d'))"

lemma evo_refl [simp, intro]: "evo E b d d"
  by (simp add: evo_def)

lemma evo_trans [trans]: "evo E b x y \<Longrightarrow> evo E b y z \<Longrightarrow> evo E b x z"
  by (auto simp: evo_def intro: sagas_evolve_trans outbox_evolve_trans)

text \<open>An operation that moves sagas legally and keeps the messages.\<close>

lemma sagas_moved_canonical:
  assumes "sagas_moved (sagas d) (sagas d')" "saga_ids_canonical E d"
  shows "saga_ids_canonical E d'"
  unfolding saga_ids_canonical_def
proof
  fix g' assume "g' \<in> set (sagas d')"
  then obtain g where "g \<in> set (sagas d)" "saga_moved g g'"
    using sagas_moved_back [OF assms(1)] by blast
  then show "pg_uuid E (saga_ID g') = Some (saga_ID g')"
    using assms(2) by (auto simp: saga_ids_canonical_def saga_moved_def)
qed

lemma evoI:
  assumes grows: "grows d d'"
    and moved: "uuid_column E \<Longrightarrow> db_ok d \<Longrightarrow> saga_ids_canonical E d \<Longrightarrow> sagas_moved (sagas d) (sagas d')"
    and out: "outbox_evolve (outbox d) (outbox d')"
  shows "evo E b d d'"
  unfolding evo_def
proof
  assume a: "uuid_column E \<and> sys_inv E b d"
  then have m: "sagas_moved (sagas d) (sagas d')" using moved by (simp add: sys_inv_def)
  have "covered E d'" if cov: "covered E d"
    unfolding covered_def
  proof
    fix g' assume "g' \<in> set (sagas d')"
    then obtain g where g: "g \<in> set (sagas d)" "saga_moved g g'"
      using sagas_moved_back [OF m] by blast
    then obtain k where "k \<in> set (outbox d)" "covers E g k" using cov by (auto simp: covered_def)
    then show "\<exists>k\<in>set (outbox d'). covers E g' k" using outbox_evolve_covers [OF out] g(2) by blast
  qed
  then show "sys_inv E b d' \<and> sagas_evolve (sagas d) (sagas d') \<and> outbox_evolve (outbox d) (outbox d')"
    using a grows_ok [OF grows] sagas_moved_canonical [OF m] sagas_moved_evolve [OF m] out
    by (auto simp: sys_inv_def)
qed

lemma evo_frame:
  "grows d d' \<Longrightarrow> sagas d' = sagas d \<Longrightarrow> outbox d' = outbox d \<Longrightarrow> evo E b d d'"
  by (rule evoI) auto

text \<open>Step T1: a saga appears together with its command.\<close>

lemma evo_t1:
  assumes "grows d d'" "t1_written E n email repo token url d d'"
  shows "evo E b d d'"
  unfolding evo_def
proof
  assume a: "uuid_column E \<and> sys_inv E b d"
  obtain sagaID u t where u: "pg_uuid E sagaID = Some u" and
    s: "sagas d' = sagas d @ [new_saga u n email repo t]" and
    o: "outbox d' = outbox d @ [confirm_msg (Suc (outbox_seq d)) sagaID (Some u) email token url t]"
    using assms(2) by (auto simp: t1_written_def)
  have "pg_uuid E u = Some u" using a u by (auto simp: uuid_column_def)
  then have "saga_ids_canonical E d'" using a by (auto simp: s sys_inv_def saga_ids_canonical_def new_saga_def)
  moreover have "covers E (new_saga u n email repo t) (confirm_msg (Suc (outbox_seq d)) sagaID (Some u) email token url t)"
    using u by (simp add: covers_def new_saga_def confirm_msg_def)
  then have "covered E d \<Longrightarrow> covered E d'" by (auto simp: covered_def s o)
  ultimately show "sys_inv E b d' \<and> sagas_evolve (sagas d) (sagas d') \<and> outbox_evolve (outbox d) (outbox d')"
    using a grows_ok [OF assms(1)] by (auto simp: sys_inv_def s o sagas_evolve_snoc outbox_evolve_snoc)
qed

section \<open>Every operation evolves the system\<close>

lemma StartConfirmation_evo:
  assumes "StartConfirmation E None email repo token url w = (r, w')"
  shows "evo E b (db w) (db w')"
proof (cases "uuid_column E")
  case True
  note g = StartConfirmation_broker_grows [OF assms]
  from StartConfirmation_T1 [OF assms True] show ?thesis
    using evo_t1 [OF g] evo_frame [OF g] by (auto simp: tables_same_def)
qed (simp add: evo_def)

lemma ReactivateConfirmation_evo:
  assumes "ReactivateConfirmation E None sid email repo token url w = (r, w')"
  shows "evo E b (db w) (db w')"
proof (cases "uuid_column E")
  case True
  note g = ReactivateConfirmation_broker_grows [OF assms]
  from ReactivateConfirmation_T1 [OF assms True] show ?thesis
    using evo_t1 [OF g] evo_frame [OF g] by (auto simp: tables_same_def)
qed (simp add: evo_def)

lemma HandleReply_evo:
  assumes "handleWithRetry E (MarkFailed E) body w = (r, w')"
  shows "evo E b (db w) (db w')"
proof (rule evoI)
  show "grows (db w) (db w')" using store_compensator.handleWithRetry_grows [OF assms] .
  show "sagas_moved (sagas (db w)) (sagas (db w'))" if "uuid_column E" "db_ok (db w)"
    using store_compensator.handleWithRetry_moves [OF assms that] .
  have out: "outbox (db v') = outbox (db v)" if "HandleReply E (MarkFailed E) body v = (q, v')" for v q v'
    using that
  proof (cases rule: HandleReplyE)
    case (complete rep sg w1 q)
    then show ?thesis using UpdateState_frame [OF complete(5)] by simp
  next
    case (undo rep sg w1)
    then show ?thesis
      unfolding compensate_def
      by (auto split: prod.splits sum.splits dest!: UpdateState_frame MarkFailed_effect)
  qed auto
  have "outbox (db w') = outbox (db w)"
    by (rule store_compensator.handle_attempts_keeps [OF assms [unfolded handleWithRetry_def],
          where P = "\<lambda>d. outbox d = outbox (db w)"]) (auto dest: out)
  then show "outbox_evolve (outbox (db w)) (outbox (db w'))" by simp
qed

lemma drain_frame:
  "sagas (db (drain (main_relay E i) w)) = sagas (db w) \<and>
   outbox_evolve (outbox (db w)) (outbox (db (drain (main_relay E i) w)))"
proof -
  have "sagas (db (drain_messages (main_relay E i) ms w)) = sagas (db w) \<and>
      outbox_evolve (outbox (db w)) (outbox (db (drain_messages (main_relay E i) ms w)))" for ms w
  proof (induction ms arbitrary: w)
    case (Cons m ms)
    obtain r w1 where pub: "Publish E (msg_RoutingKey m) (msg_MessageID m) (msg_Payload m) w = (r, w1)"
      by (cases "Publish E (msg_RoutingKey m) (msg_MessageID m) (msg_Payload m) w")
    have w1: "db w1 = db w"
      using PublishWithContext_trace [OF pub [unfolded Publish_def]] by (simp add: quiet_def)
    obtain q w2 where mk: "MarkPublished E (msg_ID m) w1 = (q, w2)" by (cases "MarkPublished E (msg_ID m) w1")
    have "sagas (db w2) = sagas (db w) \<and> outbox_evolve (outbox (db w)) (outbox (db w2))"
      using MarkPublished_effect [OF mk] w1 by (auto intro!: outbox_evolve_upd simp: msg_kept_def)
    then show ?case
      using Cons.IH [of w2] pub mk w1
      by (auto simp: main_relay_def NewRelay_def split: sum.splits intro: outbox_evolve_trans)
  qed simp
  note dm = this
  obtain r w1 where f: "FetchUnpublished E 100 w = (r, w1)" by (cases "FetchUnpublished E 100 w")
  have "drain (main_relay E i) w = (case r of Inl _ \<Rightarrow> w1 | Inr ms \<Rightarrow> drain_messages (main_relay E i) ms w1)"
    using f by (simp add: drain_def main_relay_def NewRelay_def split: sum.split)
  then show ?thesis using FetchUnpublished_db [OF f] dm [of _ w1] by (auto split: sum.splits)
qed

lemma drain_evo: "evo E b (db w) (db (drain (main_relay E i) w))"
  using drain_frame [of E i w] by (intro evoI drain_grows) auto

lemma sweep_outbox:
  "outbox_evolve (outbox (db w)) (outbox (db (sweep_sagas E (MarkFailed E) sgs w)))"
proof (induction sgs arbitrary: w)
  case (Cons sg sgs)
  have "outbox_evolve (outbox (db w)) (outbox (db (sweep_saga E (MarkFailed E) sg w)))"
  proof (cases "saga_State sg")
    case StateSubscriptionCreated
    obtain r w1 where rq: "Requeue E (saga_ID sg) w = (r, w1)" by (cases "Requeue E (saga_ID sg) w")
    show ?thesis
      using Requeue_effect [OF rq] rq StateSubscriptionCreated
      by (auto simp: sweep_saga_def intro!: outbox_evolve_upd simp: msg_kept_def)
  next
    case StateCompensating
    obtain q w1 where mk: "MarkFailed E (saga_SubscriptionID sg) w = (q, w1)"
      by (cases "MarkFailed E (saga_SubscriptionID sg) w")
    obtain s w2 where up: "UpdateState E (saga_ID sg) StateFailed ''compensation finished by sweeper'' w1 = (s, w2)"
      by (cases "UpdateState E (saga_ID sg) StateFailed ''compensation finished by sweeper'' w1")
    have "outbox (db w1) = outbox (db w)" using MarkFailed_effect [OF mk] by auto
    then show ?thesis
      using StateCompensating mk up UpdateState_frame [OF up]
      by (cases q) (simp_all add: sweep_saga_def)
  qed (simp_all add: sweep_saga_def)
  then show ?case using Cons.IH outbox_evolve_trans by auto
qed simp

lemma Sweep_outbox:
  assumes "Sweep E (MarkFailed E) stale w = (r, w')"
  shows "outbox_evolve (outbox (db w)) (outbox (db w'))"
  using assms
proof (cases rule: store_compensator.Sweep_cases)
  case (swept t w1 w2 gs)
  then show ?thesis using sweep_outbox [of w2 E gs] by simp
qed simp

lemma Sweep_keeps_messages:
  assumes "Sweep E (MarkFailed E) stale w = (r, w')" "m \<in> set (outbox (db w))"
  shows "\<exists>m'\<in>set (outbox (db w')). msg_kept m m'"
proof -
  obtain ks new where "outbox (db w') = ks @ new" "list_all2 msg_kept (outbox (db w)) ks"
    using Sweep_outbox [OF assms(1)] by (auto simp: outbox_evolve_def)
  moreover have "\<exists>m'\<in>set ks. msg_kept m m'" using \<open>list_all2 msg_kept (outbox (db w)) ks\<close> assms(2)
    by (induction rule: list_all2_induct) auto
  ultimately show ?thesis by auto
qed

lemma Sweep_evo:
  assumes "Sweep E (MarkFailed E) stale w = (r, w')"
  shows "evo E b (db w) (db w')"
proof (rule evoI)
  show "grows (db w) (db w')" using store_compensator.Sweep_grows [OF assms] .
  show "sagas_moved (sagas (db w)) (sagas (db w'))" if "db_ok (db w)" "saga_ids_canonical E (db w)"
    using store_compensator.Sweep_moves [OF assms _ that(2)] that(1) by (simp add: db_ok_def)
  show "outbox_evolve (outbox (db w)) (outbox (db w'))" using assms by (rule Sweep_outbox)
qed

text \<open>The synchronous transport: the saga appears without a command and is then settled.\<close>

context sync_sender
begin

lemma createSubscriptionAndSaga_evo:
  assumes "createSubscriptionAndSaga E email repo token rid w = (r, w')"
  shows "evo E False (db w) (db w') \<and> (\<forall>n i. r = Inr (n, i) \<and> db_ok (db w) \<longrightarrow>
      (\<exists>u. pg_uuid E i = Some u \<and> saga_in u {StateSubscriptionCreated} (db w')))"
proof -
  note g = createSubscriptionAndSaga_grows [OF assms]
  consider (same) e where "tables_same (db w) (db w')" "r = Inl e"
    | (new) n i u t where "pg_uuid E i = Some u" "u \<notin> saga_ID ` set (sagas (db w))"
      "sagas (db w') = sagas (db w) @ [new_saga u n email repo t]" "outbox (db w') = outbox (db w)"
      "r = Inr (n, i) \<or> (\<exists>e. r = Inl e \<and> infra e)"
    using createSubscriptionAndSaga_T1 [OF assms] by blast
  then show ?thesis
  proof cases
    case same
    then show ?thesis using evo_frame [OF g] by (simp add: tables_same_def)
  next
    case (new n i u t)
    note u = new(1,2) and s = new(3) and o = new(4) and r = new(5)
    have "evo E False (db w) (db w')"
      unfolding evo_def sys_inv_def
      using grows_ok [OF g] u(1) s o
      by (auto simp: saga_ids_canonical_def uuid_column_def new_saga_def sagas_evolve_snoc)
    moreover have "saga_in u {StateSubscriptionCreated} (db w')"
      unfolding saga_in_def using u(2) s by (auto simp: new_saga_def)
    ultimately show ?thesis using u(1) r by auto
  qed
qed

lemma dispatchSync_evo:
  assumes "dispatchSync E send i n email repo url w = (r, w')" "pg_uuid E i = Some u"
    "saga_in u {StateSubscriptionCreated} (db w)"
  shows "evo E False (db w) (db w')"
proof (rule evoI)
  show "grows (db w) (db w')" using dispatchSync_grows [OF assms(1)] .
  show "sagas_moved (sagas (db w)) (sagas (db w'))" using dispatchSync_moves [OF assms] .
  show "outbox_evolve (outbox (db w)) (outbox (db w'))"
    using assms(1) unfolding dispatchSync_def compensateSync_def compensate_def
    by (auto split: prod.splits sum.splits dest!: send_db UpdateState_frame MarkFailed_effect)
qed

lemma create_dispatch_evo:
  assumes "createSubscriptionAndSaga E email repo token rid w = (Inr (n, i), w1)"
    "dispatchSync E send i n email repo url w1 = (r, w')"
  shows "evo E False (db w) (db w')"
proof (cases "db_ok (db w)")
  case True
  note c = createSubscriptionAndSaga_evo [OF assms(1)]
  then obtain u where "pg_uuid E i = Some u" "saga_in u {StateSubscriptionCreated} (db w1)" using True by auto
  from dispatchSync_evo [OF assms(2) this] show ?thesis using c evo_trans by blast
qed (simp add: evo_def sys_inv_def)

lemma StartConfirmation_sync_evo:
  assumes "StartConfirmation E (Some send) email repo token url w = (r, w')"
  shows "evo E False (db w) (db w')"
  using assms createSubscriptionAndSaga_evo create_dispatch_evo
  by (fastforce simp: StartConfirmation_def startConfirmationSync_def split: prod.splits sum.splits)

lemma ReactivateConfirmation_sync_evo:
  assumes "ReactivateConfirmation E (Some send) sid email repo token url w = (r, w')"
  shows "evo E False (db w) (db w')"
  using assms createSubscriptionAndSaga_evo create_dispatch_evo
  by (fastforce simp: ReactivateConfirmation_def reactivateConfirmationSync_def split: prod.splits sum.splits)

end

section \<open>The service against a relation its dependencies realise\<close>

text \<open>The two use cases behind the links in the mails need only half of the interface.\<close>

locale token_steps = service_backend svc for svc +
  fixes rel :: "db \<Rightarrow> db \<Rightarrow> bool"
  assumes rel_refl: "rel d d" and rel_trans: "rel x y \<Longrightarrow> rel y z \<Longrightarrow> rel x z"
    and rel_confirm: "svc_ConfirmSubscription svc token w = (rc, wc) \<Longrightarrow> rel (db w) (db wc)"
    and rel_delete: "svc_DeleteSubscription svc token w = (rd, wd) \<Longrightarrow> rel (db w) (db wd)"
    and rel_register: "svc_RegisterRepo svc repo w = (rr, wr) \<Longrightarrow> rel (db w) (db wr)"
begin

lemma Confirm_rel:
  assumes "Confirm svc token w = (r, w')"
  shows "rel (db w) (db w')"
  using assms
  by (auto simp: Confirm_def rel_refl split: sum.splits prod.splits if_splits option.splits
      dest!: by_token rel_confirm rel_register intro: rel_trans)

lemma Unsubscribe_rel:
  assumes "Unsubscribe svc token w = (r, w')"
  shows "rel (db w) (db w')"
  using assms
  by (auto simp: Unsubscribe_def rel_refl split: sum.splits prod.splits option.splits dest!: by_token rel_delete)

end

locale service_steps = token_steps svc rel for svc rel +
  assumes rel_start: "svc_StartConfirmation svc email repo token url w = (rs, ws) \<Longrightarrow> rel (db w) (db ws)"
    and rel_reactivate: "svc_ReactivateConfirmation svc sid email repo token url w = (ra, wa) \<Longrightarrow> rel (db w) (db wa)"
begin

lemma subscribe_known_rel:
  assumes "subscribe_known E svc email repo w = (r, w')"
  shows "rel (db w) (db w')"
proof -
  obtain g w1 where look: "svc_GetSubscriptionByEmailAndRepo svc email repo w = (g, w1)"
    by (cases "svc_GetSubscriptionByEmailAndRepo svc email repo w")
  have d: "db w1 = db w" using by_pair [OF look] by simp
  show ?thesis
    using assms look d
    by (auto simp: subscribe_known_def new_uuid_def Let_def rel_refl
        split: sum.splits prod.splits option.splits if_splits dest: rel_start rel_reactivate)
qed

lemma Subscribe_rel:
  assumes "Subscribe E svc email repo w = (r, w')"
  shows "rel (db w) (db w')"
  using assms
  by (auto simp: Subscribe_def rel_refl split: sum.splits prod.splits if_splits dest!: github subscribe_known_rel)

text \<open>A request as a whole: the endpoints call nothing but these operations and the listing.\<close>

lemma serve_rel:
  assumes get: "\<And>email v q v'. svc_GetSubscriptionsByEmail svc email v = (q, v') \<Longrightarrow> db v' = db v"
    and run: "serve E cf svc r ep w = ((rid, resp), w')"
  shows "rel (db w) (db w')"
proof (rule serve_routed [OF run])
  fix w1 w2
  assume w1: "route E cf svc r ep w1 = (resp, w2)" "db w1 = db w" "db w' = db w2"
  have "rel (db w1) (db (snd (run_endpoint E cf svc r ep w1)))"
    by (cases ep)
      (auto simp: handler_Subscribe_def handler_ConfirmSubscription_def handler_Unsubscribe_def
        handleTokenAction_def handler_GetSubscriptions_def GetSubscriptions_def rel_refl
        split: option.splits prod.splits sum.splits
        dest: Subscribe_rel Confirm_rel Unsubscribe_rel get)
  then show ?thesis
    using w1 rel_refl [of "db w"] by (auto simp: route_def split: if_splits option.splits)
qed

end

interpretation main_steps: service_steps "main_service E tr c ca base" "evo E (tr = None)" for E tr c ca base
proof
  show "evo E (tr = None) d d" for d by simp
  show "evo E (tr = None) x y \<Longrightarrow> evo E (tr = None) y z \<Longrightarrow> evo E (tr = None) x z" for x y z
    by (rule evo_trans)
  show "svc_ConfirmSubscription (main_service E tr c ca base) token w = (rc, wc) \<Longrightarrow> evo E (tr = None) (db w) (db wc)" for token w rc wc
    using main_svc.confirm evo_frame by blast
  show "svc_DeleteSubscription (main_service E tr c ca base) token w = (rd, wd) \<Longrightarrow> evo E (tr = None) (db w) (db wd)" for token w rd wd
    using main_svc.delete evo_frame by blast
  show "svc_RegisterRepo (main_service E tr c ca base) repo w = (rr, wr) \<Longrightarrow> evo E (tr = None) (db w) (db wr)" for repo w rr wr
    using main_svc.register evo_frame by blast
next
  fix email repo token url and w :: world and rs ws
  assume "svc_StartConfirmation (main_service E tr c ca base) email repo token url w = (rs, ws)"
  then show "evo E (tr = None) (db w) (db ws)"
    using StartConfirmation_evo [of E email repo token url w rs ws]
      grpc.StartConfirmation_sync_evo [of E E _ _ email repo token url w rs ws]
    by (cases tr) (simp_all add: main_service_def sender_of_def)
next
  fix sid email repo token url and w :: world and ra wa
  assume "svc_ReactivateConfirmation (main_service E tr c ca base) sid email repo token url w = (ra, wa)"
  then show "evo E (tr = None) (db w) (db wa)"
    using ReactivateConfirmation_evo [of E sid email repo token url w ra wa]
      grpc.ReactivateConfirmation_sync_evo [of E E _ _ sid email repo token url w ra wa]
    by (cases tr) (simp_all add: main_service_def sender_of_def)
qed

lemma main_listing_db:
  "svc_GetSubscriptionsByEmail (main_service E tr c ca base) email w = (q, w') \<Longrightarrow> db w' = db w"
  using lookup_stmt by (fastforce simp: main_service_def GetSubscriptionsByEmail_def)

lemma serve_evo:
  "serve E cf (main_service E tr c ca base) r ep w = ((rid, resp), w') \<Longrightarrow> evo E (tr = None) (db w) (db w')"
  by (rule main_steps.serve_rel [OF main_listing_db])

section \<open>The step relation\<close>

text \<open>What is fixed at start-up: the wiring and the intervals.\<close>

record deployment =
  dep_transport :: "notifier_addr option"
  dep_client :: Client
  dep_cache :: "Cache option"
  dep_base :: string
  dep_api :: api_config
  dep_stale :: duration
  dep_consumer :: "SMTPSender \<times> duration"

abbreviation dep_service :: "env \<Rightarrow> deployment \<Rightarrow> Service" where
  "dep_service E D \<equiv> main_service E (dep_transport D) (dep_client D) (dep_cache D) (dep_base D)"

inductive sys_step :: "env \<Rightarrow> deployment \<Rightarrow> world \<Rightarrow> world \<Rightarrow> bool" for E D where
  request: "serve E (dep_api D) (dep_service E D) r ep w = ((rid, resp), w') \<Longrightarrow> sys_step E D w w'"
| relay: "sys_step E D w (drain (main_relay E i) w)"
| sweep: "Sweep E (MarkFailed E) (dep_stale D) w = (r, w') \<Longrightarrow> sys_step E D w w'"
| reply: "handleWithRetry E (MarkFailed E) body w = (r, w') \<Longrightarrow> sys_step E D w w'"
| release: "sys_step E D w
     (scan (main_scanner E (dep_transport D) (dep_client D) (dep_cache D) (dep_base D) i) w)"
| notify: "handle E (NewConsumer s (redisDeduper E t)) d w = (r, w') \<Longrightarrow> sys_step E D w w'"
| outside: "db w' = db w \<Longrightarrow> sys_step E D w w'"

inductive_cases sys_stepE: "sys_step E D w w'"

abbreviation reaches :: "env \<Rightarrow> deployment \<Rightarrow> world \<Rightarrow> world \<Rightarrow> bool" where
  "reaches E D \<equiv> (sys_step E D)\<^sup>*\<^sup>*"

lemma sys_step_reaches: "sys_step E D w w' \<Longrightarrow> reaches E D w w'"
  by (rule r_into_rtranclp)

lemma SendReleaseMail_quiet: "smtp_SendReleaseNotification E s to repo tag url w = (r, w') \<Longrightarrow> quiet w w'"
  unfolding smtp_SendReleaseNotification_def sendEmail_def by (blast dest: SendMail_trace)

lemma sendWithRetry_db:
  assumes "sendWithRetry E c (SendConfirmationEmail E s to url) w = (r, w')"
  shows "db w' = db w"
proof (cases "maxAttempts c")
  case 0
  then show ?thesis using assms by (simp add: sendWithRetry_def)
next
  case (Suc n)
  then show ?thesis using sendWithRetry_trace [OF assms] by (simp add: quiet_def)
qed

lemma dispatch_db:
  assumes "dispatch E c d w = (r, w')"
  shows "db w' = db w"
proof -
  have rep: "db w2 = db v" if "ReplyConfirmation E a b v = (q, w2)" for a b v q w2
    using PublishWithContext_trace [OF that [unfolded ReplyConfirmation_def]] by (simp add: quiet_def)
  have rel: "db w2 = db v" if "smtp_SendReleaseNotification E s to repo tag url v = (q, w2)" for s to repo tag url v q w2
    using SendReleaseMail_quiet [OF that] by (simp add: quiet_def)
  show ?thesis
    using assms
    by (auto simp: dispatch_def dispatch_confirmation_def split: if_splits sum.splits prod.splits option.splits
        dest!: sendWithRetry_db rep rel)
qed

lemma handle_db:
  assumes "handle E (NewConsumer s (redisDeduper E t)) d w = (r, w')"
  shows "db w' = db w"
proof -
  let ?c = "NewConsumer s (redisDeduper E t)"
  have dd: "cons_dedup ?c = redisDeduper E t" by (simp add: NewConsumer_def)
  have mark: "db (snd (MarkProcessed (redisDeduper E t) i v)) = db v" for i v
    using redis_dedup_quiet(2) by (simp add: quiet_def)
  have proc: "db w2 = db v" if "process E ?c d v = (q, w2)" for v q w2
    using that mark by (auto simp: process_def dd split: sum.splits prod.splits dest!: dispatch_db)
  have again: "db (replyAlreadySent E d v) = db v" for v
    by (auto simp: replyAlreadySent_def ReplyConfirmation_def frame_simps split: sum.splits)
  have seen: "db w2 = db v" if "AlreadyProcessed (redisDeduper E t) i v = (q, w2)" for i v q w2
    using redis_dedup_quiet(1) [OF that] by (simp add: quiet_def)
  show ?thesis
    using assms
    by (auto simp: handle_def dd again split: if_splits sum.splits prod.splits bool.splits dest!: proc seen)
qed

lemma sys_step_evo:
  assumes "sys_step E D w w'"
  shows "evo E (dep_transport D = None) (db w) (db w')"
  using assms
proof cases
  case (request r ep rid resp)
  then show ?thesis by (rule serve_evo)
next
  case (relay i)
  then show ?thesis using drain_evo by simp
next
  case (sweep r)
  then show ?thesis by (rule Sweep_evo)
next
  case (reply body r)
  then show ?thesis by (rule HandleReply_evo)
next
  case (release i)
  then show ?thesis using main_scan.scan_frame main_scan.scan_grows by (auto intro: evo_frame)
next
  case (notify s t d r)
  then show ?thesis using handle_db by simp
next
  case outside
  then show ?thesis by simp
qed

lemma reaches_evo:
  assumes "reaches E D w w'"
  shows "evo E (dep_transport D = None) (db w) (db w')"
  using assms by (induction rule: rtranclp_induct) (auto intro: evo_trans sys_step_evo)

lemma init_inv: "sys_inv E b (db init_world)"
  by (simp add: sys_inv_def init_world_def empty_db_ok saga_ids_canonical_def covered_def)
    (simp add: empty_db_def)

end
