(* ===== verification/Subscribe_Effects.thy ===== *)
theory Subscribe_Effects
  imports Monolith
begin

text \<open>
  What beginning a subscription does to the tables, for both transports and every answer of the
  outside: nothing, or step T1 (\<open>begun\<close>), on the gRPC transport followed by as much of the settling
  half as was executed (\<open>settled_as\<close>).
\<close>

section \<open>The settling half of the synchronous transport\<close>

text \<open>
  Where \<open>dispatchSync\<close> can leave the saga and whether it has marked the subscription failed, when it
  returns nil and when it returns an error.
\<close>

definition settled_as :: "bool \<Rightarrow> saga_state \<Rightarrow> bool \<Rightarrow> bool" where
  "settled_as ok st failed \<longleftrightarrow>
     (if ok then (st, failed) \<in> {(StateCompleted, False), (StateFailed, True)}
      else (st, failed) \<in> {(StateSubscriptionCreated, False), (StateCompleted, False), (StateCompensating, False),
             (StateCompensating, True), (StateFailed, True)})"

definition same_saga :: "Saga \<Rightarrow> Saga \<Rightarrow> bool" where
  "same_saga g g' \<longleftrightarrow> saga_ID g' = saga_ID g \<and> saga_SubscriptionID g' = saga_SubscriptionID g \<and>
     saga_Email g' = saga_Email g \<and> saga_Repo g' = saga_Repo g"

lemma same_saga_refl [simp]: "same_saga g g"
  by (simp add: same_saga_def)

lemma same_saga_trans: "same_saga a b \<Longrightarrow> same_saga b c \<Longrightarrow> same_saga a c"
  by (simp add: same_saga_def)

text \<open>The tables after T1, which appended the saga \<open>g\<close>: only that saga has moved, only its subscription may have failed.\<close>

definition after_t1 :: "Saga list \<Rightarrow> Saga \<Rightarrow> nat \<Rightarrow> db \<Rightarrow> saga_state \<Rightarrow> bool \<Rightarrow> db \<Rightarrow> bool" where
  "after_t1 gs g n d st failed d' \<longleftrightarrow>
     (\<exists>g'. sagas d' = gs @ [g'] \<and> same_saga g g' \<and> saga_State g' = st) \<and>
     subscriptions d' = (if failed then fail_rows n (subscriptions d) else subscriptions d) \<and>
     outbox d' = outbox d \<and> repositories d' = repositories d"

lemma after_t1_start: "sagas d = gs @ [g] \<Longrightarrow> after_t1 gs g n d (saga_State g) False d"
  by (simp add: after_t1_def)

lemma after_t1_update:
  assumes "after_t1 gs g n d st failed (db w)" "UpdateState E i st' le w = (r, w')"
    "pg_uuid E i = Some (saga_ID g)" "saga_ID g \<notin> saga_ID ` set gs"
  shows "after_t1 gs g n d st' failed (db w') \<or> (after_t1 gs g n d st failed (db w') \<and> (\<exists>e. r = Inl e))"
proof -
  obtain g1 where g1: "sagas (db w) = gs @ [g1]" "same_saga g g1" "saga_State g1 = st"
    using assms(1) by (auto simp: after_t1_def)
  note fr = UpdateState_frame [OF assms(2)]
  let ?f = "\<lambda>t (x::Saga). x\<lparr>saga_State := st', saga_LastError := if le \<noteq> [] then Some le else None, saga_UpdatedAt := t\<rparr>"
  have hit: "upd_rows (\<lambda>x. saga_ID x = saga_ID g) (?f t) (gs @ [g1]) = gs @ [?f t g1]" for t
  proof -
    have "upd_rows (\<lambda>x. saga_ID x = saga_ID g) (?f t) gs = gs" using assms(4) by (intro upd_rows_none) (auto simp: image_iff)
    then show ?thesis using g1(2) by (simp add: upd_rows_def same_saga_def)
  qed
  have new: "after_t1 gs g n d st' failed (db w')" if "sagas (db w') = upd_rows (\<lambda>x. saga_ID x = saga_ID g) (?f t) (sagas (db w))" for t
  proof -
    have "same_saga g (?f t g1)" using g1(2) by (simp add: same_saga_def)
    then show ?thesis
      using that g1(1) hit [of t] fr assms(1) unfolding after_t1_def by (auto intro!: exI [of _ "?f t g1"])
  qed
  show ?thesis
  proof (cases r)
    case (Inr x)
    from UpdateState_Inr [OF assms(2) [unfolded Inr]] assms(3) show ?thesis using new by auto
  next
    case (Inl e)
    from UpdateState_sagas [OF assms(2)] show ?thesis
    proof (elim disjE exE conjE)
      assume "sagas (db w') = sagas (db w)"
      then show ?thesis using Inl assms(1) fr by (simp add: after_t1_def)
    next
      fix u t
      assume "pg_uuid E i = Some u" "sagas (db w') = upd_rows (\<lambda>x. saga_ID x = u) (?f t) (sagas (db w))"
      then show ?thesis using new assms(3) by auto
    qed
  qed
qed

lemma after_t1_mark:
  assumes "after_t1 gs g n d st False (db w)" "MarkFailed E n w = (r, w')"
  shows "after_t1 gs g n d st True (db w') \<or> (after_t1 gs g n d st False (db w') \<and> (\<exists>e. r = Inl e))"
proof (cases r)
  case (Inl e)
  then show ?thesis
    using store_compensator.mark_effect [OF assms(2)] assms(1) by (auto simp: after_t1_def)
next
  case (Inr x)
  from store_compensator.mark_Inr [OF assms(2) [unfolded Inr]] assms(1) show ?thesis by (auto simp: after_t1_def)
qed

lemma compensate_settles:
  assumes run: "compensate E (MarkFailed E) i n reason w = (r, w')" and t1: "after_t1 gs g n d StateSubscriptionCreated False (db w)"
    and i: "pg_uuid E i = Some (saga_ID g)" "saga_ID g \<notin> saga_ID ` set gs"
  shows "\<exists>st failed. after_t1 gs g n d st failed (db w') \<and> settled_as (r = Inr ()) st failed"
proof -
  obtain q w1 where up: "UpdateState E i StateCompensating reason w = (q, w1)" by (cases "UpdateState E i StateCompensating reason w")
  obtain m w2 where mk: "MarkFailed E n w1 = (m, w2)" by (cases "MarkFailed E n w1")
  obtain p w3 where fin: "UpdateState E i StateFailed reason w2 = (p, w3)" by (cases "UpdateState E i StateFailed reason w2")
  note s1 = after_t1_update [OF t1 up i]
  show ?thesis
  proof (cases q)
    case (Inl e)
    then have "w' = w1" "\<exists>e. r = Inl e" using run up by (auto simp: compensate_def)
    then show ?thesis using s1 by (auto simp: settled_as_def)
  next
    case q: (Inr x)
    then have c: "after_t1 gs g n d StateCompensating False (db w1)" using s1 by auto
    note s2 = after_t1_mark [OF c mk]
    show ?thesis
    proof (cases m)
      case (Inl e)
      then have "w' = w2" "\<exists>e. r = Inl e" using run up q mk by (auto simp: compensate_def)
      then show ?thesis using s2 by (auto simp: settled_as_def)
    next
      case (Inr y)
      then have "after_t1 gs g n d StateCompensating True (db w2)" using s2 by auto
      note s3 = after_t1_update [OF this fin i]
      have "w' = w3" "r = Inr () \<longleftrightarrow> (\<exists>y. p = Inr y)" using run up q mk Inr fin by (auto simp: compensate_def split: sum.splits)
      then show ?thesis using s3 by (cases p) (auto simp: settled_as_def)
    qed
  qed
qed

context sync_sender
begin

lemma dispatchSync_settles:
  assumes run: "dispatchSync E send i n email repo url w = (r, w')" and t1: "sagas (db w) = gs @ [g]"
    and g: "saga_State g = StateSubscriptionCreated" and i: "pg_uuid E i = Some (saga_ID g)" "saga_ID g \<notin> saga_ID ` set gs"
  shows "\<exists>st failed. after_t1 gs g n (db w) st failed (db w') \<and> settled_as (r = Inr ()) st failed"
proof -
  obtain q w1 where snd: "send email repo url w = (q, w1)" by (cases "send email repo url w")
  have "after_t1 gs g n (db w) StateSubscriptionCreated False (db w1)"
    using after_t1_start [OF t1, of n] g send_db [OF snd] by simp
  note t = this
  show ?thesis
  proof (cases q)
    case (Inl e)
    then have "compensate E (MarkFailed E) i n ''confirmation email failed (grpc)'' w1 = (r, w')"
      using run snd by (simp add: dispatchSync_def compensateSync_def)
    from compensate_settles [OF this t i] show ?thesis .
  next
    case (Inr x)
    obtain p w2 where up: "UpdateState E i StateCompleted [] w1 = (p, w2)" by (cases "UpdateState E i StateCompleted [] w1")
    then have "w' = w2" "r = Inr () \<longleftrightarrow> (\<exists>y. p = Inr y)" using run snd Inr by (auto simp: dispatchSync_def split: sum.splits)
    then show ?thesis using after_t1_update [OF t up i] by (cases p) (auto simp: settled_as_def)
  qed
qed

end

section \<open>Beginning a subscription\<close>

text \<open>
  The tables after a subscription was begun, for a new row (\<open>rid = 0\<close>) or the failed row \<open>rid\<close>: on the
  broker transport the row, the saga and its command; on the gRPC transport the row and the saga, the
  latter settled as far as \<open>settled_as\<close> says.
\<close>

definition begun :: "env \<Rightarrow> bool \<Rightarrow> bool \<Rightarrow> nat \<Rightarrow> string \<Rightarrow> string \<Rightarrow> string \<Rightarrow> string \<Rightarrow> db \<Rightarrow> db \<Rightarrow> bool" where
  "begun E sync ok rid email repo token url d d' \<longleftrightarrow>
     (\<exists>n. if \<not> sync then sub_written rid n email repo token d d' \<and> t1_written E n email repo token url d d'
      else \<exists>d1 g st failed. sub_written rid n email repo token d d1 \<and>
        sagas d1 = sagas d @ [g] \<and> saga_ID g \<notin> saga_ID ` set (sagas d) \<and> saga_State g = StateSubscriptionCreated \<and>
        saga_SubscriptionID g = n \<and> saga_Email g = email \<and> saga_Repo g = repo \<and>
        outbox d1 = outbox d \<and> repositories d1 = repositories d \<and>
        after_t1 (sagas d) g n d1 st failed d' \<and> settled_as ok st failed)"

text \<open>Both bodies of the synchronous transport.\<close>

lemma sync_begun:
  assumes create: "createSubscriptionAndSaga E email repo token rid w = (q, w1)"
    and rest: "(case q of Inl e \<Rightarrow> (Inl e, w1)
      | Inr (n, i) \<Rightarrow> dispatchSync E (grpc_sender E s t) i n email repo url w1) = (r, w')"
  shows "(tables_same (db w) (db w') \<and> (\<exists>e. r = Inl e \<and> infra e)) \<or>
     (begun E True (r = Inr ()) rid email repo token url (db w) (db w') \<and> (\<forall>e. r = Inl e \<longrightarrow> infra e))"
  using createSubscriptionAndSaga_T1 [OF create]
proof (elim disjE exE conjE)
  fix e assume "tables_same (db w) (db w1)" "q = Inl e" "infra e"
  then show ?thesis using rest by auto
next
  fix n i u t0
  assume *: "sub_written rid n email repo token (db w) (db w1)" "pg_uuid E i = Some u" "u \<notin> saga_ID ` set (sagas (db w))"
    "sagas (db w1) = sagas (db w) @ [new_saga u n email repo t0]" "outbox (db w1) = outbox (db w)"
    "repositories (db w1) = repositories (db w)"
  let ?g = "new_saga u n email repo t0"
  have g: "saga_ID ?g = u" "saga_State ?g = StateSubscriptionCreated" "saga_SubscriptionID ?g = n"
    "saga_Email ?g = email" "saga_Repo ?g = repo" by (simp_all add: new_saga_def)
  have all: "begun E True ok rid email repo token url (db w) (db w')"
    if "after_t1 (sagas (db w)) ?g n (db w1) st failed (db w')" "settled_as ok st failed" for ok st failed
    unfolding begun_def not_True_eq_False if_False
    by (rule exI [of _ n], rule exI [of _ "db w1"], rule exI [of _ ?g], rule exI [of _ st], rule exI [of _ failed])
      (intro conjI *(1,4,5,6) g that, use *(3) g(1) in simp)
  {
    assume "q = Inr (n, i)"
    then have run: "dispatchSync E (grpc_sender E s t) i n email repo url w1 = (r, w')" using rest by simp
    have "pg_uuid E i = Some (saga_ID ?g)" "saga_ID ?g \<notin> saga_ID ` set (sagas (db w))" using * g by simp_all
    from grpc.dispatchSync_settles [OF run *(4) g(2) this] show ?thesis
      using all grpc.dispatchSync_spec [OF run] by (cases r) auto
  next
    fix e assume "q = Inl e" "infra e"
    then have "w' = w1" "r = Inl e" using rest by simp_all
    moreover have "settled_as False StateSubscriptionCreated False" by (simp add: settled_as_def)
    ultimately show ?thesis
      using all after_t1_start [OF *(4), of n] g(2) \<open>infra e\<close> by (intro disjI2) simp
  }
qed

lemma StartConfirmation_effect:
  assumes "StartConfirmation E (sender_of E tr) email repo token url w = (r, w')" and "uuid_column E"
  shows "(tables_same (db w) (db w') \<and> (\<exists>e. r = Inl e \<and> infra e)) \<or>
     (begun E (tr \<noteq> None) (r = Inr ()) 0 email repo token url (db w) (db w') \<and> (\<forall>e. r = Inl e \<longrightarrow> infra e))"
proof (cases tr)
  case None
  then show ?thesis
    using StartConfirmation_T1 [of E email repo token url w r w'] assms
    by (auto simp: sender_of_def begun_def sub_written_def)
next
  case (Some na)
  obtain q w1 where c: "createSubscriptionAndSaga E email repo token 0 w = (q, w1)"
    by (cases "createSubscriptionAndSaga E email repo token 0 w")
  show ?thesis
    using sync_begun [OF c] assms(1) Some c
    by (auto simp: sender_of_def StartConfirmation_def startConfirmationSync_def split: sum.splits)
qed

lemma ReactivateConfirmation_effect:
  assumes "ReactivateConfirmation E (sender_of E tr) sid email repo token url w = (r, w')" and "uuid_column E" and "sid \<noteq> 0"
  shows "(tables_same (db w) (db w') \<and> (\<exists>e. r = Inl e \<and> infra e)) \<or>
     (begun E (tr \<noteq> None) (r = Inr ()) sid email repo token url (db w) (db w') \<and> (\<forall>e. r = Inl e \<longrightarrow> infra e))"
proof (cases tr)
  case None
  then show ?thesis
    using ReactivateConfirmation_T1 [of E sid email repo token url w r w'] assms
    by (auto simp: sender_of_def begun_def sub_written_def)
next
  case (Some na)
  obtain q w1 where c: "createSubscriptionAndSaga E email repo token sid w = (q, w1)"
    by (cases "createSubscriptionAndSaga E email repo token sid w")
  show ?thesis
    using sync_begun [OF c] assms(1) Some c
    by (auto simp: sender_of_def ReactivateConfirmation_def reactivateConfirmationSync_def split: sum.splits)
qed

section \<open>\<open>Subscribe\<close>\<close>

text \<open>The id of the pair's row, 0 if it has none (ids start at 1).\<close>

definition known_row :: "string \<Rightarrow> string \<Rightarrow> db \<Rightarrow> nat" where
  "known_row email repo d = (case lookup_by email_repo (email, repo) (subscriptions d) of None \<Rightarrow> 0 | Some s \<Rightarrow> sub_ID s)"

text \<open>
  \<open>begins\<close>: the pair's subscription was begun with a token of its own and the link that carries it;
  \<open>subscribe_outcome\<close>: which result \<open>Subscribe\<close> may return, with its cause and its effect.
\<close>

definition begins :: "env \<Rightarrow> bool \<Rightarrow> string \<Rightarrow> bool \<Rightarrow> string \<Rightarrow> string \<Rightarrow> db \<Rightarrow> db \<Rightarrow> bool" where
  "begins E sync base ok email repo d d' \<longleftrightarrow>
     (\<exists>token. begun E sync ok (known_row email repo d) email repo token (confirm_url base token) d d')"

definition subscribe_outcome ::
  "env \<Rightarrow> bool \<Rightarrow> string \<Rightarrow> (string \<Rightarrow> string \<Rightarrow> (world, bool) act) \<Rightarrow> string \<Rightarrow> string \<Rightarrow>
   gerr + unit \<Rightarrow> world \<Rightarrow> world \<Rightarrow> bool" where
  "subscribe_outcome E sync base check email repo r w w' \<longleftrightarrow>
     (case r of
        Inr _ \<Rightarrow> ValidateEmail email \<and> (\<exists>spec w1. ParseRepoSpec repo = Inr spec \<and>
          check (Owner spec) (Name spec) w = (Inr True, w1)) \<and> begins E sync base True email repo (db w) (db w')
      | Inl e \<Rightarrow>
          (case KindOf e of
             KindInvalid \<Rightarrow> w' = w \<and> (\<not> ValidateEmail email \<or> (\<exists>err. ParseRepoSpec repo = Inl err))
           | KindNotFound \<Rightarrow> db w' = db w \<and> ValidateEmail email \<and>
               (\<exists>spec. ParseRepoSpec repo = Inr spec \<and> check (Owner spec) (Name spec) w = (Inr False, w'))
           | KindConflict \<Rightarrow> db w' = db w \<and> ValidateEmail email \<and>
               (\<exists>spec w1. ParseRepoSpec repo = Inr spec \<and> check (Owner spec) (Name spec) w = (Inr True, w1)) \<and>
               (\<exists>s\<in>set (subscriptions (db w)). email_repo s = (email, repo) \<and> sub_Status s \<noteq> StatusFailed)
           | KindInternal \<Rightarrow> infra e \<and> ValidateEmail email \<and> (\<exists>spec. ParseRepoSpec repo = Inr spec) \<and>
               (tables_same (db w) (db w') \<or> begins E sync base False email repo (db w) (db w'))))"

lemma subscribe_known_effect:
  assumes run: "subscribe_known E (main_service E tr c ca base) email repo w = (r, w')" and ok: "db_ok (db w)" and "uuid_column E"
  shows "case r of
      Inr _ \<Rightarrow> begins E (tr \<noteq> None) base True email repo (db w) (db w')
    | Inl e \<Rightarrow> (infra e \<and> (tables_same (db w) (db w') \<or> begins E (tr \<noteq> None) base False email repo (db w) (db w'))) \<or>
        (e = Domain ErrAlreadySubscribed \<and> db w' = db w \<and>
          (\<exists>s\<in>set (subscriptions (db w)). email_repo s = (email, repo) \<and> sub_Status s \<noteq> StatusFailed))"
proof -
  let ?svc = "main_service E tr c ca base"
  have svc: "svc_StartConfirmation ?svc = StartConfirmation E (sender_of E tr)"
    "svc_ReactivateConfirmation ?svc = ReactivateConfirmation E (sender_of E tr)" "svc_baseURL ?svc = base"
    by (simp_all add: main_service_def)
  obtain g w1 where look: "svc_GetSubscriptionByEmailAndRepo ?svc email repo w = (g, w1)"
    by (cases "svc_GetSubscriptionByEmailAndRepo ?svc email repo w")
  note l = main_svc.by_pair [OF look]
  define token where "token = uuid_NewString E (hist w1)"
  define w2 where "w2 = logged (UuidNew token) w1"
  let ?url = "confirm_url base token"
  have d2: "db w2 = db w" using l by (simp add: w2_def)
  have tok: "new_uuid E w1 = (token, w2)" by (simp add: new_uuid_def token_def w2_def Let_def)
  consider (err) e where "g = Inl e" | (new) "g = Inr None" | (old) s where "g = Inr (Some s)"
    by (metis not_Some_eq sum.exhaust)
  then show ?thesis
  proof cases
    case err
    then show ?thesis using run look l by (auto simp: subscribe_known_def tables_same_def)
  next
    case new
    then have rid: "known_row email repo (db w) = 0" using l by (simp add: known_row_def)
    obtain q w3 where st: "StartConfirmation E (sender_of E tr) email repo token ?url w2 = (q, w3)"
      by (cases "StartConfirmation E (sender_of E tr) email repo token ?url w2")
    have "w' = w3" "r = (case q of Inl e \<Rightarrow> Inl (Errorf ''failed to start subscription saga'' e) | Inr _ \<Rightarrow> Inr ())"
      using run look new st by (auto simp: subscribe_known_def tok svc split: sum.splits)
    then show ?thesis
      using StartConfirmation_effect [OF st assms(3)] rid d2
      by (cases q) (auto simp: begins_def infra_simps intro!: exI [of _ token])
  next
    case (old s)
    have lk: "lookup_by email_repo (email, repo) (subscriptions (db w)) = Some s" using l old by simp
    then have s: "s \<in> set (subscriptions (db w))" "email_repo s = (email, repo)" "known_row email repo (db w) = sub_ID s"
      using lookup_by_SomeD [OF lk] by (simp_all add: known_row_def)
    have "sub_ID s \<noteq> 0" using ok s(1) by (auto simp: db_ok_def subs_ok_def)
    note re = ReactivateConfirmation_effect [OF _ assms(3) this]
    show ?thesis
    proof (cases "sub_Status s = StatusFailed")
      case False
      then have "r = Inl (Domain ErrAlreadySubscribed)" "w' = w2"
        using run look old by (auto simp: subscribe_known_def tok)
      then show ?thesis using False s d2 by auto
    next
      case True
      obtain q w3 where ra: "ReactivateConfirmation E (sender_of E tr) (sub_ID s) email repo token ?url w2 = (q, w3)"
        by (cases "ReactivateConfirmation E (sender_of E tr) (sub_ID s) email repo token ?url w2")
      have "w' = w3" "r = (case q of Inl e \<Rightarrow> Inl (Errorf ''failed to reactivate subscription saga'' e) | Inr _ \<Rightarrow> Inr ())"
        using run look old True ra by (auto simp: subscribe_known_def tok svc split: sum.splits)
      then show ?thesis
        using re [OF ra] s d2 by (cases q) (auto simp: begins_def infra_simps intro!: exI [of _ token])
    qed
  qed
qed

lemma Subscribe_outcome:
  assumes run: "Subscribe E (main_service E tr c ca base) email repo w = (r, w')" and "db_ok (db w)" and "uuid_column E"
  shows "subscribe_outcome E (tr \<noteq> None) base (github_CheckRepoExists E c ca) email repo r w w'"
proof -
  let ?svc = "main_service E tr c ca base"
  have svc: "svc_CheckRepoExists ?svc = github_CheckRepoExists E c ca" by (simp add: main_service_def)
  show ?thesis
  proof (cases "ValidateEmail email")
    case False
    then show ?thesis using run by (auto simp: Subscribe_def subscribe_outcome_def sentinel_defs)
  next
    case valid: True
    show ?thesis
    proof (cases "ParseRepoSpec repo")
      case (Inl err)
      then show ?thesis using run valid by (auto simp: Subscribe_def subscribe_outcome_def KindOf_Errorf2 sentinel_defs)
    next
      case (Inr spec)
      obtain g w1 where gh: "github_CheckRepoExists E c ca (Owner spec) (Name spec) w = (g, w1)"
        by (cases "github_CheckRepoExists E c ca (Owner spec) (Name spec) w")
      note g1 = github_CheckRepoExists_frame [OF gh]
      consider (err) e where "g = Inl e" | (no) "g = Inr False" | (yes) "g = Inr True"
        by (metis (full_types) sum.exhaust)
      then show ?thesis
      proof cases
        case err
        then have "r = Inl (Errorf ''failed to check repository'' e)" "w' = w1" "infra e"
          using run valid Inr gh g1 by (auto simp: Subscribe_def svc)
        then show ?thesis using g1 valid Inr by (simp add: subscribe_outcome_def KindOf_infra)
      next
        case no
        then have "r = Inl (Domain ErrRepoNotFound)" "w' = w1"
          using run valid Inr gh by (auto simp: Subscribe_def svc)
        then show ?thesis using g1 gh no Inr valid by (simp add: subscribe_outcome_def sentinel_defs)
      next
        case yes
        then have "subscribe_known E ?svc email repo w1 = (r, w')"
          using run valid Inr gh by (simp add: Subscribe_def svc)
        from subscribe_known_effect [OF this _ assms(3)] g1 assms(2) show ?thesis
          using valid Inr gh yes by (cases r) (auto simp: subscribe_outcome_def KindOf_infra sentinel_defs)
      qed
    qed
  qed
qed

end
