(* ===== verification/Sample_Env.thy ===== *)
theory Sample_Env
  imports Notifier Github_Gateway
begin

text \<open>
  Concrete environments on which the properties are exercised: \<open>calm_env\<close>, in which every
  outside call succeeds, and variations of it with one service down.
\<close>

text \<open>A Redis whose clock advances by a nanosecond with every call, and that keeps lifetimes by it.\<close>

definition event_clock :: "history \<Rightarrow> int" where
  "event_clock h = int (length h)"

text \<open>The lifetime \<open>cmd/notifier/main.go\<close> gives a mark.\<close>

definition one_day :: duration where
  "one_day = 86400 * time_Second"

lemma one_day_ns [simp]: "sint one_day = 86400000000000"
  by (simp add: one_day_def time_Second_def)

definition calm_env :: env where
  "calm_env =
     \<lparr>pg = (\<lambda>_. PgOk), pg_now = (\<lambda>h. int (length h)), pg_rank = (\<lambda>_ n. n), pg_rank_text = (\<lambda>_ _. 0),
      pg_uuid = (\<lambda>s. if s = [] then None else Some s), uuid_NewString = (\<lambda>h. ''u'' @ map (\<lambda>_. CHR ''0'') h),
      time_Now = (\<lambda>h. int (length h)), ctx_Done = (\<lambda>_. False),
      redis_GET = (\<lambda>_ _. RedisNil), redis_SET = (\<lambda>_ _ _. None),
      redis_EXISTS = (\<lambda>h k. Inr (if key_live event_clock h k then 1 else 0)),
      http_Do = (\<lambda>_ _. Inr \<lparr>StatusCode = 200, Body = JObject [(''tag_name'', JString ''v1.2'')]\<rparr>),
      amqp_Publish = (\<lambda>_ _. None), smtp_SendMail = (\<lambda>_ _. None), grpc_Invoke = (\<lambda>_. RpcDelivered), setup_Do = (\<lambda>_ _. None),
      migrate_Applied = (\<lambda>_. [1, 2, 3, 4, 5])\<rparr>"

text \<open>A mail server that refuses everything; GitHub that always answers 429.\<close>

definition mail_down :: env where
  "mail_down = calm_env\<lparr>smtp_SendMail := (\<lambda>_ _. Some ''451 try later'')\<rparr>"

definition rate_limited :: env where
  "rate_limited = calm_env\<lparr>http_Do := (\<lambda>_ _. Inr \<lparr>StatusCode = 429, Body = JNull\<rparr>)\<rparr>"

text \<open>A database that executes everything but loses the answer to every commit.\<close>

definition is_commit_next :: "history \<Rightarrow> bool" where
  "is_commit_next h = (case h of PgStatement s # _ \<Rightarrow> s = ''INSERT INTO outbox'' | _ \<Rightarrow> False)"

definition commit_lost :: env where
  "commit_lost = calm_env\<lparr>pg := (\<lambda>h. if is_commit_next h then PgReplyLost ''connection reset'' else PgOk)\<rparr>"

lemma calm_uuid_column [simp]: "uuid_column calm_env" "uuid_column mail_down" "uuid_column commit_lost"
  by (auto simp: uuid_column_def calm_env_def mail_down_def commit_lost_def split: if_splits)

lemma calm_pg_up [simp]: "pg_up calm_env" "pg_up mail_down"
  by (simp_all add: pg_up_def calm_env_def mail_down_def)

lemma calm_redis_up [simp]: "redis_up event_clock calm_env" "redis_up event_clock mail_down"
  by (auto simp: redis_up_def calm_env_def mail_down_def event_clock_def extends_def)

lemma calm_redis_sound [simp]: "redis_sound calm_env"
  by (simp add: redis_sound_def calm_env_def)

text \<open>A new subscription in the initial world, and the world it leads to.\<close>

definition sample_smtp :: SMTPSender where
  "sample_smtp = \<lparr>smtp_host = ''mail'', smtp_port = ''25'', smtp_user = [], smtp_pass = [], smtp_from = ''n@x.io''\<rparr>"

end
