(* ===== verification/Saga_Properties.thy ===== *)
theory Saga_Properties
  imports Saga_System Subscribe_Effects Sample_Env
begin

text \<open>
  The properties of the subscribe saga: atomicity of step T1, the reply handler, the
  synchronous transport, the sweeper and the outbox relay, each with a run on a concrete
  world.
\<close>

section \<open>Sample runs\<close>

lemmas tx_defs = StartConfirmation_def saga_tx_def BeginTxx_def Commit_def run_stmt_def
  subscription_CreateInTx_def enqueueConfirmation_def new_uuid_def saga_CreateInTx_def Enqueue_def
  insert_subscription_def insert_saga_def insert_outbox_def stmt_now_def Let_def serial_max_def
  bigserial_max_def varchar_def char_count_def RoutingConfirm_def marshal_ConfirmationRequest_def

lemmas env_defs = calm_env_def init_world_def empty_db_def commit_lost_def is_commit_next_def mail_down_def

definition sample_url :: string where
  "sample_url = ''http://x/api/confirm/tok''"

definition sample_sub :: Subscription where
  "sample_sub = new_sub 1 ''a@b.co'' ''o/r'' ''tok'' 0"

definition sample_saga :: Saga where
  "sample_saga = new_saga ''u1'' 1 ''a@b.co'' ''o/r'' 0"

definition sample_msg :: Message where
  "sample_msg = confirm_msg 1 ''u1'' (Some ''u1'') ''a@b.co'' ''tok'' sample_url 0"

text \<open>A world with one pending subscription, its saga and its command.\<close>

definition sample_world :: world where
  "sample_world = init_world\<lparr>db := empty_db\<lparr>subscriptions := [sample_sub], sub_seq := 1,
     sagas := [sample_saga], outbox := [sample_msg], outbox_seq := 1\<rparr>\<rparr>"

lemmas sample_defs = sample_url_def sample_sub_def sample_saga_def sample_msg_def sample_world_def
  new_sub_def new_saga_def confirm_msg_def

lemma sample_world_ok [simp]: "db_ok (db sample_world)" "saga_ids_canonical calm_env (db sample_world)"
  by (simp_all add: sample_defs init_world_def empty_db_def db_ok_def subs_ok_def sagas_ok_def outbox_ok_def
      repos_ok_def saga_ids_canonical_def calm_env_def)

lemma sample_world_covered [simp]: "sys_inv calm_env True (db sample_world)"
proof -
  have "covers calm_env sample_saga sample_msg"
    by (simp add: covers_def sample_saga_def sample_msg_def new_saga_def confirm_msg_def calm_env_def)
  then show ?thesis by (simp add: sys_inv_def covered_def) (simp add: sample_world_def)
qed

section \<open>Step T1\<close>

text \<open>
  C4: Starting a saga on the broker transport is atomic under every behaviour of the
  database: either no row of any table changed and the caller gets an error, or the pending
  subscription, the saga and its outbox command were all written; in the second case the
  caller sees success, or an infrastructure error because the acknowledgement of the commit
  was lost.
\<close>

theorem start_confirmation_atomic:
  assumes "StartConfirmation E None email repo token url w = (r, w')" and "uuid_column E"
  shows "(tables_same (db w) (db w') \<and> (\<exists>e. r = Inl e \<and> infra e)) \<or>
     (\<exists>n t. n = Suc (sub_seq (db w)) \<and>
        subscriptions (db w') = subscriptions (db w) @ [new_sub n email repo token t] \<and>
        t1_written E n email repo token url (db w) (db w') \<and>
        (r = Inr () \<or> (\<exists>e. r = Inl e \<and> infra e)))"
  using StartConfirmation_T1 [OF assms] .

theorem start_confirmation_atomic_witness:
  "(let (r, w') = StartConfirmation commit_lost None ''a@b.co'' ''o/r'' ''tok'' sample_url init_world in
     (\<exists>e. r = Inl e) \<and> t1_written commit_lost 1 ''a@b.co'' ''o/r'' ''tok'' sample_url (db init_world) (db w'))"
proof -
  obtain r w' where run: "StartConfirmation commit_lost None ''a@b.co'' ''o/r'' ''tok'' sample_url init_world = (r, w')"
    by (cases "StartConfirmation commit_lost None ''a@b.co'' ''o/r'' ''tok'' sample_url init_world")
  have "\<exists>e. r = Inl e" "\<not> tables_same (db init_world) (db w')" "sub_seq (db init_world) = 0"
    using run by (auto simp: tx_defs env_defs sample_url_def tables_same_def)
  with start_confirmation_atomic [OF run calm_uuid_column(3)] run show ?thesis by auto
qed

text \<open>
  C7: Reviving a failed subscription on the broker transport is atomic in the same sense, and
  it happens only to a row in the failed state, whose token changes and whose confirmation is
  reset; a second attempt that finds the row no longer failed changes nothing.
\<close>

theorem reactivate_confirmation_atomic:
  assumes "ReactivateConfirmation E None n email repo token url w = (r, w')" and "uuid_column E"
  shows "(tables_same (db w) (db w') \<and> (\<exists>e. r = Inl e \<and> infra e)) \<or>
     ((\<exists>s\<in>set (subscriptions (db w)). sub_ID s = n \<and> sub_Status s = StatusFailed) \<and>
      subscriptions (db w') = upd_rows (\<lambda>s. sub_ID s = n \<and> sub_Status s = StatusFailed)
        (reactivate_row token) (subscriptions (db w)) \<and>
      t1_written E n email repo token url (db w) (db w') \<and>
      (r = Inr () \<or> (\<exists>e. r = Inl e \<and> infra e)))"
  using ReactivateConfirmation_T1 [OF assms] .

theorem reactivate_confirmation_atomic_witness:
  "tables_same (db sample_world)
     (db (snd (ReactivateConfirmation calm_env None 1 ''a@b.co'' ''o/r'' ''new'' sample_url sample_world)))"
proof -
  obtain r w' where run: "ReactivateConfirmation calm_env None 1 ''a@b.co'' ''o/r'' ''new'' sample_url sample_world = (r, w')"
    by (cases "ReactivateConfirmation calm_env None 1 ''a@b.co'' ''o/r'' ''new'' sample_url sample_world")
  have "\<not> (\<exists>s\<in>set (subscriptions (db sample_world)). sub_ID s = 1 \<and> sub_Status s = StatusFailed)"
    by (simp add: sample_defs)
  with reactivate_confirmation_atomic [OF run calm_uuid_column(1)] run show ?thesis by auto
qed

section \<open>Replies\<close>

text \<open>
  A redelivered saga reply is harmless: once a reply was handled without error, handling
  the same reply again leaves the whole database as it is.
\<close>

lemma reply_idempotent:
  assumes "HandleReply E (MarkFailed E) body w = (Inr x, w1)" and "uuid_column E" and "db_ok (db w)"
    and "HandleReply E (MarkFailed E) body w1 = (r, w2)"
  shows "db w2 = db w1"
  using store_compensator.HandleReply_idempotent [OF assms(1,2) _ assms(4)] assms(3) by (simp add: db_ok_def)

definition sample_reply :: "string \<Rightarrow> json" where
  "sample_reply st = marshal_SagaReply \<lparr>rep_SagaID = ''u1'', rep_Status = st\<rparr>"

lemmas reply_defs = HandleReply_def GetByID_def select_saga_def UpdateState_def update_saga_def compensate_def
  MarkFailed_def mark_failed_stmt_def affected_def sample_reply_def SagaStatusSent_def SagaStatusFailed_def

text \<open>
  What a handled reply achieves. When the saga exists, was not yet settled, and the handler
  returns without error, then after \<open>sent\<close> the saga is completed and no subscription changed,
  and after \<open>failed\<close> the saga is failed and exactly its subscription was marked failed.
\<close>

lemma reply_outcome:
  assumes "HandleReply E (MarkFailed E) body w = (Inr x, w')" and "uuid_column E" and "db_ok (db w)"
    and "unmarshal_SagaReply body = Inr rep" and "reply_saga E rep (db w) = Some sg"
    and "saga_State sg = StateSubscriptionCreated"
  shows "(rep_Status rep = SagaStatusSent \<longrightarrow>
       saga_in (saga_ID sg) {StateCompleted} (db w') \<and> subscriptions (db w') = subscriptions (db w)) \<and>
     (rep_Status rep = SagaStatusFailed \<longrightarrow>
       saga_in (saga_ID sg) {StateFailed} (db w') \<and>
       subscriptions (db w') = fail_rows (saga_SubscriptionID sg) (subscriptions (db w)) \<and>
       saga_SubscriptionID sg \<in> sub_ID ` set (subscriptions (db w)))"
  using assms(1)
proof (cases rule: HandleReplyE)
  case (idle rep')
  then show ?thesis using assms(4-6) by (auto simp: completes_def compensates_def)
next
  case (complete rep' sg' w1 q)
  have same: "rep' = rep" "sg' = sg" using complete(1,2) assms(4,5) by auto
  have up: "UpdateState E (saga_ID sg) StateCompleted [] w1 = (Inr (), w')" using complete(5,6) same by auto
  have "pg_uuid E (saga_ID sg) = Some (saga_ID sg)" using reply_saga_SomeD [OF assms(5,2)] by simp
  from UpdateState_saga_in [OF up this] UpdateState_frame [OF up] show ?thesis
    using complete(3,4) same by (auto simp: completes_def)
next
  case (undo rep' sg' w1)
  have same: "rep' = rep" "sg' = sg" using undo(1,2) assms(4,5) by auto
  have "pg_uuid E (saga_ID sg) = Some (saga_ID sg)" using reply_saga_SomeD [OF assms(5,2)] by simp
  from store_compensator.compensate_Inr [OF undo(5) [unfolded same] this] show ?thesis
    using undo(3,4) same by (auto simp: compensates_def)
qed simp

text \<open>
  C8: The contract of a handled reply. When the saga exists, waits for its confirmation, and the handler
  returns without error, then after \<open>sent\<close> the saga is completed and no subscription changed, and
  after \<open>failed\<close> the saga is failed and exactly its subscription was marked failed. And a redelivery
  is harmless: once a reply was handled without error, handling the same reply again, whatever the
  database answers then, leaves the whole database as it is.
\<close>

theorem reply_contract:
  assumes "HandleReply E (MarkFailed E) body w = (Inr x, w1)" and "uuid_column E" and "db_ok (db w)"
  shows "(unmarshal_SagaReply body = Inr rep \<and> reply_saga E rep (db w) = Some sg \<and> saga_State sg = StateSubscriptionCreated \<longrightarrow>
       (rep_Status rep = SagaStatusSent \<longrightarrow>
         saga_in (saga_ID sg) {StateCompleted} (db w1) \<and> subscriptions (db w1) = subscriptions (db w)) \<and>
       (rep_Status rep = SagaStatusFailed \<longrightarrow>
         saga_in (saga_ID sg) {StateFailed} (db w1) \<and>
         subscriptions (db w1) = fail_rows (saga_SubscriptionID sg) (subscriptions (db w)) \<and>
         saga_SubscriptionID sg \<in> sub_ID ` set (subscriptions (db w)))) \<and>
     db (snd (HandleReply E (MarkFailed E) body w1)) = db w1"
  using reply_outcome [OF assms, of rep sg] reply_idempotent [OF assms prod.collapse [symmetric]] by blast

theorem reply_contract_witness:
  "saga_in ''u1'' {StateFailed}
     (db (snd (HandleReply calm_env (MarkFailed calm_env) (sample_reply SagaStatusFailed) sample_world))) \<and>
   db (snd (HandleReply calm_env (MarkFailed calm_env) (sample_reply SagaStatusFailed)
      (snd (HandleReply calm_env (MarkFailed calm_env) (sample_reply SagaStatusFailed) sample_world)))) =
   db (snd (HandleReply calm_env (MarkFailed calm_env) (sample_reply SagaStatusFailed) sample_world))"
proof -
  let ?h = "HandleReply calm_env (MarkFailed calm_env) (sample_reply SagaStatusFailed)"
  have "fst (?h sample_world) = Inr ()"
    by (simp add: reply_defs tx_defs env_defs sample_defs)
  then have run: "?h sample_world = (Inr (), snd (?h sample_world))" by (metis prod.collapse)
  have "unmarshal_SagaReply (sample_reply SagaStatusFailed) = Inr \<lparr>rep_SagaID = ''u1'', rep_Status = SagaStatusFailed\<rparr>"
    "reply_saga calm_env \<lparr>rep_SagaID = ''u1'', rep_Status = SagaStatusFailed\<rparr> (db sample_world) = Some sample_saga"
    "saga_State sample_saga = StateSubscriptionCreated" "saga_ID sample_saga = ''u1''"
    by (simp_all add: sample_reply_def reply_saga_def calm_env_def sample_defs)
  then show ?thesis
    using reply_contract [OF run calm_uuid_column(1) sample_world_ok(1),
        of "\<lparr>rep_SagaID = ''u1'', rep_Status = SagaStatusFailed\<rparr>" sample_saga] by simp
qed

text \<open>
  The retry wrapper of the reply consumer, whatever the database answers on each of its
  attempts, moves sagas only along the edges of the state machine, leaves settled sagas
  exactly as they are, and keeps the constraints of the schema.
\<close>

theorem reply_consumer_legal:
  assumes "handleWithRetry E (MarkFailed E) body w = (r, w')" and "uuid_column E" and "db_ok (db w)"
  shows "sagas_moved (sagas (db w)) (sagas (db w')) \<and> db_ok (db w')"
  using store_compensator.handleWithRetry_moves [OF assms]
    grows_ok [OF store_compensator.handleWithRetry_grows [OF assms(1)] assms(3)] by simp

theorem reply_consumer_legal_witness:
  "sagas_moved (sagas (db sample_world))
     (sagas (db (snd (handleWithRetry calm_env (MarkFailed calm_env) (sample_reply SagaStatusSent) sample_world))))"
  using reply_consumer_legal [OF prod.collapse [symmetric] calm_uuid_column(1) sample_world_ok(1)] by simp

section \<open>The synchronous transport\<close>

text \<open>
  C19: On the gRPC transport a saga is settled before \<open>StartConfirmation\<close> returns without error: exactly
  one saga was added, with a new id, for the new subscription; it is completed and the subscription
  pending, or it is failed and the subscription marked failed. No other saga and no other subscription
  changes and no outbox command is written.
\<close>

theorem sync_start_settles:
  assumes "StartConfirmation E (Some (grpc_sender E s t)) email repo token url w = (Inr x, w')"
    and "db_ok (db w)"
  shows "\<exists>g n now. n = Suc (sub_seq (db w)) \<and>
     sagas (db w') = sagas (db w) @ [g] \<and> saga_ID g \<notin> saga_ID ` set (sagas (db w)) \<and>
     saga_SubscriptionID g = n \<and> saga_Email g = email \<and> saga_Repo g = repo \<and>
     outbox (db w') = outbox (db w) \<and> repositories (db w') = repositories (db w) \<and>
     ((saga_State g = StateCompleted \<and>
        subscriptions (db w') = subscriptions (db w) @ [new_sub n email repo token now]) \<or>
      (saga_State g = StateFailed \<and>
        subscriptions (db w') = subscriptions (db w) @ [(new_sub n email repo token now)\<lparr>sub_Status := StatusFailed\<rparr>]))"
proof -
  let ?send = "grpc_sender E s t"
  obtain n i w1 where c: "createSubscriptionAndSaga E email repo token 0 w = (Inr (n, i), w1)"
    and d: "dispatchSync E ?send i n email repo url w1 = (Inr x, w')"
    using assms(1) by (auto simp: StartConfirmation_def startConfirmationSync_def split: prod.splits sum.splits)
  from createSubscriptionAndSaga_T1 [OF c] obtain u t0 t1 where u: "pg_uuid E i = Some u"
    "u \<notin> saga_ID ` set (sagas (db w))" and n: "n = Suc (sub_seq (db w))"
    and sg: "sagas (db w1) = sagas (db w) @ [new_saga u n email repo t1]"
    and subs: "subscriptions (db w1) = subscriptions (db w) @ [new_sub n email repo token t0]"
    and out: "outbox (db w1) = outbox (db w)" "repositories (db w1) = repositories (db w)" by (auto simp: sub_written_def)
  let ?g = "new_saga u n email repo t1"
  have g: "saga_ID ?g = u" "saga_State ?g = StateSubscriptionCreated" "saga_SubscriptionID ?g = n" "saga_Email ?g = email"
    "saga_Repo ?g = repo" by (simp_all add: new_saga_def)
  obtain st failed where st: "after_t1 (sagas (db w)) ?g n (db w1) st failed (db w')" "settled_as True st failed"
    using grpc.dispatchSync_settles [OF d sg g(2)] u g(1) by auto
  then obtain g' where g': "sagas (db w') = sagas (db w) @ [g']" "same_saga ?g g'" "saga_State g' = st"
    and rest: "subscriptions (db w') = (if failed then fail_rows n (subscriptions (db w1)) else subscriptions (db w1))"
    "outbox (db w') = outbox (db w1)" "repositories (db w') = repositories (db w1)"
    by (auto simp: after_t1_def)
  have old: "fail_rows n (subscriptions (db w)) = subscriptions (db w)"
    unfolding fail_rows_def by (rule upd_rows_none) (use assms(2) n in \<open>fastforce simp: db_ok_def subs_ok_def\<close>)
  have "fail_rows n (subscriptions (db w1)) =
      subscriptions (db w) @ [(new_sub n email repo token t0)\<lparr>sub_Status := StatusFailed\<rparr>]"
    using old by (simp add: subs fail_rows_def upd_rows_def new_sub_def)
  then have "(st = StateCompleted \<and> subscriptions (db w') = subscriptions (db w) @ [new_sub n email repo token t0]) \<or>
      (st = StateFailed \<and> subscriptions (db w') =
        subscriptions (db w) @ [(new_sub n email repo token t0)\<lparr>sub_Status := StatusFailed\<rparr>])"
    using st(2) rest(1) subs by (auto simp: settled_as_def)
  then show ?thesis
    using g' g u(2) n out rest(2,3)
    by (intro exI [of _ g'] exI [of _ n] exI [of _ t0]) (simp add: same_saga_def)
qed

lemmas sync_defs = createSubscriptionAndSaga_def startConfirmationSync_def dispatchSync_def
  compensateSync_def grpc_sender_def grpc_SendConfirmation_def server_SendConfirmation_def redisDeduper_def
  redis_AlreadyProcessed_def redis_MarkProcessed_def SendConfirmationEmail_def sendEmail_def SendMail_def
  email_of_def line_ok_def key_live_def sample_smtp_def

theorem sync_start_settles_witness:
  "let (r, w') = StartConfirmation mail_down (Some (grpc_sender mail_down sample_smtp one_day)) ''a@b.co'' ''o/r'' ''tok''
       sample_url init_world
   in r = Inr () \<and> map saga_State (sagas (db w')) = [StateFailed]"
proof -
  let ?run = "StartConfirmation mail_down (Some (grpc_sender mail_down sample_smtp one_day)) ''a@b.co'' ''o/r'' ''tok'' sample_url init_world"
  have ok: "fst ?run = Inr ()" "sub_Status ` set (subscriptions (db (snd ?run))) = {StatusFailed}"
    by (simp_all add: sync_defs reply_defs tx_defs env_defs sample_url_def)
  then have run: "?run = (Inr (), snd ?run)" by (metis prod.collapse)
  have db: "db_ok (db init_world)" "sagas (db init_world) = []" "subscriptions (db init_world) = []"
    by (simp_all add: init_world_def empty_db_ok) (simp_all add: empty_db_def)
  from sync_start_settles [OF run db(1)] ok(2) run db(2,3) show ?thesis by (auto simp: new_sub_def Let_def split: prod.splits)
qed

text \<open>
  C20: What a sweep does for a stale saga, with the database up and at most a hundred stale sagas. If the
  saga waits for its confirmation, every command of it that is in the outbox is still there and is
  unpublished again, so the relay sends it once more; on the broker transport there is such a command.
  If its compensation was interrupted and its subscription still exists, saga and subscription are
  failed afterwards. A waiting saga without a command and a compensating one without a subscription
  are not recovered.
\<close>

theorem sweep_recovers:
  assumes "Sweep E (MarkFailed E) stale w = (r, w')" and "pg_up E" and "sys_inv E broker (db w)"
    and "sg \<in> set (sagas (db w))"
    and "resumable (time_Now E (hist w) - sint stale) sg"
    and "length (filter (resumable (time_Now E (hist w) - sint stale)) (sagas (db w))) \<le> 100"
  shows "r = Inr () \<and> (case saga_State sg of
     StateSubscriptionCreated \<Rightarrow>
       (\<forall>m\<in>set (outbox (db w)). msg_SagaID m = Some (saga_ID sg) \<longrightarrow> m\<lparr>msg_PublishedAt := None\<rparr> \<in> set (outbox (db w'))) \<and>
       (\<forall>m\<in>set (outbox (db w')). msg_SagaID m = Some (saga_ID sg) \<longrightarrow> msg_PublishedAt m = None) \<and>
       (broker \<longrightarrow> (\<exists>m\<in>set (outbox (db w')). covers E sg m \<and> msg_PublishedAt m = None))
   | StateCompensating \<Rightarrow>
       (saga_SubscriptionID sg \<in> sub_ID ` set (subscriptions (db w')) \<longrightarrow> saga_in (saga_ID sg) {StateFailed} (db w') \<and>
          (\<forall>s\<in>set (subscriptions (db w')). sub_ID s = saga_SubscriptionID sg \<longrightarrow> sub_Status s = StatusFailed))
   | _ \<Rightarrow> True)"
proof -
  have inv: "db_ok (db w)" "saga_ids_canonical E (db w)" "broker \<longrightarrow> covered E (db w)" using assms(3) by (simp_all add: sys_inv_def)
  note sw = Sweep_recovers [OF assms(1,2) inv(1,2) assms(4-6)]
  have kept: "m\<lparr>msg_PublishedAt := None\<rparr> \<in> set (outbox (db w'))"
    if st: "saga_State sg = StateSubscriptionCreated" and m: "m \<in> set (outbox (db w))" "msg_SagaID m = Some (saga_ID sg)" for m
  proof -
    obtain m' where m': "m' \<in> set (outbox (db w'))" "msg_kept m m'" using Sweep_keeps_messages [OF assms(1) m(1)] by blast
    have "msg_SagaID m' = msg_SagaID (m\<lparr>msg_PublishedAt := msg_PublishedAt m'\<rparr>)"
      using m'(2) unfolding msg_kept_def by (rule arg_cong)
    then have "msg_SagaID m' = Some (saga_ID sg)" using m(2) by simp
    then have "msg_PublishedAt m' = None" using sw m'(1) st by (simp add: swept_ok_def)
    then have "m' = m\<lparr>msg_PublishedAt := None\<rparr>" using m'(2) by (simp add: msg_kept_def)
    then show ?thesis using m'(1) by simp
  qed
  have "\<exists>m\<in>set (outbox (db w')). covers E sg m \<and> msg_PublishedAt m = None"
    if st: "saga_State sg = StateSubscriptionCreated" and br: broker
  proof -
    obtain m where m: "m \<in> set (outbox (db w))" "covers E sg m" using inv(3) assms(4) br by (auto simp: covered_def)
    then have "m\<lparr>msg_PublishedAt := None\<rparr> \<in> set (outbox (db w'))" by (intro kept [OF st]) (simp_all add: covers_def)
    then show ?thesis using m(2) by (intro bexI) (simp_all add: covers_def)
  qed
  then show ?thesis using sw kept by (cases "saga_State sg") (simp_all add: swept_ok_def)
qed

definition stuck_world :: world where
  "stuck_world = sample_world\<lparr>hist := [TimeNow, TimeNow],
     db := (db sample_world)\<lparr>sagas := [sample_saga\<lparr>saga_State := StateCompensating\<rparr>]\<rparr>\<rparr>"

theorem sweep_recovers_witness:
  "saga_in ''u1'' {StateFailed} (db (snd (Sweep calm_env (MarkFailed calm_env) 1 stuck_world)))"
proof -
  have ok: "sys_inv calm_env False (db stuck_world)"
    by (simp add: stuck_world_def sample_defs init_world_def empty_db_def db_ok_def subs_ok_def sagas_ok_def
        outbox_ok_def repos_ok_def saga_ids_canonical_def calm_env_def sys_inv_def)
  let ?sg = "sample_saga\<lparr>saga_State := StateCompensating\<rparr>"
  have "?sg \<in> set (sagas (db stuck_world))"
    "resumable (time_Now calm_env (hist stuck_world) - sint (1 :: duration)) ?sg"
    "length (filter (resumable (time_Now calm_env (hist stuck_world) - sint (1 :: duration))) (sagas (db stuck_world))) \<le> 100"
    by (simp_all add: stuck_world_def resumable_def calm_env_def sample_saga_def new_saga_def)
  note swept = sweep_recovers [OF prod.collapse [symmetric] calm_pg_up(1) ok this]
  have "1 \<in> sub_ID ` set (subscriptions (db (snd (Sweep calm_env (MarkFailed calm_env) 1 stuck_world))))"
    by (simp add: Sweep_def now_def FindResumable_def run_stmt_def MarkFailed_def mark_failed_stmt_def affected_def
        sweep_saga_def UpdateState_def update_saga_def stuck_world_def sample_defs env_defs Let_def)
  with swept show ?thesis by (simp add: sample_saga_def new_saga_def)
qed

text \<open>
  Whatever fails during a sweep, sagas move only along their edges, settled sagas are not
  touched, and the constraints of the schema are kept.
\<close>

theorem sweep_legal:
  assumes "Sweep E (MarkFailed E) stale w = (r, w')" and "db_ok (db w)" and "saga_ids_canonical E (db w)"
  shows "sagas_moved (sagas (db w)) (sagas (db w')) \<and> db_ok (db w')"
  using store_compensator.Sweep_moves [OF assms(1) _ assms(3)] assms(2)
    grows_ok [OF store_compensator.Sweep_grows [OF assms(1)] assms(2)] by (simp add: db_ok_def)

theorem sweep_legal_witness:
  "db_ok (db (snd (Sweep calm_env (MarkFailed calm_env) 1 sample_world)))"
  using sweep_legal [OF prod.collapse [symmetric] sample_world_ok] by simp

section \<open>The outbox relay\<close>

text \<open>
  C9: The relay never loses a command. Whatever fails during a drain, the messages handed to
  the broker are the first \<open>k\<close> unpublished ones, in the order they were enqueued and at most a
  hundred of them, and a message that is no longer unpublished afterwards is one of those.
\<close>

theorem relay_never_loses:
  "\<exists>k \<le> min 100 (length (pending_msgs w)).
     sent_msgs (drain (main_relay E i) w) =
       sent_msgs w @ map (\<lambda>m. (msg_RoutingKey m, msg_MessageID m, msg_Payload m)) (take k (pending_msgs w)) \<and>
     {m \<in> set (pending_msgs w). m \<notin> set (pending_msgs (drain (main_relay E i) w))} \<subseteq>
       {m. msg_ID m \<in> msg_ID ` set (take k (pending_msgs w))} \<and>
     set (pending_msgs (drain (main_relay E i) w)) \<subseteq> set (pending_msgs w)"
proof -
  have "relay_batch (main_relay E i) = 100" by (simp add: main_relay_def NewRelay_def)
  with relay.drain_ledger [OF TrueI, of E i w] show ?thesis by (elim conjE exE) (rule_tac x = k in exI, auto)
qed

text \<open>
  With the database and the broker up, a drain publishes the oldest hundred unpublished
  commands, in order, and exactly these are marked as published.
\<close>

theorem relay_delivers:
  assumes "pg_up E" and "\<And>h p. amqp_Publish E h p = None" and "db_ok (db w)"
  shows "sent_msgs (drain (main_relay E i) w) =
      sent_msgs w @ map (\<lambda>m. (msg_RoutingKey m, msg_MessageID m, msg_Payload m)) (take 100 (pending_msgs w)) \<and>
    pending_msgs (drain (main_relay E i) w) = drop 100 (pending_msgs w)"
  by (rule drain_up [OF assms])

theorem relay_delivers_witness:
  "sent_msgs (drain (main_relay calm_env 1) sample_world) =
     [(RoutingConfirm, ''confirm:tok'', msg_Payload sample_msg)]"
proof -
  have "pending_msgs sample_world = [sample_msg]" "sent_msgs sample_world = []"
    by (simp_all add: pending_msgs_def sent_msgs_def map_filter_simps sample_defs init_world_def)
  moreover have "\<And>h p. amqp_Publish calm_env h p = None" by (simp add: calm_env_def)
  ultimately show ?thesis
    using relay_delivers [OF calm_pg_up(1) _ sample_world_ok(1), of 1]
    by (simp add: sample_msg_def confirm_msg_def)
qed

section \<open>Sagas that are not recovered\<close>

text \<open>
  Two kinds of stuck saga: one whose compensation began and whose subscription was then deleted, and
  one that waits for a confirmation and has no command, as the gRPC transport creates them.
\<close>

definition beyond_recovery :: "env \<Rightarrow> Saga \<Rightarrow> db \<Rightarrow> bool" where
  "beyond_recovery E g d \<longleftrightarrow> g \<in> set (sagas d) \<and>
     (saga_State g = StateCompensating \<and> saga_SubscriptionID g \<notin> sub_ID ` set (subscriptions d) \<or>
      saga_State g = StateSubscriptionCreated \<and> (\<forall>m\<in>set (outbox d). msg_SagaID m \<noteq> Some (saga_ID g)))"

text \<open>A pass over the stuck saga itself does nothing; a pass over another one leaves it stuck.\<close>

lemma sweep_saga_self:
  assumes "beyond_recovery E g (db w)" "pg_uuid E (saga_ID g) = Some (saga_ID g)"
  shows "db (sweep_saga E (MarkFailed E) g w) = db w"
  using assms(1) unfolding beyond_recovery_def
proof (elim conjE disjE)
  assume comp: "saga_State g = StateCompensating" "saga_SubscriptionID g \<notin> sub_ID ` set (subscriptions (db w))"
  obtain e w' where "MarkFailed E (saga_SubscriptionID g) w = (Inl e, w')" "db w' = db w"
    using MarkFailed_gone [OF comp(2)] by blast
  then show ?thesis using comp(1) by (simp add: sweep_saga_def)
next
  assume wait: "saga_State g = StateSubscriptionCreated" "\<forall>m\<in>set (outbox (db w)). msg_SagaID m \<noteq> Some (saga_ID g)"
  obtain r w1 where rq: "Requeue E (saga_ID g) w = (r, w1)" by (cases "Requeue E (saga_ID g) w")
  have "upd_rows (\<lambda>m. msg_SagaID m = Some (saga_ID g)) (\<lambda>m. m\<lparr>msg_PublishedAt := None\<rparr>) (outbox (db w)) = outbox (db w)"
    using wait(2) by (rule upd_rows_none)
  then show ?thesis using Requeue_effect [OF rq] wait(1) assms(2) rq by (auto simp: sweep_saga_def)
qed

lemma UpdateState_other:
  assumes "UpdateState E i st le w = (r, w')" "g \<in> set (sagas (db w))" "pg_uuid E i = Some j" "j \<noteq> saga_ID g"
  shows "g \<in> set (sagas (db w'))"
  using UpdateState_sagas [OF assms(1)] assms(2-4) by (auto simp: set_upd_rows)

lemma sweep_saga_other:
  assumes stuck: "beyond_recovery E g (db w)" and can: "pg_uuid E (saga_ID sg) = Some (saga_ID sg)" and ne: "saga_ID sg \<noteq> saga_ID g"
  shows "beyond_recovery E g (db (sweep_saga E (MarkFailed E) sg w))"
proof -
  obtain q w1 where rq: "Requeue E (saga_ID sg) w = (q, w1)" by (cases "Requeue E (saga_ID sg) w")
  obtain m w2 where mk: "MarkFailed E (saga_SubscriptionID sg) w = (m, w2)" by (cases "MarkFailed E (saga_SubscriptionID sg) w")
  let ?up = "UpdateState E (saga_ID sg) StateFailed ''compensation finished by sweeper'' w2"
  obtain u w3 where up: "?up = (u, w3)" by (cases ?up)
  have 1: "beyond_recovery E g (db w1)"
    using Requeue_effect [OF rq] stuck by (auto simp: beyond_recovery_def set_upd_rows)
  have 2: "beyond_recovery E g (db w2)"
  proof -
    have "sub_ID ` set (subscriptions (db w2)) = sub_ID ` set (subscriptions (db w))"
      "sagas (db w2) = sagas (db w)" "outbox (db w2) = outbox (db w)"
      using MarkFailed_effect [OF mk] by (auto simp: set_map [symmetric] row_simps simp del: set_map)
    then show ?thesis using stuck unfolding beyond_recovery_def by simp
  qed
  have "g \<in> set (sagas (db w3))" using 2 UpdateState_other [OF up _ can ne] by (simp add: beyond_recovery_def)
  then have 3: "beyond_recovery E g (db w3)"
    using 2 UpdateState_frame [OF up] by (auto simp: beyond_recovery_def)
  show ?thesis
    using stuck 1 2 3 rq mk up by (cases m) (auto simp: sweep_saga_def split: saga_state.split)
qed

lemma sweep_beyond_recovery:
  assumes "Sweep E (MarkFailed E) stale w = (r, w')" "db_ok (db w)" "saga_ids_canonical E (db w)" "beyond_recovery E g (db w)"
  shows "beyond_recovery E g (db w')"
proof -
  have list: "beyond_recovery E g (db (sweep_sagas E (MarkFailed E) gs v))"
    if "beyond_recovery E g (db v)" "pg_uuid E (saga_ID g) = Some (saga_ID g)"
      "\<forall>sg\<in>set gs. pg_uuid E (saga_ID sg) = Some (saga_ID sg) \<and> (saga_ID sg = saga_ID g \<longrightarrow> sg = g)" for gs v
    using that
  proof (induction gs arbitrary: v)
    case (Cons sg gs)
    have "beyond_recovery E g (db (sweep_saga E (MarkFailed E) sg v))"
      using Cons.prems sweep_saga_self [of E g v] sweep_saga_other [of E g v sg] by (cases "sg = g") auto
    then show ?case using Cons by simp
  qed simp
  have g: "g \<in> set (sagas (db w))" using assms(4) by (simp add: beyond_recovery_def)
  have rows: "pg_uuid E (saga_ID sg) = Some (saga_ID sg) \<and> (saga_ID sg = saga_ID g \<longrightarrow> sg = g)" if "sg \<in> set (sagas (db w))" for sg
    using that g assms(2,3) by (auto simp: db_ok_def sagas_ok_def saga_ids_canonical_def distinct_map inj_on_def)
  from assms(1) show ?thesis
  proof (cases rule: store_compensator.Sweep_cases)
    case (error e)
    then show ?thesis using assms(4) by simp
  next
    case (swept t w1 w2 gs)
    have "set gs \<subseteq> set (sagas (db w))" using FindResumable_Inr [OF swept(1)] swept(2) by auto
    then show ?thesis using list [of w2 gs] swept(3,4) assms(4) rows g by auto
  qed
qed

text \<open>
  C36: Some sagas are never recovered. A compensating saga whose subscription was deleted, and a saga
  without an outbox command that waits for its confirmation (as the gRPC transport leaves it when the
  process stops between the transaction and the settlement), stay exactly as they are through any
  number of sweeps, whatever else these sweeps do and however the database answers.
\<close>

theorem never_recovered:
  assumes "uuid_column E" and "sys_inv E False (db w)" and "beyond_recovery E g (db w)"
  shows "beyond_recovery E g (db (((\<lambda>v. snd (Sweep E (MarkFailed E) stale v)) ^^ n) w))"
proof -
  let ?w = "\<lambda>k. ((\<lambda>v. snd (Sweep E (MarkFailed E) stale v)) ^^ k) w"
  have "sys_inv E False (db (?w n)) \<and> beyond_recovery E g (db (?w n))"
  proof (induction n)
    case (Suc k)
    obtain r v where run: "Sweep E (MarkFailed E) stale (?w k) = (r, v)" by (cases "Sweep E (MarkFailed E) stale (?w k)")
    have "sys_inv E False (db v)" using Sweep_evo [OF run, of False] Suc.IH assms(1) by (simp add: evo_def)
    moreover have "beyond_recovery E g (db v)" using sweep_beyond_recovery [OF run] Suc.IH by (simp add: sys_inv_def)
    ultimately show ?case using run by simp
  qed (use assms(2,3) in simp)
  then show ?thesis by simp
qed

theorem never_recovered_witness:
  "let w = sample_world\<lparr>db := (db sample_world)\<lparr>outbox := []\<rparr>\<rparr> in
   beyond_recovery calm_env sample_saga (db (((\<lambda>v. snd (Sweep calm_env (MarkFailed calm_env) 1 v)) ^^ 5) w))"
proof -
  let ?w = "sample_world\<lparr>db := (db sample_world)\<lparr>outbox := []\<rparr>\<rparr>"
  have "sagas (db ?w) = [sample_saga]" "subscriptions (db ?w) = [sample_sub]" by (simp_all add: sample_world_def)
  then have "beyond_recovery calm_env sample_saga (db ?w)"
    by (simp add: beyond_recovery_def sample_saga_def new_saga_def)
  moreover have "sys_inv calm_env False (db ?w)"
    using sample_world_ok by (auto simp: sys_inv_def db_ok_def saga_ids_canonical_def outbox_ok_def)
  ultimately show ?thesis using never_recovered [OF calm_uuid_column(1)] by (simp add: Let_def)
qed

end
