(* ===== verification/Grpc_Stub.thy ===== *)
theory Grpc_Stub
  imports Notifier
begin

text \<open>
  The code protoc generated for the notifier's service (\<open>gen/notifier/v1\<close>): the messages with their
  getters, the client stub, the method handler, the service descriptor and its registration; and
  how the two processes use it (\<open>internal/notification/grpc_sender.go\<close>, \<open>cmd/notifier/grpc.go\<close>,
  \<open>cmd/notifier/main.go\<close>). The gRPC library is outside: of it the code relies on a call being carried
  to the handler registered under the method's path, and the coding of messages is a parameter. The
  lemmas show that a call through the stubs is the direct call \<open>grpc_sender\<close> the other theories use.
\<close>

section \<open>Messages\<close>

record SendConfirmationRequest =
  pb_Email :: string
  pb_Repo :: string
  pb_ConfirmUrl :: string

text \<open>The response has no fields.\<close>

datatype SendConfirmationResponse = SendConfirmationResponse

text \<open>\<open>new\<close> and \<open>Reset\<close> give the zero value.\<close>

definition Reset_request :: SendConfirmationRequest where
  "Reset_request = \<lparr>pb_Email = [], pb_Repo = [], pb_ConfirmUrl = []\<rparr>"

text \<open>The getters work on a nil pointer.\<close>

definition GetEmail :: "SendConfirmationRequest option \<Rightarrow> string" where
  "GetEmail x = (case x of Some m \<Rightarrow> pb_Email m | None \<Rightarrow> [])"

definition GetRepo :: "SendConfirmationRequest option \<Rightarrow> string" where
  "GetRepo x = (case x of Some m \<Rightarrow> pb_Repo m | None \<Rightarrow> [])"

definition GetConfirmUrl :: "SendConfirmationRequest option \<Rightarrow> string" where
  "GetConfirmUrl x = (case x of Some m \<Rightarrow> pb_ConfirmUrl m | None \<Rightarrow> [])"

lemmas getter_defs = GetEmail_def GetRepo_def GetConfirmUrl_def

section \<open>The server side\<close>

text \<open>The interface \<open>NotifierServiceServer\<close> has one method.\<close>

type_synonym NotifierServiceServer = "SendConfirmationRequest option \<Rightarrow> (world, SendConfirmationResponse) act"

definition Unimplemented_SendConfirmation :: NotifierServiceServer where
  "Unimplemented_SendConfirmation req w =
     (Inl (grpc_status ''Unimplemented'' ''method SendConfirmation not implemented''), w)"

definition FullMethodName :: string where
  "FullMethodName = ''/notifier.v1.NotifierService/SendConfirmation''"

record UnaryServerInfo =
  info_Server :: NotifierServiceServer
  info_FullMethod :: string

type_synonym interceptor =
  "SendConfirmationRequest option \<Rightarrow> UnaryServerInfo \<Rightarrow> NotifierServiceServer \<Rightarrow> (world, SendConfirmationResponse) act"

text \<open>
  The handler decodes into a new message; \<open>decode\<close> is the library's decoder, already holding the bytes.
  Without an interceptor it calls the method, otherwise the interceptor decides.
\<close>

type_synonym method_handler =
  "NotifierServiceServer \<Rightarrow> (SendConfirmationRequest \<Rightarrow> gerr + SendConfirmationRequest) \<Rightarrow> interceptor option \<Rightarrow>
   (world, SendConfirmationResponse) act"

definition SendConfirmation_Handler :: method_handler where
  "SendConfirmation_Handler srv decode ic w =
     (case decode Reset_request of
        Inl err \<Rightarrow> (Inl err, w)
      | Inr req \<Rightarrow>
          (case ic of
             None \<Rightarrow> srv (Some req) w
           | Some intercept \<Rightarrow>
               (let info = \<lparr>info_Server = srv, info_FullMethod = FullMethodName\<rparr>;
                    handler = (\<lambda>req. srv req)
                in intercept (Some req) info handler w)))"

record MethodDesc =
  MethodName :: string
  MethodHandler :: method_handler

record ServiceDesc =
  ServiceName :: string
  Methods :: "MethodDesc list"
  Metadata :: string

definition NotifierService_ServiceDesc :: ServiceDesc where
  "NotifierService_ServiceDesc =
     \<lparr>ServiceName = ''notifier.v1.NotifierService'',
      Methods = [\<lparr>MethodName = ''SendConfirmation'', MethodHandler = SendConfirmation_Handler\<rparr>],
      Metadata = ''notifier/v1/notifier.proto''\<rparr>"

text \<open>A server is what was registered with it.\<close>

type_synonym grpc_Server = "(ServiceDesc \<times> NotifierServiceServer) list"

definition RegisterNotifierServiceServer :: "NotifierServiceServer \<Rightarrow> grpc_Server \<Rightarrow> grpc_Server" where
  "RegisterNotifierServiceServer srv s = s @ [(NotifierService_ServiceDesc, srv)]"

text \<open>\<open>confirmationServer\<close> overrides the embedded method.\<close>

definition confirmationServer :: "env \<Rightarrow> SMTPSender \<Rightarrow> deduper \<Rightarrow> NotifierServiceServer" where
  "confirmationServer E sender dd req w =
     (case server_SendConfirmation E sender dd (GetEmail req) (GetRepo req) (GetConfirmUrl req) w of
        (Inl e, w1) \<Rightarrow> (Inl e, w1)
      | (Inr _, w1) \<Rightarrow> (Inr SendConfirmationResponse, w1))"

text \<open>The notifier's server: \<open>grpc.NewServer()\<close>, without interceptors, and the registration.\<close>

definition notifier_grpcSrv :: "env \<Rightarrow> SMTPSender \<Rightarrow> deduper \<Rightarrow> grpc_Server" where
  "notifier_grpcSrv E sender dd = RegisterNotifierServiceServer (confirmationServer E sender dd) []"

section \<open>The connection\<close>

text \<open>
  A path is a slash, the service's name, a slash and the method's name. The table of a server's
  handlers by path; a call under a path that is not in it is refused by the library.
\<close>

definition method_path :: "ServiceDesc \<Rightarrow> MethodDesc \<Rightarrow> string" where
  "method_path sd md = ''/'' @ ServiceName sd @ ''/'' @ MethodName md"

definition method_table :: "grpc_Server \<Rightarrow> (string \<times> method_handler \<times> NotifierServiceServer) list" where
  "method_table s = concat (map (\<lambda>(sd, srv). map (\<lambda>md. (method_path sd md, MethodHandler md, srv)) (Methods sd)) s)"

definition serve_method ::
  "grpc_Server \<Rightarrow> string \<Rightarrow> (SendConfirmationRequest \<Rightarrow> gerr + SendConfirmationRequest) \<Rightarrow> (world, SendConfirmationResponse) act" where
  "serve_method s path decode w =
     (case map_of (method_table s) path of
        None \<Rightarrow> (Inl (grpc_status ''Unimplemented'' (''unknown method '' @ path)), w)
      | Some (h, srv) \<Rightarrow> h srv decode None w)"

text \<open>
  \<open>Invoke\<close> on a connection: the message is encoded before anything is sent; then the call may not
  reach the server, or its answer may be lost or late. \<open>cd\<close> is the codec: encoding, and decoding into
  a given message.
\<close>

record codec =
  cd_Marshal :: "SendConfirmationRequest \<Rightarrow> gerr + string"
  cd_Unmarshal :: "string \<Rightarrow> SendConfirmationRequest \<Rightarrow> gerr + SendConfirmationRequest"

type_synonym ClientConn = "string \<Rightarrow> SendConfirmationRequest \<Rightarrow> (world, SendConfirmationResponse) act"

definition Invoke :: "env \<Rightarrow> codec \<Rightarrow> grpc_Server \<Rightarrow> ClientConn" where
  "Invoke E cd s path req w =
     (case cd_Marshal cd req of
        Inl e \<Rightarrow> (Inl e, w)
      | Inr bytes \<Rightarrow>
          (case grpc_Invoke E (hist w) of
             RpcUnreached m \<Rightarrow> (Inl (ErrorString m), logged (GrpcInvoke False) w)
           | RpcDelivered \<Rightarrow> serve_method s path (cd_Unmarshal cd bytes) (logged (GrpcInvoke True) w)
           | RpcReplyLost m \<Rightarrow>
               (case serve_method s path (cd_Unmarshal cd bytes) (logged (GrpcInvoke True) w) of
                  (_, w1) \<Rightarrow> (Inl (ErrorString m), w1))))"

section \<open>The client side\<close>

definition client_SendConfirmation :: "ClientConn \<Rightarrow> SendConfirmationRequest \<Rightarrow> (world, SendConfirmationResponse) act" where
  "client_SendConfirmation cc req w =
     (case cc FullMethodName req w of
        (Inl err, w1) \<Rightarrow> (Inl err, w1)
      | (Inr out, w1) \<Rightarrow> (Inr out, w1))"

record GRPCConfirmationSender =
  gs_client :: "SendConfirmationRequest \<Rightarrow> (world, SendConfirmationResponse) act"
  gs_timeout :: duration

definition NewGRPCConfirmationSender :: "ClientConn \<Rightarrow> duration \<Rightarrow> GRPCConfirmationSender" where
  "NewGRPCConfirmationSender conn timeout = \<lparr>gs_client = client_SendConfirmation conn, gs_timeout = timeout\<rparr>"

definition sender_SendConfirmation ::
  "GRPCConfirmationSender \<Rightarrow> string \<Rightarrow> string \<Rightarrow> string \<Rightarrow> (world, unit) act" where
  "sender_SendConfirmation s email repo confirmURL w =
     (case gs_client s \<lparr>pb_Email = email, pb_Repo = repo, pb_ConfirmUrl = confirmURL\<rparr> w of
        (Inl err, w1) \<Rightarrow> (Inl (Errorf ''grpc send confirmation'' err), w1)
      | (Inr _, w1) \<Rightarrow> (Inr (), w1))"

section \<open>The stubs refine the direct call\<close>

text \<open>The path the client asks for is the path of the only method the notifier registers.\<close>

lemma registered_path: "method_path NotifierService_ServiceDesc \<lparr>MethodName = ''SendConfirmation'', MethodHandler = h\<rparr> = FullMethodName"
  by (simp add: method_path_def NotifierService_ServiceDesc_def FullMethodName_def)

lemma method_table_notifier:
  "method_table (notifier_grpcSrv E s dd) = [(FullMethodName, SendConfirmation_Handler, confirmationServer E s dd)]"
  using registered_path
  by (simp add: method_table_def notifier_grpcSrv_def RegisterNotifierServiceServer_def NotifierService_ServiceDesc_def)

lemma serve_method_notifier:
  "serve_method (notifier_grpcSrv E s dd) path decode w =
     (if path = FullMethodName then SendConfirmation_Handler (confirmationServer E s dd) decode None w
      else (Inl (grpc_status ''Unimplemented'' (''unknown method '' @ path)), w))"
  by (simp add: serve_method_def method_table_notifier)

text \<open>What the codec promises: a message it encodes is decoded into a new message unchanged.\<close>

definition codec_ok :: "codec \<Rightarrow> bool" where
  "codec_ok cd \<longleftrightarrow> (\<forall>m bytes. cd_Marshal cd m = Inr bytes \<longrightarrow> cd_Unmarshal cd bytes Reset_request = Inr m)"

definition stub_sender :: "env \<Rightarrow> codec \<Rightarrow> SMTPSender \<Rightarrow> duration \<Rightarrow> duration \<Rightarrow> string \<Rightarrow> string \<Rightarrow> string \<Rightarrow> (world, unit) act" where
  "stub_sender E cd s t timeout =
     sender_SendConfirmation (NewGRPCConfirmationSender (Invoke E cd (notifier_grpcSrv E s (redisDeduper E t))) timeout)"

lemma notifier_handles:
  assumes "codec_ok cd" "cd_Marshal cd m = Inr bytes"
  shows "serve_method (notifier_grpcSrv E s dd) FullMethodName (cd_Unmarshal cd bytes) w = confirmationServer E s dd (Some m) w"
  using assms by (simp add: serve_method_notifier SendConfirmation_Handler_def codec_ok_def)

lemma stub_sender_refines:
  assumes "codec_ok cd"
  shows "stub_sender E cd s t timeout email repo url w =
     (case cd_Marshal cd \<lparr>pb_Email = email, pb_Repo = repo, pb_ConfirmUrl = url\<rparr> of
        Inl e \<Rightarrow> (Inl (Errorf ''grpc send confirmation'' e), w)
      | Inr _ \<Rightarrow> grpc_sender E s t email repo url w)"
  by (auto simp: stub_sender_def sender_SendConfirmation_def NewGRPCConfirmationSender_def client_SendConfirmation_def
      Invoke_def notifier_handles [OF assms] confirmationServer_def getter_defs grpc_sender_def grpc_SendConfirmation_def
      split: sum.split rpc_fate.split prod.split)

text \<open>A nil request is an invalid argument and not a crash.\<close>

lemma nil_request:
  "confirmationServer E s dd None w = (Inl (grpc_status ''InvalidArgument'' ''email, repo and confirm_url are required''), w)"
  by (simp add: confirmationServer_def server_SendConfirmation_def getter_defs)

section \<open>A codec\<close>

text \<open>
  The law of a codec can hold: the wire format of a message of three strings, each a tag, a length in
  base 128 and the bytes, an empty string being left out. The decoder takes the fields in ascending
  order, as the encoder writes them.
\<close>

fun varint :: "nat \<Rightarrow> string" where
  "varint n = (if n < 128 then [char_of n] else char_of (128 + n mod 128) # varint (n div 128))"

declare varint.simps [simp del]

fun get_varint :: "string \<Rightarrow> (nat \<times> string) option" where
  "get_varint [] = None"
| "get_varint (c # cs) =
     (if of_char c < (128 :: nat) then Some (of_char c, cs)
      else map_option (\<lambda>(n, r). (of_char c - 128 + 128 * n, r)) (get_varint cs))"

lemma get_varint_inverse: "get_varint (varint n @ r) = Some (n, r)"
proof (induction n rule: varint.induct)
  case (1 n)
  show ?case
  proof (cases "n < 128")
    case True
    then show ?thesis by (simp add: varint.simps [of n])
  next
    case False
    have "n mod 128 + 128 * (n div 128) = n" by simp
    then show ?thesis using 1 False by (simp add: varint.simps [of n])
  qed
qed

definition field_tag :: "nat \<Rightarrow> char" where
  "field_tag k = char_of (8 * k + 2)"

definition put_field :: "nat \<Rightarrow> string \<Rightarrow> string" where
  "put_field k s = (if s = [] then [] else field_tag k # varint (length s) @ s)"

definition get_field :: "nat \<Rightarrow> string \<Rightarrow> string \<times> string" where
  "get_field k b =
     (case b of
        [] \<Rightarrow> ([], b)
      | c # cs \<Rightarrow> (if c \<noteq> field_tag k then ([], b)
                  else (case get_varint cs of None \<Rightarrow> ([], b) | Some (n, r) \<Rightarrow> (take n r, drop n r))))"

lemma get_put_field: "r = [] \<or> hd r \<noteq> field_tag k \<Longrightarrow> get_field k (put_field k s @ r) = (s, r)"
  by (cases r) (auto simp: get_field_def put_field_def get_varint_inverse)

definition wire_codec :: codec where
  "wire_codec =
     \<lparr>cd_Marshal = (\<lambda>m. Inr (put_field 1 (pb_Email m) @ put_field 2 (pb_Repo m) @ put_field 3 (pb_ConfirmUrl m))),
      cd_Unmarshal = (\<lambda>b m.
        (case get_field 1 b of (e, b1) \<Rightarrow>
         case get_field 2 b1 of (r, b2) \<Rightarrow>
         case get_field 3 b2 of (u, b3) \<Rightarrow>
           Inr \<lparr>pb_Email = e, pb_Repo = r, pb_ConfirmUrl = u\<rparr>))\<rparr>"

lemma field_tags: "field_tag (Suc 0) = CHR 0x0A" "field_tag 2 = CHR 0x12" "field_tag 3 = CHR 0x1A"
  by code_simp+

lemma wire_codec_ok: "codec_ok wire_codec"
  unfolding codec_ok_def
proof (intro allI impI)
  fix m bytes
  assume b: "cd_Marshal wire_codec m = Inr bytes"
  let ?b3 = "put_field 3 (pb_ConfirmUrl m)"
  let ?b2 = "put_field 2 (pb_Repo m) @ ?b3"
  have "?b3 = [] \<or> hd ?b3 \<noteq> field_tag 2" "?b2 = [] \<or> hd ?b2 \<noteq> field_tag 1"
    by (auto simp: put_field_def field_tags)
  then have "get_field 2 ?b2 = (pb_Repo m, ?b3)" "get_field 1 (put_field 1 (pb_Email m) @ ?b2) = (pb_Email m, ?b2)"
    by (simp_all only: get_put_field)
  moreover have "get_field 3 ?b3 = (pb_ConfirmUrl m, [])" using get_put_field [of "[]" 3] by simp
  ultimately show "cd_Unmarshal wire_codec bytes Reset_request = Inr m"
    using b by (auto simp: wire_codec_def)
qed

section \<open>The descriptor\<close>

text \<open>
  The file descriptor the generated code hands to the library, and a reader of its fields: a field is
  a number and a value, a number or bytes (\<open>fuel\<close> bounds the number of fields; a field takes at least
  two bytes). The reader shows that the descriptor describes the messages, numbers and method of the
  rest of the generated code.
\<close>

definition rawDesc :: string where
  "rawDesc =
     [CHR 0x0A] @
     [CHR 0x1A] @ ''notifier/v1/notifier.proto'' @ [CHR 0x12, CHR 0x0B] @ ''notifier.v1'' @ [CHR 0x22] @ ''d'' @ [CHR 0x0A] @
     [CHR 0x17] @ ''SendConfirmationRequest'' @ [CHR 0x12, CHR 0x14, CHR 0x0A] @
     [CHR 0x05] @ ''email'' @ [CHR 0x18, CHR 0x01] @ '' '' @ [CHR 0x01] @ ''('' @ [CHR 0x09] @ ''R'' @ [CHR 0x05] @ ''email'' @ [CHR 0x12, CHR 0x12, CHR 0x0A] @
     [CHR 0x04] @ ''repo'' @ [CHR 0x18, CHR 0x02] @ '' '' @ [CHR 0x01] @ ''('' @ [CHR 0x09] @ ''R'' @ [CHR 0x04] @ ''repo'' @ [CHR 0x12, CHR 0x1F, CHR 0x0A] @
     [CHR 0x0B] @ ''confirm_url'' @ [CHR 0x18, CHR 0x03] @ '' '' @ [CHR 0x01] @ ''('' @ [CHR 0x09] @ ''R'' @ [CHR 0x0A] @
     ''confirmUrl'' @ [CHR 0x22, CHR 0x1A, CHR 0x0A] @
     [CHR 0x18] @ ''SendConfirmationResponse2r'' @ [CHR 0x0A] @
     [CHR 0x0F] @ ''NotifierService'' @ [CHR 0x12] @ ''_'' @ [CHR 0x0A] @
     [CHR 0x10] @ ''SendConfirmation'' @ [CHR 0x12] @ ''$.notifier.v1.SendConfirmationRequest'' @ [CHR 0x1A] @ ''%.notifier.v1.SendConfirmationResponseB4Z2github-release-notifier/gen/notifier/v1;notifierv1b'' @ [CHR 0x06] @ ''proto3''"

datatype wire_value = Number nat | Bytes string

fun wire_fields :: "nat \<Rightarrow> string \<Rightarrow> (nat \<times> wire_value) list option" where
  "wire_fields fuel [] = Some []"
| "wire_fields 0 b = None"
| "wire_fields (Suc fuel) b =
     (case get_varint b of
        None \<Rightarrow> None
      | Some (tag, r) \<Rightarrow>
          (case get_varint r of
             None \<Rightarrow> None
           | Some (n, r') \<Rightarrow>
               (if tag mod 8 = 0 then map_option (Cons (tag div 8, Number n)) (wire_fields fuel r')
                else if tag mod 8 = 2 \<and> n \<le> length r'
                then map_option (Cons (tag div 8, Bytes (take n r'))) (wire_fields fuel (drop n r'))
                else None)))"

definition fields_of :: "string \<Rightarrow> (nat \<times> wire_value) list" where
  "fields_of b = (case wire_fields (length b) b of None \<Rightarrow> [] | Some fs \<Rightarrow> fs)"

definition bytes_at :: "nat \<Rightarrow> string \<Rightarrow> string list" where
  "bytes_at k b = concat (map (\<lambda>(n, v). case v of Bytes x \<Rightarrow> (if n = k then [x] else []) | Number _ \<Rightarrow> []) (fields_of b))"

definition numbers_at :: "nat \<Rightarrow> string \<Rightarrow> nat list" where
  "numbers_at k b = concat (map (\<lambda>(n, v). case v of Number x \<Rightarrow> (if n = k then [x] else []) | Bytes _ \<Rightarrow> []) (fields_of b))"

text \<open>Messages (field 4 of a file) with the name, number and type of their fields; services (field 6) with their methods.\<close>

definition described_messages :: "string \<Rightarrow> (string list \<times> (string list \<times> nat list \<times> nat list) list) list" where
  "described_messages b = map (\<lambda>m. (bytes_at 1 m, map (\<lambda>f. (bytes_at 1 f, numbers_at 3 f, numbers_at 5 f)) (bytes_at 2 m))) (bytes_at 4 b)"

definition described_paths :: "string \<Rightarrow> string list" where
  "described_paths b = concat (map (\<lambda>pkg. concat (map (\<lambda>sv. concat (map (\<lambda>name.
     map (\<lambda>m. ''/'' @ pkg @ ''.'' @ name @ ''/'' @ concat (bytes_at 1 m)) (bytes_at 2 sv)) (bytes_at 1 sv))) (bytes_at 6 b))) (bytes_at 2 b))"

lemma descriptor_messages:
  "described_messages rawDesc =
     [([''SendConfirmationRequest''],
       [([''email''], [1], [9]), ([''repo''], [2], [9]), ([''confirm_url''], [3], [9])]),
      ([''SendConfirmationResponse''], [])]"
  by code_simp

lemma descriptor_path: "described_paths rawDesc = [FullMethodName]"
  by code_simp

end
