(* ===== verification/Notifier_Properties.thy ===== *)
theory Notifier_Properties
  imports Grpc_Stub Sample_Env
begin

text \<open>
  The properties of the notifier process: what one delivery does, redeliveries, the gRPC transport
  through the generated code and its agreement with the broker transport, and the wire formats.
\<close>

text \<open>
  C10: One delivery of a saga-driven confirmation command. When Redis answers that its id was
  processed, it sends no mail, publishes one \<open>sent\<close> reply and is acknowledged. Otherwise (also when
  Redis fails, or the command has no id) it makes at most three mail attempts and publishes exactly
  one reply, \<open>sent\<close> if and only if the last attempt was accepted; it is acknowledged exactly when the
  mail went out or the failure was handed to the broker, and dead-lettered when both the mail and the
  failure report failed.
\<close>

theorem delivery_outcome:
  assumes "handle E (NewConsumer s (redisDeduper E t)) d w = (r, w')"
    and "d_RoutingKey d = RoutingConfirm" and "unmarshal_ConfirmationRequest (d_Body d) = Inr req"
    and "cr_SagaID req \<noteq> []"
  shows "db w' = db w \<and>
     (if d_MessageId d \<noteq> [] \<and> redis_seen E (hist w) (d_MessageId d)
      then r = Inr () \<and>
        (\<exists>ok. effects (hist w') = AmqpPublish (saga_reply (cr_SagaID req) SagaStatusSent) ok # effects (hist w))
      else \<exists>k out. k \<le> 2 \<and> effects (hist w') =
         outcome_effects (confirmation_mail s (cr_To req) (cr_ConfirmURL req)) (cr_SagaID req) k out @
           effects (hist w) \<and> (r = Inr () \<longleftrightarrow> out \<noteq> Unreported))"
proof -
  let ?c = "NewConsumer s (redisDeduper E t)"
  have c: "maxAttempts ?c = Suc 2" "cons_dedup ?c = redisDeduper E t" "cons_sender ?c = s"
    by (simp_all add: NewConsumer_def)
  from redis_dedup.handle_trace [OF assms(1) c(1,2) assms(2-4)] show ?thesis
    unfolding c(3) by (auto simp: quiet_def)
qed

definition sample_command :: json where
  "sample_command = marshal_ConfirmationRequest
     \<lparr>cr_SagaID = ''u1'', cr_To = ''a@b.co'', cr_ConfirmURL = ''http://x/api/confirm/tok''\<rparr>"

definition sample_delivery :: delivery where
  "sample_delivery = \<lparr>d_RoutingKey = RoutingConfirm, d_MessageId = ''confirm:tok'', d_Body = sample_command\<rparr>"

lemma sample_delivery_decodes [simp]:
  "d_RoutingKey sample_delivery = RoutingConfirm" "d_MessageId sample_delivery = ''confirm:tok''"
  "unmarshal_ConfirmationRequest (d_Body sample_delivery) =
     Inr \<lparr>cr_SagaID = ''u1'', cr_To = ''a@b.co'', cr_ConfirmURL = ''http://x/api/confirm/tok''\<rparr>"
  by (simp_all add: sample_delivery_def sample_command_def)

theorem delivery_outcome_witness:
  "\<exists>k out. k \<le> 2 \<and>
     effects (hist (snd (handle calm_env (NewConsumer sample_smtp (redisDeduper calm_env one_day)) sample_delivery init_world))) =
       outcome_effects (confirmation_mail sample_smtp ''a@b.co'' ''http://x/api/confirm/tok'') ''u1'' k out"
proof -
  have "\<not> redis_seen calm_env (hist init_world) (d_MessageId sample_delivery)"
    by (simp add: redis_seen_def calm_env_def key_live_def init_world_def)
  moreover have "effects (hist init_world) = []" by (simp add: init_world_def)
  ultimately show ?thesis
    using delivery_outcome [OF prod.collapse [symmetric] sample_delivery_decodes(1,3),
        of calm_env sample_smtp one_day init_world] by auto
qed




text \<open>A confirmation command handled while the mail server refuses everything.\<close>

lemma send_attempts_failing:
  assumes "\<And>h m. smtp_SendMail E h m \<noteq> None"
  shows "\<exists>e w'. send_attempts E pause (SendMail E m) n w = (Inl e, w')"
proof (induction n arbitrary: w)
  have one: "\<exists>e w'. SendMail E m w = (Inl e, w')" for w
    using assms [of "hist w" m] by (auto simp: SendMail_def)
  {
    case 0
    then show ?case using one by simp
  next
    case (Suc n)
    obtain e w1 where s: "SendMail E m w = (Inl e, w1)" using one by blast
    obtain b w2 where "backoff_or_done E pause w1 = (b, w2)" by (cases "backoff_or_done E pause w1")
    then show ?case using s Suc by (cases b) simp_all
  }
qed

lemma dispatch_failing:
  assumes "\<And>h m. smtp_SendMail E h m \<noteq> None" "\<And>h p. amqp_Publish E h p = None"
    "d_RoutingKey d = RoutingConfirm" "unmarshal_ConfirmationRequest (d_Body d) = Inr req" "cr_SagaID req \<noteq> []"
  shows "\<exists>k w'. dispatch E (NewConsumer s dd) d w = (Inr (), w') \<and> effects (hist w') =
     AmqpPublish (saga_reply (cr_SagaID req) SagaStatusFailed) True #
     replicate (Suc k) (SmtpSendMail (confirmation_mail s (cr_To req) (cr_ConfirmURL req)) False) @ effects (hist w)"
proof -
  let ?c = "NewConsumer s dd" and ?send = "SendConfirmationEmail E s (cr_To req) (cr_ConfirmURL req)"
  have c: "maxAttempts ?c = Suc 2" by (simp add: NewConsumer_def)
  have "?send = SendMail E (confirmation_mail s (cr_To req) (cr_ConfirmURL req))"
    by (simp add: SendConfirmationEmail_def sendEmail_def fun_eq_iff)
  then obtain e w1 where sw: "sendWithRetry E ?c ?send w = (Inl e, w1)"
    using send_attempts_failing [OF assms(1)] c by (fastforce simp: sendWithRetry_def)
  from sendWithRetry_trace [OF sw c] obtain k where "effects (hist w1) =
      replicate (Suc k) (SmtpSendMail (confirmation_mail s (cr_To req) (cr_ConfirmURL req)) False) @ effects (hist w)"
    by auto
  moreover have "dispatch E ?c d w = (Inr (), logged (AmqpPublish (saga_reply (cr_SagaID req) SagaStatusFailed) True) w1)"
    using assms(2-5) sw
    by (simp add: dispatch_def dispatch_confirmation_def ReplyConfirmation_def PublishWithContext_def)
      (simp add: NewConsumer_def)
  ultimately show ?thesis by auto
qed

text \<open>
  C35: The duplicate check trusts the mark, and the mark is also set for a command whose mails
  all failed but whose failure was reported. Delivering such a command twice, within the
  lifetime of its mark and with the mail server down, therefore publishes first \<open>failed\<close> and then \<open>sent\<close> although no mail was accepted.
\<close>

theorem failed_then_reported_sent:
  assumes "redis_up clk E" and "\<And>h p. amqp_Publish E h p = None" and "\<And>h m. smtp_SendMail E h m \<noteq> None"
    and "d_RoutingKey d = RoutingConfirm" and "unmarshal_ConfirmationRequest (d_Body d) = Inr req"
    and "cr_SagaID req \<noteq> []" and "d_MessageId d \<noteq> []"
    and "\<not> redis_seen E (hist w) (d_MessageId d)" and "marked_with t (hist w1) (dedupKey (d_MessageId d))"
    and "clk (hist w1) < clk (hist w) + sint t"
    and "handle E (NewConsumer s (redisDeduper E t)) d w = (r1, w1)"
    and "handle E (NewConsumer s (redisDeduper E t)) d w1 = (r2, w2)"
  shows "r1 = Inr () \<and> r2 = Inr () \<and> (\<exists>k. effects (hist w2) =
     AmqpPublish (saga_reply (cr_SagaID req) SagaStatusSent) True #
     AmqpPublish (saga_reply (cr_SagaID req) SagaStatusFailed) True #
     replicate (Suc k) (SmtpSendMail (confirmation_mail s (cr_To req) (cr_ConfirmURL req)) False) @ effects (hist w))"
proof -
  let ?c = "NewConsumer s (redisDeduper E t)" and ?m = "confirmation_mail s (cr_To req) (cr_ConfirmURL req)"
  let ?w0 = "logged (RedisEXISTS (dedupKey (d_MessageId d))) w"
  have c: "cons_dedup ?c = redisDeduper E t" by (simp add: NewConsumer_def)
  have "process E ?c d ?w0 = (r1, w1)"
    using assms(7,8,11) unfolding handle_def c
    by (auto simp: redisDeduper_def redis_AlreadyProcessed_def redis_seen_def Let_def split: sum.splits)
  moreover obtain k w' where "dispatch E ?c d ?w0 = (Inr (), w')" "effects (hist w') =
      AmqpPublish (saga_reply (cr_SagaID req) SagaStatusFailed) True # replicate (Suc k) (SmtpSendMail ?m False) @ effects (hist w)"
    using dispatch_failing [OF assms(3,2,4-6), of s "redisDeduper E t" ?w0] by auto
  moreover obtain q w'' where mk: "MarkProcessed (redisDeduper E t) (d_MessageId d) w' = (q, w'')"
    by (cases "MarkProcessed (redisDeduper E t) (d_MessageId d) w'")
  ultimately have r1: "r1 = Inr ()" and ef: "effects (hist w1) =
      AmqpPublish (saga_reply (cr_SagaID req) SagaStatusFailed) True # replicate (Suc k) (SmtpSendMail ?m False) @ effects (hist w)"
    using assms(7) redis_dedup.mark [OF mk] c by (auto simp: process_def)
  obtain h0 where h0: "hist w1 = RedisSET (dedupKey (d_MessageId d)) ''1'' t True # h0" "extends (hist w) h0"
    using handle_marks [OF assms(11) [unfolded r1] assms(1,7,8)] by blast
  then have "last_SET (hist w1) (dedupKey (d_MessageId d)) = Some (t, h0)" by simp
  moreover have "clk (hist w) \<le> clk h0" using redis_upD(2) [OF assms(1) h0(2)] .
  ultimately have "redis_EXISTS E (hist w1) (dedupKey (d_MessageId d)) = Inr 1"
    using key_live_later [OF assms(1) _ extends_refl assms(9)] assms(10) by simp
  from handle_seen [OF this assms(7), of s t] show ?thesis
    using r1 ef assms(2,4-6,12)
    by (auto simp: replyAlreadySent_def ReplyConfirmation_def PublishWithContext_def)
qed

theorem failed_then_reported_sent_witness:
  "let h = handle mail_down (NewConsumer sample_smtp (redisDeduper mail_down one_day)) sample_delivery;
       w2 = snd (h (snd (h init_world)))
   in AmqpPublish (saga_reply ''u1'' SagaStatusSent) True \<in> set (effects (hist w2)) \<and>
      {m. SmtpSendMail m True \<in> set (effects (hist w2))} = {}"
proof -
  let ?h = "handle mail_down (NewConsumer sample_smtp (redisDeduper mail_down one_day)) sample_delivery"
  let ?key = "dedupKey (d_MessageId sample_delivery)" and ?w1 = "snd (?h init_world)"
  let ?no = "SmtpSendMail (confirmation_mail sample_smtp ''a@b.co'' ''http://x/api/confirm/tok'') False"
  have fresh: "\<not> redis_seen mail_down (hist init_world) (d_MessageId sample_delivery)"
    by (simp add: redis_seen_def mail_down_def calm_env_def key_live_def init_world_def)
  have "hist ?w1 = [RedisSET ?key ''1'' one_day True, AmqpPublish (saga_reply ''u1'' SagaStatusFailed) True,
      ?no, Wait (500 * time_Millisecond), ?no, Wait (500 * time_Millisecond), ?no, RedisEXISTS ?key]"
    by (simp add: handle_def NewConsumer_def redisDeduper_def redis_AlreadyProcessed_def redis_MarkProcessed_def process_def dispatch_def
        dispatch_confirmation_def sendWithRetry_def SendConfirmationEmail_def sendEmail_def SendMail_def email_of_def
        line_ok_def sample_smtp_def ReplyConfirmation_def PublishWithContext_def mail_down_def calm_env_def init_world_def
        key_live_def backoff_or_done_def Let_def numeral_2_eq_2)
  then have mark: "marked_with one_day (hist ?w1) ?key" "event_clock (hist ?w1) < event_clock (hist init_world) + sint one_day"
    by (simp_all add: marked_with_def event_clock_def init_world_def)
  have "\<exists>k. effects (hist (snd (?h (snd (?h init_world))))) =
     AmqpPublish (saga_reply ''u1'' SagaStatusSent) True # AmqpPublish (saga_reply ''u1'' SagaStatusFailed) True #
     replicate (Suc k) (SmtpSendMail (confirmation_mail sample_smtp ''a@b.co'' ''http://x/api/confirm/tok'') False) @
     effects (hist init_world)"
    using failed_then_reported_sent [OF calm_redis_up(2) _ _ sample_delivery_decodes(1,3) _ _ fresh mark
        prod.collapse [symmetric] prod.collapse [symmetric]]
    by (simp add: mail_down_def calm_env_def)
  then show ?thesis by (auto simp: Let_def init_world_def)
qed

text \<open>
  Both transports identify a confirmation by the same message id: for a confirmation link
  of the form the service builds, the id the gRPC server derives from the link is the id the
  orchestrator gives the outbox command, so a command handled on one transport is recognised
  on the other.
\<close>

lemma key_live_seen:
  assumes "redis_up clk E" "marked_with t h k" "key_live clk h k"
  shows "redis_EXISTS E h k = Inr 1"
proof -
  obtain d h0 where l: "last_SET h k = Some (d, h0)" "clk h < clk h0 + sint d"
    using assms(3) by (auto simp: key_live_def split: option.splits)
  then have "d = t" using last_SET_Some [OF l(1)] assms(2) by (auto simp: marked_with_def)
  then show ?thesis using key_live_later [OF assms(1) l(1) extends_refl assms(2)] l(2) by simp
qed

theorem transports_agree:
  assumes "token \<noteq> []" and "CHR ''/'' \<notin> set token" and "redis_up clk E"
    and "marked_with l (hist w) (dedupKey (''confirm:'' @ token))" and "key_live clk (hist w) (dedupKey (''confirm:'' @ token))"
    and "email \<noteq> []" and "repo \<noteq> []"
  shows "server_SendConfirmation E s (redisDeduper E t) email repo (base @ ''/api/confirm/'' @ token) w =
     (Inr (), logged (RedisEXISTS (dedupKey (''confirm:'' @ token))) w)"
proof -
  have "path_Base (base @ ''/api/confirm/'' @ token) = token" using transports_same_id [OF assms(1,2), of base] by simp
  with key_live_seen [OF assms(3-5)] show ?thesis
    using assms(6,7) by (simp add: server_SendConfirmation_def redisDeduper_def redis_AlreadyProcessed_def Let_def)
qed

text \<open>A history in which the broker path has just marked the command of the token \<open>tok\<close>.\<close>

definition marked_world :: world where
  "marked_world = init_world\<lparr>hist := [RedisSET (dedupKey (''confirm:'' @ ''tok'')) ''1'' one_day True]\<rparr>"

lemma marked_world_live:
  "marked_with one_day (hist marked_world) (dedupKey (''confirm:'' @ ''tok''))"
  "key_live event_clock (hist marked_world) (dedupKey (''confirm:'' @ ''tok''))"
  "key_live event_clock (GrpcInvoke True # hist marked_world) (dedupKey (''confirm:'' @ ''tok''))"
  by (simp_all add: marked_world_def marked_with_def key_live_def event_clock_def)

theorem transports_agree_witness:
  "fst (server_SendConfirmation calm_env sample_smtp (redisDeduper calm_env one_day) ''a@b.co'' ''o/r''
     (''http://x'' @ ''/api/confirm/'' @ ''tok'') marked_world) = Inr ()"
  using transports_agree [OF _ _ calm_redis_up(1) marked_world_live(1,2), of "''a@b.co''" "''o/r''" sample_smtp one_day "''http://x''"]
  by simp

text \<open>
  C28: The gRPC transport is faithful from the orchestrator's sender to the notifier's method, through
  the generated code: the path the client stub asks for is the one the notifier registers, the
  handler's message carries the three fields, and the outcome comes back, so the call does exactly
  what the direct call does; a message that cannot be encoded is an error before anything is sent.
  And it agrees with the broker transport: a confirmation whose command was handled there is answered
  with success and not mailed again while its mark lives in Redis.
\<close>

theorem grpc_transport_faithful:
  assumes "codec_ok cd"
  shows "stub_sender E cd s t timeout email repo url w =
       (case cd_Marshal cd \<lparr>pb_Email = email, pb_Repo = repo, pb_ConfirmUrl = url\<rparr> of
          Inl e \<Rightarrow> (Inl (Errorf ''grpc send confirmation'' e), w)
        | Inr _ \<Rightarrow> grpc_sender E s t email repo url w) \<and>
     (url = base @ ''/api/confirm/'' @ token \<and> token \<noteq> [] \<and> CHR ''/'' \<notin> set token \<and> email \<noteq> [] \<and> repo \<noteq> [] \<and>
      redis_up clk E \<and> marked_with l (hist w) (dedupKey (''confirm:'' @ token)) \<and>
      key_live clk (GrpcInvoke True # hist w) (dedupKey (''confirm:'' @ token)) \<and>
      cd_Marshal cd \<lparr>pb_Email = email, pb_Repo = repo, pb_ConfirmUrl = url\<rparr> = Inr bytes \<and> grpc_Invoke E (hist w) = RpcDelivered \<longrightarrow>
      stub_sender E cd s t timeout email repo url w =
        (Inr (), logged (RedisEXISTS (dedupKey (''confirm:'' @ token))) (logged (GrpcInvoke True) w)))"
  (is "?refined \<and> (?marked \<longrightarrow> ?skipped)")
proof (intro conjI impI)
  show ?refined by (rule stub_sender_refines [OF assms])
  assume m: ?marked
  then have "marked_with l (hist (logged (GrpcInvoke True) w)) (dedupKey (''confirm:'' @ token))"
    unfolding marked_with_def logged_simps by auto
  with m have "server_SendConfirmation E s (redisDeduper E t) email repo url (logged (GrpcInvoke True) w) =
      (Inr (), logged (RedisEXISTS (dedupKey (''confirm:'' @ token))) (logged (GrpcInvoke True) w))"
    using transports_agree [of token clk E l "logged (GrpcInvoke True) w" email repo s t base] by simp
  moreover have "cd_Marshal cd \<lparr>pb_Email = email, pb_Repo = repo, pb_ConfirmUrl = url\<rparr> = Inr bytes"
    "grpc_Invoke E (hist w) = RpcDelivered" using m by blast+
  ultimately show ?skipped by (simp add: stub_sender_refines [OF assms] grpc_sender_def grpc_SendConfirmation_def)
qed

theorem grpc_transport_faithful_witness:
  "fst (stub_sender calm_env wire_codec sample_smtp one_day 1 ''a@b.co'' ''o/r'' (''http://x'' @ ''/api/confirm/'' @ ''tok'')
     marked_world) = Inr ()"
proof -
  let ?url = "''http://x'' @ ''/api/confirm/'' @ ''tok''"
  obtain bytes where "cd_Marshal wire_codec \<lparr>pb_Email = ''a@b.co'', pb_Repo = ''o/r'', pb_ConfirmUrl = ?url\<rparr> = Inr bytes"
    by (simp add: wire_codec_def)
  moreover have "grpc_Invoke calm_env h = RpcDelivered" for h by (simp add: calm_env_def)
  ultimately show ?thesis
    using grpc_transport_faithful [OF wire_codec_ok, of calm_env sample_smtp one_day 1 "''a@b.co''" "''o/r''" ?url
        marked_world "''http://x''" "''tok''" event_clock one_day bytes, THEN conjunct2] marked_world_live by simp
qed

text \<open>
  The wire formats round-trip: what the orchestrator, the scanner and the notifier marshal
  is read back unchanged by the process on the other side, the optional saga id included.
\<close>

theorem wire_formats_round_trip:
  "unmarshal_ConfirmationRequest (marshal_ConfirmationRequest c) = Inr c \<and>
   unmarshal_ReleaseRequest (marshal_ReleaseRequest q) = Inr q \<and>
   unmarshal_SagaReply (marshal_SagaReply p) = Inr p"
  by simp

end
