(* ===== verification/Accounting.thy ===== *)
theory Accounting
  imports Scanner Http_Api
begin

text \<open>
  What the metrics and the request log tell (\<open>internal/metrics/metrics.go\<close>,
  \<open>internal/middleware/logging.go\<close>). The calls behind the handlers
  touch no series but \<open>github_api_calls_total\<close>, so what a request or a scan adds to the others can
  be said exactly.
\<close>

section \<open>Which series a call leaves alone\<close>

fun is_github :: "metric \<Rightarrow> bool" where
  "is_github (GitHubAPICalls e c) = True"
| "is_github _ = False"

definition app_metrics :: "world \<Rightarrow> metric \<Rightarrow> nat" where
  "app_metrics w k = (if is_github k then 0 else metrics w k)"

lemma app_metrics_simps [simp]:
  "app_metrics (logged e w) = app_metrics w" "app_metrics (set_last_run t w) = app_metrics w"
  "app_metrics (Rollback tx w) = app_metrics w" "is_github k \<Longrightarrow> app_metrics (metric_inc k w) = app_metrics w"
  "\<not> is_github k \<Longrightarrow> app_metrics (metric_inc k w) = (app_metrics w)(k := Suc (app_metrics w k))"
  by (auto simp: app_metrics_def fun_eq_iff)

lemma app_metrics_cong: "metrics w' = metrics w \<Longrightarrow> app_metrics w' = app_metrics w"
  by (simp add: app_metrics_def fun_eq_iff)

named_theorems counts \<open>operations that leave the application's series alone\<close>

lemma run_stmt_counts [counts]: "run_stmt E ext name body w = (r, w') \<Longrightarrow> app_metrics w' = app_metrics w"
  using run_stmt_metrics [of E ext name body w] by (intro app_metrics_cong) simp

lemma tx_counts [counts]:
  "BeginTxx E w = (rb, wb) \<Longrightarrow> app_metrics wb = app_metrics w"
  "Commit E tx w = (rc, wc) \<Longrightarrow> app_metrics wc = app_metrics w"
  by (auto simp: BeginTxx_def Commit_def Let_def split: pg_answer.splits)

lemma store_counts [counts]:
  "ReactivateInTx E ext sid token w = (r, w') \<Longrightarrow> app_metrics w' = app_metrics w"
  "saga_CreateInTx E ext sg w = (r, w') \<Longrightarrow> app_metrics w' = app_metrics w"
  "Enqueue E ext i rk mid p w = (r, w') \<Longrightarrow> app_metrics w' = app_metrics w"
  "UpdateState E i st le w = (r, w') \<Longrightarrow> app_metrics w' = app_metrics w"
  "MarkFailed E sid w = (r, w') \<Longrightarrow> app_metrics w' = app_metrics w"
  "subscription_CreateInTx E ext email repo token w = (q, w') \<Longrightarrow> app_metrics w' = app_metrics w"
  by (auto simp: ReactivateInTx_def saga_CreateInTx_def Enqueue_def UpdateState_def MarkFailed_def
      subscription_CreateInTx_def Let_def split: prod.splits sum.splits if_splits dest: counts)

lemma saga_tx_counts:
  assumes "saga_tx E body w = (r, w')"
    and body: "\<And>tx v q v'. body tx v = (q, v') \<Longrightarrow> app_metrics v' = app_metrics v"
  shows "app_metrics w' = app_metrics w"
proof -
  obtain b w1 where be: "BeginTxx E w = (b, w1)" by (cases "BeginTxx E w")
  have 1: "app_metrics w1 = app_metrics w" using tx_counts(1) [OF be] .
  show ?thesis
  proof (cases b)
    case (Inl e)
    then show ?thesis using assms(1) be 1 by (simp add: saga_tx_def)
  next
    case (Inr tx)
    obtain q w2 where bo: "body tx w1 = (q, w2)" by (cases "body tx w1")
    obtain c w3 where co: "Commit E tx w2 = (c, w3)" by (cases "Commit E tx w2")
    show ?thesis
      using assms(1) be Inr bo co 1 body [OF bo] tx_counts(2) [OF co]
      by (cases q; cases c) (auto simp: saga_tx_def)
  qed
qed

lemma enqueueConfirmation_counts [counts]:
  "enqueueConfirmation E tx n email repo token url w = (r, w') \<Longrightarrow> app_metrics w' = app_metrics w"
  by (auto simp: enqueueConfirmation_def new_uuid_def Let_def split: prod.splits sum.splits dest!: counts)

lemma createSubscriptionAndSaga_counts [counts]:
  assumes "createSubscriptionAndSaga E email repo token rid w = (r, w')"
  shows "app_metrics w' = app_metrics w"
  by (rule saga_tx_counts [OF assms [unfolded createSubscriptionAndSaga_def]])
    (auto simp: new_uuid_def Let_def split: prod.splits sum.splits if_splits dest!: counts)

lemma grpc_sender_counts [counts]:
  "grpc_sender E s t email repo url w = (r, w') \<Longrightarrow> app_metrics w' = app_metrics w"
  by (rule app_metrics_cong) (auto dest: grpc_sender_trace simp: quiet_def)

lemma dispatchSync_counts [counts]:
  "dispatchSync E (grpc_sender E s t) i n email repo url w = (r, w') \<Longrightarrow> app_metrics w' = app_metrics w"
  by (auto simp: dispatchSync_def compensateSync_def compensate_def split: prod.splits sum.splits dest!: counts)

lemma start_counts [counts]:
  "StartConfirmation E (sender_of E tr) email repo token url w = (r, w') \<Longrightarrow> app_metrics w' = app_metrics w"
  by (cases tr)
    (auto simp: StartConfirmation_def startConfirmationSync_def sender_of_def split: prod.splits sum.splits
      dest!: counts elim!: saga_tx_counts)

lemma reactivate_counts [counts]:
  "ReactivateConfirmation E (sender_of E tr) sid email repo token url w = (r, w') \<Longrightarrow> app_metrics w' = app_metrics w"
  by (cases tr)
    (auto simp: ReactivateConfirmation_def reactivateConfirmationSync_def sender_of_def split: prod.splits sum.splits
      dest!: counts elim!: saga_tx_counts)

lemma doWithRetry_counts [counts]: "doWithRetry E req w = (r, w') \<Longrightarrow> app_metrics w' = app_metrics w"
  by (rule app_metrics_cong) (auto simp: doWithRetry_def dest: retry_from_hist)

lemma Cache_counts [counts]:
  "Cache_Get E ca k w = (rg, wg) \<Longrightarrow> app_metrics wg = app_metrics w"
  "Cache_Set E ca k v w = (rs, ws) \<Longrightarrow> app_metrics ws = app_metrics w"
  by (auto simp: Cache_Get_def Cache_Set_def Let_def split: redis_reply.splits option.splits)

lemma Client_counts [counts]:
  "Client_CheckRepoExists E c owner repo w = (r, w') \<Longrightarrow> app_metrics w' = app_metrics w"
  "Client_GetLatestRelease E c owner repo w = (q, w') \<Longrightarrow> app_metrics w' = app_metrics w"
  by (auto simp: Client_CheckRepoExists_def Client_GetLatestRelease_def split: prod.splits sum.splits if_splits dest!: counts)

lemma github_counts [counts]:
  "github_CheckRepoExists E c ca owner repo w = (r, w') \<Longrightarrow> app_metrics w' = app_metrics w"
  "github_GetLatestRelease E c ca owner repo w = (q, w') \<Longrightarrow> app_metrics w' = app_metrics w"
  by (cases ca; auto simp: github_CheckRepoExists_def github_GetLatestRelease_def Cached_CheckRepoExists_def
      Cached_GetLatestRelease_def main_gateway_def Let_def snd_def split: prod.splits sum.splits if_splits dest!: counts)+

section \<open>One request\<close>

text \<open>The counter of a successful action moves exactly with the status 200.\<close>

fun success_metric :: "endpoint \<Rightarrow> metric option" where
  "success_metric ApiSubscribe = Some SubscriptionsCreated"
| "success_metric (ApiConfirm t) = Some SubscriptionsConfirmed"
| "success_metric (ApiUnsubscribe t) = Some Unsubscribes"
| "success_metric _ = None"

lemma success_metric_other:
  "success_metric ep \<noteq> Some (HTTPRequestsTotal m p st)" "success_metric ep \<noteq> Some (HTTPRequestDuration m p d)"
  by (cases ep; simp)+

text \<open>The series a request of duration \<open>d\<close> adds one to.\<close>

definition counted :: "api_request \<Rightarrow> endpoint \<Rightarrow> int \<Rightarrow> duration \<Rightarrow> metric \<Rightarrow> bool" where
  "counted r ep status d k \<longleftrightarrow>
     ep \<noteq> Metrics \<and> (k = HTTPRequestsTotal (http_Method r) (metric_path ep) status \<or>
       k = HTTPRequestDuration (http_Method r) (metric_path ep) d) \<or>
     status = 200 \<and> success_metric ep = Some k"

lemma counted_not_github: "counted r ep st d k \<Longrightarrow> \<not> is_github k"
  by (cases ep) (auto simp: counted_def)

text \<open>The service calls nothing but its interfaces.\<close>

locale service_counts =
  fixes svc :: Service
  assumes by_pair_counts: "svc_GetSubscriptionByEmailAndRepo svc email repo w = (rp, wp) \<Longrightarrow> app_metrics wp = app_metrics w"
    and by_token_counts: "svc_GetSubscriptionByToken svc token w = (rt, wt) \<Longrightarrow> app_metrics wt = app_metrics w"
    and by_email_counts: "svc_GetSubscriptionsByEmail svc email w = (rm, wm) \<Longrightarrow> app_metrics wm = app_metrics w"
    and confirm_counts: "svc_ConfirmSubscription svc token w = (rc, wc) \<Longrightarrow> app_metrics wc = app_metrics w"
    and delete_counts: "svc_DeleteSubscription svc token w = (rd, wd) \<Longrightarrow> app_metrics wd = app_metrics w"
    and register_counts: "svc_RegisterRepo svc repo w = (rr, wr) \<Longrightarrow> app_metrics wr = app_metrics w"
    and github_exists_counts: "svc_CheckRepoExists svc owner name w = (rg, wg) \<Longrightarrow> app_metrics wg = app_metrics w"
    and start_saga_counts: "svc_StartConfirmation svc email repo token url w = (rs, ws) \<Longrightarrow> app_metrics ws = app_metrics w"
    and reactivate_saga_counts:
      "svc_ReactivateConfirmation svc sid email repo token url w = (ra, wa) \<Longrightarrow> app_metrics wa = app_metrics w"
begin

lemmas svc_counts = by_pair_counts by_token_counts by_email_counts confirm_counts delete_counts register_counts
  github_exists_counts start_saga_counts reactivate_saga_counts

lemma subscribe_known_counts:
  "subscribe_known E svc email repo w = (r, w') \<Longrightarrow> app_metrics w' = app_metrics w"
  by (auto simp: subscribe_known_def new_uuid_def Let_def split: prod.splits sum.splits option.splits if_splits
      dest!: svc_counts)

lemma use_case_counts:
  "Subscribe E svc email repo w = (r, w') \<Longrightarrow> app_metrics w' = app_metrics w"
  "Confirm svc token w = (r, w') \<Longrightarrow> app_metrics w' = app_metrics w"
  "Unsubscribe svc token w = (r, w') \<Longrightarrow> app_metrics w' = app_metrics w"
  "GetSubscriptions svc email w = (q, w') \<Longrightarrow> app_metrics w' = app_metrics w"
  by (auto simp: Subscribe_def Confirm_def Unsubscribe_def GetSubscriptions_def
      split: prod.splits sum.splits option.splits if_splits dest!: svc_counts subscribe_known_counts)

lemma error_response_not_ok [simp]: "resp_Status (error_response e) \<noteq> 200"
  by (simp add: error_response_status split: ErrKind.split)

lemma run_endpoint_counts:
  assumes "run_endpoint E cf svc r ep w = (resp, w')"
  shows "app_metrics w' = (case success_metric ep of
     Some k \<Rightarrow> if resp_Status resp = 200 then (app_metrics w)(k := Suc (app_metrics w k)) else app_metrics w
   | None \<Rightarrow> app_metrics w)"
  using assms
  by (cases ep)
    (auto simp: handler_Subscribe_def handler_ConfirmSubscription_def handler_Unsubscribe_def handleTokenAction_def
      handler_GetSubscriptions_def json_message_def json_error_def
      split: prod.splits sum.splits option.splits if_splits dest!: use_case_counts)

lemma route_counts:
  assumes "route E cf svc r ep w = (resp, w')"
  shows "app_metrics w' k = app_metrics w k + of_bool (resp_Status resp = 200 \<and> success_metric ep = Some k)"
  using assms run_endpoint_counts [of E cf r ep w resp w']
  by (cases "in_api_group ep")
    (auto simp: route_def APIKeyAuth_def json_error_def Let_def split: option.splits if_splits)

lemma serve_counts:
  assumes "serve E cf svc r ep w = ((rid, resp), w')"
  shows "\<exists>d. \<forall>k. \<not> is_github k \<longrightarrow> metrics w' k = metrics w k + of_bool (counted r ep (resp_Status resp) d k)"
proof (rule serve_routed [OF assms])
  fix w1 w2
  assume ro: "route E cf svc r ep w1 = (resp, w2)" and m1: "metrics w1 = metrics w"
    and m2: "request_metrics r ep resp (metrics w2) (metrics w')"
  have inner: "metrics w2 k = metrics w k + of_bool (resp_Status resp = 200 \<and> success_metric ep = Some k)"
    if "\<not> is_github k" for k
    using route_counts [OF ro, of k] that m1 by (simp add: app_metrics_def)
  show ?thesis
  proof (cases "ep = Metrics")
    case True
    then show ?thesis using inner m2 by (simp add: request_metrics_def counted_def)
  next
    case False
    then obtain d where "metrics w' = (metrics w2)
        (HTTPRequestsTotal (http_Method r) (metric_path ep) (resp_Status resp) :=
           Suc (metrics w2 (HTTPRequestsTotal (http_Method r) (metric_path ep) (resp_Status resp))),
         HTTPRequestDuration (http_Method r) (metric_path ep) d :=
           Suc (metrics w2 (HTTPRequestDuration (http_Method r) (metric_path ep) d)))"
      using m2 by (auto simp: request_metrics_def Let_def)
    then show ?thesis using inner False success_metric_other [of ep] by (intro exI [of _ d]) (auto simp: counted_def)
  qed
qed

end

interpretation main_counts: service_counts "main_service E tr c ca base" for E tr c ca base
  by unfold_locales
    (auto simp: main_service_def GetSubscriptionByEmailAndRepo_def GetSubscriptionByToken_def GetSubscriptionsByEmail_def
      ConfirmSubscription_def DeleteSubscription_def RegisterRepo_def dest: counts)

text \<open>The line of a request, when the logger takes its level, is the last event of the request.\<close>

lemma serve_line:
  assumes "serve E cf svc r ep w = ((rid, resp), w')"
  shows "\<exists>ms h. hist w' = (if Enabled (api_Logger cf) (request_level (resp_Status resp))
     then [RequestLine (request_level (resp_Status resp)) (http_Method r) (FullPath ep) (resp_Status resp) ms
            (http_ClientIP r) rid] else []) @ TimeNow # h"
  using assms by (auto simp: serve_def RequestLogger_def now_def Let_def split: prod.splits)

lemma serve_accounted:
  "case serve E cf (main_service E tr c ca base) r ep w of ((rid, resp), w') \<Rightarrow>
     (\<exists>d. app_metrics w' = (\<lambda>k. app_metrics w k + of_bool (counted r ep (resp_Status resp) d k))) \<and>
     (\<exists>ms h. hist w' = (if Enabled (api_Logger cf) (request_level (resp_Status resp))
        then [RequestLine (request_level (resp_Status resp)) (http_Method r) (FullPath ep) (resp_Status resp) ms
               (http_ClientIP r) rid] else []) @ TimeNow # h)"
proof -
  obtain rid resp w' where run: "serve E cf (main_service E tr c ca base) r ep w = ((rid, resp), w')"
    by (metis surj_pair)
  from main_counts.serve_counts [OF run] obtain d where
    "\<forall>k. \<not> is_github k \<longrightarrow> metrics w' k = metrics w k + of_bool (counted r ep (resp_Status resp) d k)" by blast
  then have "app_metrics w' = (\<lambda>k. app_metrics w k + of_bool (counted r ep (resp_Status resp) d k))"
    using counted_not_github by (fastforce simp: app_metrics_def fun_eq_iff)
  with serve_line [OF run] show ?thesis by (auto simp: run)
qed

section \<open>One scan\<close>

text \<open>
  The books of the scanner between two points of a cycle: the cycle's own series stand still, and
  every notice handed to the notifier is counted once, as sent or as an error of stage \<open>notify\<close>.
\<close>

definition attempts :: "world \<Rightarrow> nat" where
  "attempts w = metrics w NotificationsSent + metrics w (ScannerErrorsTotal ''notify'')"

locale scanner_counts = scanner_io sc tried for sc tried +
  assumes active_counts: "sc_ActiveRepos sc w = (ra, wa) \<Longrightarrow> app_metrics wa = app_metrics w"
    and subscribers_counts: "sc_SubscribersForRepo sc repo w = (rs, ws) \<Longrightarrow> app_metrics ws = app_metrics w"
    and tracking_counts: "sc_GetRepoTracking sc repo w = (rt, wt) \<Longrightarrow> app_metrics wt = app_metrics w"
    and touch_counts: "sc_TouchLastChecked sc repo w = (rc, wc) \<Longrightarrow> app_metrics wc = app_metrics w"
    and record_counts: "sc_RecordRelease sc repo tag w = (rr, wr) \<Longrightarrow> app_metrics wr = app_metrics w"
    and latest_counts: "sc_GetLatestRelease sc owner name w = (rl, wl) \<Longrightarrow> app_metrics wl = app_metrics w"
    and send_counts: "sc_SendReleaseNotification sc to repo tag url w = (rn, wn) \<Longrightarrow> app_metrics wn = app_metrics w"
    and clock_counts: "sc_Now sc w = (t, wk) \<Longrightarrow> app_metrics wk = app_metrics w"
begin

definition ledger :: "world \<Rightarrow> world \<Rightarrow> bool" where
  "ledger w w' \<longleftrightarrow> metrics w' ScannerRunsTotal = metrics w ScannerRunsTotal \<and>
     (\<forall>d. metrics w' (ScannerCycleDuration d) = metrics w (ScannerCycleDuration d)) \<and>
     attempts w' + length (tried (hist w)) = attempts w + length (tried (hist w'))"

lemma ledger_refl [simp]: "ledger w w"
  by (simp add: ledger_def)

lemma ledger_trans [trans]: "ledger a b \<Longrightarrow> ledger b c \<Longrightarrow> ledger a c"
  by (simp add: ledger_def)

lemma ledger_quiet:
  assumes "app_metrics w' = app_metrics w" "tried (hist w') = tried (hist w)"
  shows "ledger w w'"
proof -
  have "metrics w' k = metrics w k" if "\<not> is_github k" for k
    using fun_cong [OF assms(1), of k] that by (simp add: app_metrics_def)
  then show ?thesis using assms(2) by (simp add: ledger_def attempts_def)
qed

lemma ledger_inc:
  assumes "k \<noteq> ScannerRunsTotal" "k \<noteq> NotificationsSent" "k \<noteq> ScannerErrorsTotal ''notify''" "\<And>d. k \<noteq> ScannerCycleDuration d"
  shows "ledger w (metric_inc k w)"
  using assms by (auto simp: ledger_def attempts_def)

lemma quiet_calls:
  "sc_ActiveRepos sc w = (ra, w') \<Longrightarrow> ledger w w'"
  "sc_SubscribersForRepo sc repo w = (rs, w') \<Longrightarrow> ledger w w'"
  "sc_GetRepoTracking sc repo w = (rt, w') \<Longrightarrow> ledger w w'"
  "sc_TouchLastChecked sc repo w = (rc, w') \<Longrightarrow> ledger w w'"
  "sc_RecordRelease sc repo tag w = (rr, w') \<Longrightarrow> ledger w w'"
  "sc_GetLatestRelease sc owner name w = (rl, w') \<Longrightarrow> ledger w w'"
  subgoal using active_counts [of w ra w'] active [of w ra w'] by (simp add: ledger_quiet)
  subgoal using subscribers_counts [of repo w rs w'] subscribers [of repo w rs w'] by (simp add: ledger_quiet)
  subgoal using tracking_counts [of repo w rt w'] tracking [of repo w rt w'] by (simp add: ledger_quiet)
  subgoal using touch_counts [of repo w rc w'] touch [of repo w rc w'] by (simp add: ledger_quiet)
  subgoal using record_counts [of repo tag w rr w'] record_release [of repo tag w rr w'] by (simp add: ledger_quiet)
  subgoal using latest_counts [of owner name w rl w'] latest [of owner name w rl w'] by (simp add: ledger_quiet)
  done

lemma send_ledger:
  assumes "sc_SendReleaseNotification sc to repo tag url w = (r, w1)"
  shows "ledger w (metric_inc (case r of Inl _ \<Rightarrow> ScannerErrorsTotal ''notify'' | Inr _ \<Rightarrow> NotificationsSent) w1)"
proof -
  have "metrics w1 k = metrics w k" if "\<not> is_github k" for k
    using fun_cong [OF send_counts [OF assms], of k] that by (simp add: app_metrics_def)
  then show ?thesis using send [OF assms] by (cases r) (auto simp: ledger_def attempts_def)
qed

lemma notify_all_ledger: "ledger w (notify_all sc repo tag subs w)"
proof (induction subs arbitrary: w)
  case (Cons sub subs)
  obtain r w1 where s: "sc_SendReleaseNotification sc (subscriber_Email sub) repo tag
      (unsubscribe_url (sc_baseURL sc) (subscriber_Token sub)) w = (r, w1)"
    by (cases "sc_SendReleaseNotification sc (subscriber_Email sub) repo tag
      (unsubscribe_url (sc_baseURL sc) (subscriber_Token sub)) w")
  show ?case using s send_ledger [OF s] Cons.IH by (cases r) (auto intro: ledger_trans)
qed simp

lemma error_ledger: "ledger w w1 \<Longrightarrow> stage \<noteq> ''notify'' \<Longrightarrow> ledger w (metric_inc (ScannerErrorsTotal stage) w1)"
  by (rule ledger_trans [OF _ ledger_inc]) simp_all

lemma recordAndNotify_ledger: "ledger w (recordAndNotify sc repo tag w)"
proof -
  obtain r w1 where re: "sc_RecordRelease sc repo tag w = (r, w1)" by (cases "sc_RecordRelease sc repo tag w")
  obtain s w2 where sb: "sc_SubscribersForRepo sc repo w1 = (s, w2)" by (cases "sc_SubscribersForRepo sc repo w1")
  have l: "ledger w w1" "ledger w w2"
    using quiet_calls(5) [OF re] quiet_calls(2) [OF sb] by (auto intro: ledger_trans)
  show ?thesis
    using re sb l error_ledger [OF l(1), of "''tracking''"] error_ledger [OF l(2), of "''subscribers''"]
      ledger_trans [OF l(2) notify_all_ledger]
    by (cases r; cases s) (simp_all add: recordAndNotify_def)
qed

lemma detectNewRelease_ledger: "ledger w (snd (detectNewRelease sc repo w))"
proof (cases "ParseRepoSpec repo")
  case (Inr spec)
  obtain l w1 where la: "sc_GetLatestRelease sc (Owner spec) (Name spec) w = (l, w1)"
    by (cases "sc_GetLatestRelease sc (Owner spec) (Name spec) w")
  obtain t w2 where to: "sc_TouchLastChecked sc repo w1 = (t, w2)" by (cases "sc_TouchLastChecked sc repo w1")
  define v where "v = count_error ''tracking'' (t, w2)"
  obtain g w3 where gt: "sc_GetRepoTracking sc repo v = (g, w3)" by (cases "sc_GetRepoTracking sc repo v")
  have l1: "ledger w w1" "ledger w w2"
    using quiet_calls(6) [OF la] quiet_calls(4) [OF to] by (auto intro: ledger_trans)
  have lv: "ledger w v" using l1(2) error_ledger [OF l1(2), of "''tracking''"] by (cases t) (simp_all add: v_def count_error_def)
  have l3: "ledger w w3" using lv quiet_calls(3) [OF gt] by (rule ledger_trans)
  show ?thesis
    using Inr la to gt lv l3 error_ledger [OF l1(1), of "''github''"] error_ledger [OF l3, of "''tracking''"]
      ledger_trans [OF l3 ledger_inc [of ReleasesDetected]]
    by (cases l; cases g) (auto simp: detectNewRelease_def Let_def v_def [symmetric])
qed (simp add: detectNewRelease_def)

lemma checkRepo_ledger: "ledger w (checkRepo sc repo w)"
  using detectNewRelease_ledger [of w repo] recordAndNotify_ledger
  by (auto simp: checkRepo_def split: prod.splits option.splits intro: ledger_trans)

lemma scan_repos_ledger: "ledger w (scan_repos sc w)"
proof -
  have f: "ledger w (fold (checkRepo sc) repos w)" for repos w
    by (induction repos arbitrary: w) (auto intro: ledger_trans checkRepo_ledger)
  obtain r w1 where a: "sc_ActiveRepos sc w = (r, w1)" by (cases "sc_ActiveRepos sc w")
  show ?thesis
    using a quiet_calls(1) [OF a] error_ledger [of w w1 "''list_repos''"] f [of w1]
    by (cases r) (auto simp: scan_repos_def intro: ledger_trans)
qed

lemma scan_counts:
  "metrics (scan sc w) ScannerRunsTotal = Suc (metrics w ScannerRunsTotal) \<and>
   (\<exists>d. \<forall>d'. metrics (scan sc w) (ScannerCycleDuration d') = metrics w (ScannerCycleDuration d') + of_bool (d' = d)) \<and>
   attempts (scan sc w) + length (tried (hist w)) = attempts w + length (tried (hist (scan sc w)))"
proof -
  let ?w0 = "metric_inc ScannerRunsTotal w"
  obtain start w1 where s: "sc_Now sc ?w0 = (start, w1)" by (cases "sc_Now sc ?w0")
  obtain t w2 where e: "sc_Now sc (scan_repos sc w1) = (t, w2)" by (cases "sc_Now sc (scan_repos sc w1)")
  let ?d = "time_Sub t start"
  obtain t' w3 where l: "sc_Now sc (metric_inc (ScannerCycleDuration ?d) w2) = (t', w3)"
    by (cases "sc_Now sc (metric_inc (ScannerCycleDuration ?d) w2)")
  have clk: "ledger v v'" if "sc_Now sc v = (i, v')" for v i v'
    using clock_counts [OF that] clock [OF that] by (simp add: ledger_quiet)
  have A: "ledger ?w0 w2" using clk [OF s] clk [OF e] scan_repos_ledger [of w1] by (blast intro: ledger_trans)
  have B: "ledger (metric_inc (ScannerCycleDuration ?d) w2) w3" using clk [OF l] .
  have "scan sc w = set_last_run t' w3" using s e l by (simp add: scan_def)
  then show ?thesis using A B by (auto simp: ledger_def attempts_def intro!: exI [of _ ?d])
qed

end

interpretation main_scan_counts: scanner_counts "main_scanner E tr c ca base interval" release_notices
  for E tr c ca base interval
proof unfold_locales
  fix to repo tag url and w :: world and rn wn
  assume "sc_SendReleaseNotification (main_scanner E tr c ca base interval) to repo tag url w = (rn, wn)"
  then show "app_metrics wn = app_metrics w"
    by (intro app_metrics_cong)
      (auto simp: main_scanner_def Let_def SendReleaseNotification_def Publish_def PublishWithContext_def
        split: option.splits)
qed (auto simp: main_scanner_def Let_def ActiveRepos_def SubscribersForRepo_def main_service_def GetActiveRepos_def
      GetSubscribersByRepo_def GetRepoTracking_def TouchLastChecked_def RecordRelease_def now_def
      split: prod.splits sum.splits dest: counts)

text \<open>The gauge shows the last reading of the clock.\<close>

lemma scan_stamp:
  "ScannerLastRunTimestamp (scan (main_scanner E tr c ca base interval) w) =
     time_Now E (tl (hist (scan (main_scanner E tr c ca base interval) w)))"
  by (simp add: scan_def main_scanner_def Let_def now_def)

end
