(* ===== verification/Response_Types.thy ===== *)
theory Response_Types
  imports Http_Api
begin

text \<open>
  The types of the API's responses: which statuses an endpoint can answer with, and which JSON
  type the body has. The types follow the struct tags of \<open>internal/subscription/subscription.go\<close> and the
  \<open>gin.H\<close> literals of the handlers.
\<close>

section \<open>JSON types\<close>

datatype json_type = TBool | TNumber | TString | TArray json_type | TObject "(string \<times> json_type) list"

text \<open>An object has exactly the members of its type, in their order.\<close>

fun has_type :: "json \<Rightarrow> json_type \<Rightarrow> bool" and has_members :: "(string \<times> json) list \<Rightarrow> (string \<times> json_type) list \<Rightarrow> bool" where
  "has_type (JBool b) t = (t = TBool)"
| "has_type (JNumber n) t = (t = TNumber)"
| "has_type (JString s) t = (t = TString)"
| "has_type (JArray js) t = (case t of TArray u \<Rightarrow> (\<forall>j\<in>set js. has_type j u) | _ \<Rightarrow> False)"
| "has_type (JObject ms) t = (case t of TObject fs \<Rightarrow> has_members ms fs | _ \<Rightarrow> False)"
| "has_type JNull t = False"
| "has_type JMalformed t = False"
| "has_members [] fs = (fs = [])"
| "has_members ((k, j) # ms) fs = (case fs of (l, t) # fs' \<Rightarrow> k = l \<and> has_type j t \<and> has_members ms fs' | [] \<Rightarrow> False)"

definition error_type :: json_type where
  "error_type = TObject [(''error'', TString)]"

definition message_type :: json_type where
  "message_type = TObject [(''message'', TString)]"

definition subscription_type :: json_type where
  "subscription_type = TObject
     [(''id'', TNumber), (''email'', TString), (''repo'', TString), (''token'', TString), (''confirmed'', TBool),
      (''status'', TString), (''created_at'', TString)]"

section \<open>The types of the endpoints\<close>

text \<open>The program's own endpoints; the status of the start page is the file server's.\<close>

fun statuses :: "endpoint \<Rightarrow> int list" where
  "statuses ApiSubscribe = [200, 400, 401, 403, 404, 409, 500]"
| "statuses (ApiConfirm t) = [200, 401, 403, 404, 500]"
| "statuses (ApiUnsubscribe t) = [200, 401, 403, 404, 500]"
| "statuses ApiSubscriptions = [200, 400, 401, 403, 500]"
| "statuses NoRoute = [404]"
| "statuses Metrics = [200]"
| "statuses Health = [200]"
| "statuses StaticIndex = []"

fun ok_type :: "endpoint \<Rightarrow> json_type option" where
  "ok_type ApiSubscribe = Some message_type"
| "ok_type (ApiConfirm t) = Some message_type"
| "ok_type (ApiUnsubscribe t) = Some message_type"
| "ok_type ApiSubscriptions = Some (TArray subscription_type)"
| "ok_type Health = Some (TObject [(''status'', TString)])"
| "ok_type _ = None"

text \<open>\<open>None\<close> stands for text: the page, the metrics and gin's own 404.\<close>

definition body_typed :: "payload \<Rightarrow> json_type option \<Rightarrow> bool" where
  "body_typed b t = (case (b, t) of (Json j, Some u) \<Rightarrow> has_type j u | (Text s, None) \<Rightarrow> True | _ \<Rightarrow> False)"

definition response_typed :: "endpoint \<Rightarrow> api_response \<Rightarrow> bool" where
  "response_typed ep resp \<longleftrightarrow> (resp_Status resp \<in> set (statuses ep) \<or> ep = StaticIndex) \<and>
     body_typed (resp_Body resp)
       (if resp_Status resp = 200 then ok_type ep else if in_api_group ep then Some error_type else None)"

section \<open>Every response has its type\<close>

lemma json_error_typed:
  "in_api_group ep \<Longrightarrow> st \<in> set (statuses ep) \<Longrightarrow> st \<noteq> 200 \<Longrightarrow> response_typed ep (json_error st msg)"
  by (simp add: response_typed_def json_error_def body_typed_def error_type_def)

lemma json_message_typed: "ok_type ep = Some message_type \<Longrightarrow> 200 \<in> set (statuses ep) \<Longrightarrow> response_typed ep (json_message msg)"
  by (simp add: response_typed_def json_message_def body_typed_def message_type_def)

lemma error_response_typed:
  "in_api_group ep \<Longrightarrow> resp_Status (error_response e) \<in> set (statuses ep) \<Longrightarrow> response_typed ep (error_response e)"
  unfolding error_response_def translateError_def
  by (auto simp: json_error_def split: ErrKind.splits intro!: json_error_typed [unfolded json_error_def])

lemma marshal_Subscription_typed: "has_type (marshal_Subscription f s) subscription_type"
  by (simp add: marshal_Subscription_def subscription_type_def)

lemma main_GetSubscriptions_infra:
  "svc_GetSubscriptionsByEmail (main_service E tr c ca base) email w = (Inl e, w') \<Longrightarrow> infra e"
  using lookup_stmt by (fastforce simp: main_service_def GetSubscriptionsByEmail_def)

lemma listing_typed:
  "response_typed ApiSubscriptions \<lparr>resp_Status = 200, resp_Body = Json (JArray (map (marshal_Subscription f) subs))\<rparr>"
  by (auto simp: response_typed_def body_typed_def marshal_Subscription_typed)

text \<open>The statuses the errors of the use cases turn into.\<close>

lemma token_error_status:
  "infra e \<or> e = Domain ErrTokenNotFound \<Longrightarrow> resp_Status (error_response e) \<in> {404, 500}"
  by (auto simp: error_response_status KindOf_infra sentinel_defs)

lemma list_error_typed:
  "infra e \<or> e = Domain ErrInvalidEmail \<Longrightarrow> response_typed ApiSubscriptions (error_response e)"
  by (rule error_response_typed) (auto simp: error_response_status KindOf_infra sentinel_defs)

lemma subscribe_error_typed: "response_typed ApiSubscribe (error_response e)"
  by (rule error_response_typed) (simp_all add: error_response_status split: ErrKind.split)

lemma handleTokenAction_typed:
  assumes "handleTokenAction action msg m token w = (resp, w')"
    and "\<And>e v. action token w = (Inl e, v) \<Longrightarrow> infra e \<or> e = Domain ErrTokenNotFound"
    and "ep = ApiConfirm token \<or> ep = ApiUnsubscribe token"
  shows "response_typed ep resp"
  using assms token_error_status
  by (auto simp: handleTokenAction_def split: prod.splits sum.splits intro!: json_message_typed error_response_typed)

lemma run_endpoint_typed:
  assumes "run_endpoint E cf (main_service E tr c ca base) r ep w = (resp, w')"
  shows "response_typed ep resp"
proof -
  let ?svc = "main_service E tr c ca base"
  show ?thesis
  proof (cases ep)
    case ApiSubscribe
    then show ?thesis
      using assms
      by (auto simp: handler_Subscribe_def split: option.splits prod.splits sum.splits
          intro!: json_error_typed json_message_typed subscribe_error_typed)
  next
    case (ApiConfirm token)
    have "infra e \<or> e = Domain ErrTokenNotFound" if "Confirm ?svc token w = (Inl e, v)" for e v
      using main_svc.Confirm_spec [OF that] by auto
    then show ?thesis
      using assms ApiConfirm handleTokenAction_typed [of "Confirm ?svc" _ _ token w resp w' ep]
      by (simp add: handler_ConfirmSubscription_def)
  next
    case (ApiUnsubscribe token)
    have "infra e \<or> e = Domain ErrTokenNotFound" if "Unsubscribe ?svc token w = (Inl e, v)" for e v
      using main_svc.Unsubscribe_spec [OF that] by auto
    then show ?thesis
      using assms ApiUnsubscribe handleTokenAction_typed [of "Unsubscribe ?svc" _ _ token w resp w' ep]
      by (simp add: handler_Unsubscribe_def)
  next
    case ApiSubscriptions
    have "response_typed ApiSubscriptions (error_response e)" if "GetSubscriptions ?svc email w = (Inl e, v)" for email e v
      using that main_GetSubscriptions_infra
      by (intro list_error_typed) (auto simp: GetSubscriptions_def split: if_splits)
    then show ?thesis
      using assms ApiSubscriptions
      by (auto simp: handler_GetSubscriptions_def split: prod.splits sum.splits if_splits
          intro!: json_error_typed listing_typed)
  qed (use assms in \<open>auto simp: response_typed_def body_typed_def\<close>)
qed

lemma serve_typed:
  assumes "serve E cf (main_service E tr c ca base) r ep w = ((rid, resp), w')"
  shows "response_typed ep resp"
proof (rule serve_routed [OF assms])
  fix w1 w2
  assume "route E cf (main_service E tr c ca base) r ep w1 = (resp, w2)"
  then show ?thesis
    by (cases ep)
      (auto simp: route_def APIKeyAuth_def Let_def simp del: run_endpoint.simps
        split: option.splits if_splits dest: run_endpoint_typed intro!: json_error_typed)
qed

end
