(* ===== verification/Api_Properties.thy ===== *)
theory Api_Properties
  imports Http_Api Config Sample_Env Accounting Response_Types Subscribe_Effects
begin

text \<open>
  The properties of the service, its inputs and its HTTP boundary, of the GitHub gateway and
  of the release scanner, each with a run on a concrete input.
\<close>

section \<open>The subscription service\<close>

definition sample_client :: Client where
  "sample_client = \<lparr>gh_token = ''secret''\<rparr>"

text \<open>
  C12: The contract of \<open>Subscribe\<close> on the wired service, for both transports and under every
  answer of the outside (\<open>subscribe_outcome\<close>). Success means that the input was well formed, GitHub
  answered yes to the check made for it, and the pair was begun with a token of its own: its new row, or
  its failed row revived, is pending and unconfirmed, and beside it stands one new waiting saga. On the
  broker transport the command with the link that carries the token is in the outbox; on the gRPC
  transport the request has settled the saga already, and a mail that could not be sent is success, too:
  then saga and row are failed, otherwise the saga is completed and the row pending. An invalid-input
  error leaves the whole world untouched, and the input was malformed; a not-found error means that the
  GitHub client answered no to this request's check; a conflict means that a row that is not failed
  existed; neither touches the database. Every other error is unclassified, and either the tables are
  as before or the pair was begun, with the saga settled as far as the request got.
\<close>

theorem subscribe_contract:
  assumes "Subscribe E (main_service E tr c ca base) email repo w = (r, w')"
    and "db_ok (db w)" and "uuid_column E"
  shows "db_ok (db w') \<and>
     subscribe_outcome E (tr \<noteq> None) base (github_CheckRepoExists E c ca) email repo r w w'"
  using Subscribe_outcome [OF assms] main_svc.Subscribe_spec [OF assms(1,2)] grows_ok [OF _ assms(2)] by blast

lemma init_ok [simp]: "db_ok (db init_world)"
  by (simp add: init_world_def empty_db_ok)

theorem subscribe_contract_witness:
  "snd (Subscribe calm_env (main_service calm_env None sample_client None ''http://x'') ''no-at-sign'' ''o/r'' init_world) =
   init_world"
proof -
  let ?run = "Subscribe calm_env (main_service calm_env None sample_client None ''http://x'') ''no-at-sign'' ''o/r'' init_world"
  have "\<not> ValidateEmail ''no-at-sign''"
    using ValidateEmail_safe [of "''no-at-sign''"] by auto
  then have "fst ?run = Inl (Domain ErrInvalidEmail)" by (simp add: Subscribe_def)
  then show ?thesis
    using subscribe_contract [OF prod.collapse [symmetric] init_ok calm_uuid_column(1), of None sample_client None "''http://x''" "''no-at-sign''" "''o/r''"]
    by (simp add: subscribe_outcome_def sentinel_defs)
qed

text \<open>
  C18: The contracts of the two links in a mail. \<open>Confirm\<close>: success means a row carries the token; after
  it that row is confirmed (an already confirmed one is left as it is, so repeating the link is
  harmless), no other subscription changed, and its repository is tracked with the tag it had, the
  empty tag if it is new. \<open>Unsubscribe\<close>: success removes exactly the row that carries the token and
  touches neither sagas, outbox nor tracking. For both a token error means no row carries the token,
  and nothing changed; any other error is an infrastructure error.
\<close>

theorem token_contract:
  "(case Confirm (main_service E tr c ca base) token w of
      (Inr _, w') \<Rightarrow> (\<exists>s. lookup_by sub_Token token (subscriptions (db w)) = Some s \<and>
          subscriptions (db w') = (if sub_Confirmed s then subscriptions (db w)
            else upd_rows (\<lambda>s. sub_Token s = token) confirm_row (subscriptions (db w))) \<and>
          seen_tag (sub_Repo s) (db w') = (case seen_tag (sub_Repo s) (db w) of None \<Rightarrow> Some [] | Some t \<Rightarrow> Some t))
    | (Inl e, w') \<Rightarrow> infra e \<or> (e = Domain ErrTokenNotFound \<and> db w' = db w \<and>
          token \<notin> sub_Token ` set (subscriptions (db w)))) \<and>
   (case Unsubscribe (main_service E tr c ca base) token w of
      (Inr _, w') \<Rightarrow> token \<in> sub_Token ` set (subscriptions (db w)) \<and>
          subscriptions (db w') = del_rows (\<lambda>s. sub_Token s = token) (subscriptions (db w)) \<and>
          sagas (db w') = sagas (db w) \<and> outbox (db w') = outbox (db w) \<and> repositories (db w') = repositories (db w)
    | (Inl e, w') \<Rightarrow> infra e \<or> (e = Domain ErrTokenNotFound \<and> db w' = db w \<and>
          token \<notin> sub_Token ` set (subscriptions (db w))))"
proof -
  obtain a v where a: "Confirm (main_service E tr c ca base) token w = (a, v)" by fastforce
  obtain b u where b: "Unsubscribe (main_service E tr c ca base) token w = (b, u)" by fastforce
  show ?thesis
    unfolding a b using main_svc.Confirm_spec [OF a] main_svc.Unsubscribe_spec [OF b]
    by (cases a; cases b) (simp_all add: lookup_by_None_iff)
qed

section \<open>Input validation\<close>

text \<open>
  C26: \<open>ValidateEmail\<close> accepts exactly the addresses of the form local part, at sign, host, dot,
  top-level domain: non-empty parts over the character classes of the pattern, the last of at
  least two letters. The matcher (derivatives of the regular expression) is shown equivalent to
  this description.
\<close>

theorem validate_email_exact:
  "ValidateEmail email \<longleftrightarrow>
     (\<exists>loc host tld. email = loc @ ''@'' @ host @ ''.'' @ tld \<and> email_shape loc host tld)"
  by (rule ValidateEmail_shape)

text \<open>
  C27: \<open>ParseRepoSpec\<close> and \<open>RepoSpec.String\<close> are inverse to each other: a text is accepted exactly
  when it is the rendering of two non-empty segments without a slash, and it then parses to
  these segments.
\<close>

theorem repo_spec_round_trip:
  "(ParseRepoSpec s = Inr r) \<longleftrightarrow> (wf_spec r \<and> RepoSpec_String r = s)"
  using ParseRepoSpec_InrD ParseRepoSpec_print by blast

section \<open>The HTTP boundary\<close>

text \<open>
  What a client may be told about a subscription: each answer with the cause it implies and the effect
  the request had.
\<close>

definition subscribe_answer ::
  "env \<Rightarrow> bool \<Rightarrow> string \<Rightarrow> (string \<Rightarrow> string \<Rightarrow> (world, bool) act) \<Rightarrow> string \<Rightarrow> string \<Rightarrow>
   api_response \<Rightarrow> world \<Rightarrow> world \<Rightarrow> bool" where
  "subscribe_answer E sync base check email repo resp w w' \<longleftrightarrow>
     (if \<not> ValidateEmail email then resp = json_error 400 ''invalid email address'' \<and> w' = w
      else (case ParseRepoSpec repo of
        Inl err \<Rightarrow> resp = json_error 400 (''invalid repository format, expected owner/repo: '' @ Error err) \<and> w' = w
      | Inr spec \<Rightarrow>
          (resp = json_message ''subscription created, check your email to confirm'' \<and>
             (\<exists>w1. check (Owner spec) (Name spec) w = (Inr True, w1)) \<and> begins E sync base True email repo (db w) (db w')) \<or>
          (resp = json_error 404 ''repository not found on GitHub'' \<and>
             check (Owner spec) (Name spec) w = (Inr False, w') \<and> db w' = db w) \<or>
          (resp = json_error 409 ''email is already subscribed to this repository'' \<and> db w' = db w \<and>
             (\<exists>w1. check (Owner spec) (Name spec) w = (Inr True, w1)) \<and>
             (\<exists>s\<in>set (subscriptions (db w)). email_repo s = (email, repo) \<and> sub_Status s \<noteq> StatusFailed)) \<or>
          (resp = json_error 500 ''internal server error'' \<and>
             (tables_same (db w) (db w') \<or> begins E sync base False email repo (db w) (db w')))))"

text \<open>The classified errors \<open>Subscribe\<close> returns.\<close>

lemma Subscribe_errors:
  assumes run: "Subscribe E (main_service E tr c ca base) email repo w = (Inl e, w')" and "db_ok (db w)" and "uuid_column E"
  shows "(ValidateEmail email \<and> (\<exists>spec. ParseRepoSpec repo = Inr spec) \<and>
       (infra e \<or> e = Domain ErrRepoNotFound \<or> e = Domain ErrAlreadySubscribed)) \<or>
     (e = Domain ErrInvalidEmail \<and> \<not> ValidateEmail email) \<or>
     (\<exists>err. e = Errorf2 (Domain ErrInvalidRepoFormat) err \<and> ValidateEmail email \<and> ParseRepoSpec repo = Inl err)"
proof -
  have "infra e \<or> e = Domain ErrAlreadySubscribed"
    if "subscribe_known E (main_service E tr c ca base) email repo w1 = (Inl e, w')" "db w1 = db w" for w1
    using subscribe_known_effect [OF that(1) _ assms(3)] that(2) assms(2) by auto
  moreover have "svc_CheckRepoExists (main_service E tr c ca base) = github_CheckRepoExists E c ca" by (simp add: main_service_def)
  ultimately show ?thesis
    using run
    by (auto simp: Subscribe_def split: if_splits sum.splits prod.splits dest: github_CheckRepoExists_frame)
qed

lemma handler_Subscribe_answer:
  assumes run: "handler_Subscribe is_email E (main_service E tr c ca base) body w = (resp, w')"
    and req: "ShouldBindJSON is_email body = Some req" and ok: "db_ok (db w)" and E: "uuid_column E"
  shows "subscribe_answer E (tr \<noteq> None) base (github_CheckRepoExists E c ca) (sr_Email req) (sr_Repo req) resp w w'"
proof -
  let ?svc = "main_service E tr c ca base"
  obtain r w1 where sub: "Subscribe E ?svc (sr_Email req) (sr_Repo req) w = (r, w1)"
    by (cases "Subscribe E ?svc (sr_Email req) (sr_Repo req) w")
  note out = Subscribe_outcome [OF sub ok E]
  show ?thesis
  proof (cases r)
    case (Inr x)
    then show ?thesis
      using out run req sub by (auto simp: handler_Subscribe_def subscribe_outcome_def subscribe_answer_def)
  next
    case (Inl e)
    then have r: "resp = error_response e" "w' = w1" using run req sub by (simp_all add: handler_Subscribe_def)
    from Subscribe_errors [OF sub [unfolded Inl] ok E] show ?thesis
    proof (elim disjE exE conjE)
      assume "infra e"
      then show ?thesis
        using out Inl r by (auto simp: subscribe_outcome_def subscribe_answer_def KindOf_infra error_response_infra)
    next
      fix err assume "e = Errorf2 (Domain ErrInvalidRepoFormat) err" "ValidateEmail (sr_Email req)" "ParseRepoSpec (sr_Repo req) = Inl err"
      then show ?thesis
        using out Inl r
        by (auto simp: subscribe_outcome_def subscribe_answer_def error_response_def translateError_def KindOf_Errorf2 sentinel_defs)
    qed (use out Inl r in \<open>auto simp: subscribe_outcome_def subscribe_answer_def error_response_def translateError_def sentinel_defs\<close>)
  qed
qed

lemma handleTokenAction_answer:
  assumes run: "handleTokenAction action msg m token w = (resp, w')"
    and act: "case action token w of
      (Inr _, v) \<Rightarrow> P (subscriptions (db v))
    | (Inl e, v) \<Rightarrow> infra e \<or> (e = Domain ErrTokenNotFound \<and> db v = db w \<and> Q)"
  shows "(resp = json_message msg \<and> P (subscriptions (db w'))) \<or>
     (resp = json_error 404 ''subscription not found'' \<and> db w' = db w \<and> Q) \<or>
     resp = json_error 500 ''internal server error''"
proof (cases "action token w")
  case (Pair r v)
  have 404: "error_response (Domain ErrTokenNotFound) = json_error 404 ''subscription not found''"
    by (simp add: error_response_def translateError_def sentinel_defs)
  show ?thesis
    using run act Pair by (cases r) (auto simp: handleTokenAction_def error_response_infra 404)
qed

lemma Confirm_answer:
  "case Confirm (main_service E tr c ca base) token w of
      (Inr _, v) \<Rightarrow> \<exists>s\<in>set (subscriptions (db v)). sub_Token s = token \<and> sub_Confirmed s
    | (Inl e, v) \<Rightarrow> infra e \<or> (e = Domain ErrTokenNotFound \<and> db v = db w \<and> token \<notin> sub_Token ` set (subscriptions (db w)))"
proof -
  obtain r v where run: "Confirm (main_service E tr c ca base) token w = (r, v)" by fastforce
  note spec = main_svc.Confirm_spec [OF run]
  show ?thesis
  proof (cases r)
    case (Inl e)
    then show ?thesis using spec run by (auto simp: lookup_by_None_iff)
  next
    case (Inr x)
    then obtain s where s: "s \<in> set (subscriptions (db w))" "sub_Token s = token"
      "subscriptions (db v) = (if sub_Confirmed s then subscriptions (db w)
         else upd_rows (\<lambda>s. sub_Token s = token) confirm_row (subscriptions (db w)))"
      using spec lookup_by_SomeD by fastforce
    then have "if sub_Confirmed s then s \<in> set (subscriptions (db v)) else confirm_row s \<in> set (subscriptions (db v))"
      by (auto simp: set_upd_rows)
    then show ?thesis
      using s(2) Inr run by (auto simp: confirm_row_def split: if_splits intro: bexI [of _ s] bexI [of _ "confirm_row s"])
  qed
qed

text \<open>
  C29: An answer of the API says why. From the request's bytes to the response, under every answer of the
  outside and on both transports: a malformed body, address or repository is answered 400 with the
  text of that mistake and nothing is touched; 404 with the text of the missing thing means that GitHub
  answered no to this request's check, or that no row carries the token; 409 means a row that is not failed
  existed; none of them changes the database. Every other failure, whatever its text and
  through however many layers it was wrapped, is answered 500 with one fixed text that shows nothing of
  it. Success is answered 200 and means that the subscription was begun, the row with the token is
  confirmed, or it is removed.
\<close>

theorem error_responses:
  assumes "db_ok (db w)" and "uuid_column E"
  shows "(case handler_Subscribe is_email E (main_service E tr c ca base) body w of (resp, w') \<Rightarrow>
      (case ShouldBindJSON is_email body of
         None \<Rightarrow> resp = json_error 400 ''invalid request body'' \<and> w' = w
       | Some req \<Rightarrow> subscribe_answer E (tr \<noteq> None) base (github_CheckRepoExists E c ca)
           (sr_Email req) (sr_Repo req) resp w w')) \<and>
    (case handler_ConfirmSubscription (main_service E tr c ca base) token w of (resp, w') \<Rightarrow>
      (resp = json_message ''subscription confirmed'' \<and>
         (\<exists>s\<in>set (subscriptions (db w')). sub_Token s = token \<and> sub_Confirmed s)) \<or>
      (resp = json_error 404 ''subscription not found'' \<and> db w' = db w \<and>
         token \<notin> sub_Token ` set (subscriptions (db w))) \<or>
      resp = json_error 500 ''internal server error'') \<and>
    (case handler_Unsubscribe (main_service E tr c ca base) token w of (resp, w') \<Rightarrow>
      (resp = json_message ''unsubscribed successfully'' \<and>
         subscriptions (db w') = del_rows (\<lambda>s. sub_Token s = token) (subscriptions (db w))) \<or>
      (resp = json_error 404 ''subscription not found'' \<and> db w' = db w \<and>
         token \<notin> sub_Token ` set (subscriptions (db w))) \<or>
      resp = json_error 500 ''internal server error'')"
proof (intro conjI)
  let ?svc = "main_service E tr c ca base"
  show "case handler_Subscribe is_email E ?svc body w of (resp, w') \<Rightarrow>
      (case ShouldBindJSON is_email body of
         None \<Rightarrow> resp = json_error 400 ''invalid request body'' \<and> w' = w
       | Some req \<Rightarrow> subscribe_answer E (tr \<noteq> None) base (github_CheckRepoExists E c ca)
           (sr_Email req) (sr_Repo req) resp w w')"
    using handler_Subscribe_answer [OF _ _ assms, of is_email tr c ca base body]
    by (auto simp: handler_Subscribe_def [of is_email E ?svc body w] split: option.split prod.split)
  have conf: "case Confirm ?svc token w of
      (Inr _, v) \<Rightarrow> \<exists>s\<in>set (subscriptions (db v)). sub_Token s = token \<and> sub_Confirmed s
    | (Inl e, v) \<Rightarrow> infra e \<or> (e = Domain ErrTokenNotFound \<and> db v = db w \<and> token \<notin> sub_Token ` set (subscriptions (db w)))"
    by (rule Confirm_answer)
  show "case handler_ConfirmSubscription ?svc token w of (resp, w') \<Rightarrow>
      (resp = json_message ''subscription confirmed'' \<and>
         (\<exists>s\<in>set (subscriptions (db w')). sub_Token s = token \<and> sub_Confirmed s)) \<or>
      (resp = json_error 404 ''subscription not found'' \<and> db w' = db w \<and>
         token \<notin> sub_Token ` set (subscriptions (db w))) \<or>
      resp = json_error 500 ''internal server error''"
    using handleTokenAction_answer [where action = "Confirm ?svc" and P = "\<lambda>ss. \<exists>s\<in>set ss. sub_Token s = token \<and> sub_Confirmed s"
        and Q = "token \<notin> sub_Token ` set (subscriptions (db w))" and token = token and w = w, OF _ conf]
    by (auto simp: handler_ConfirmSubscription_def split: prod.split)
  have unsub: "case Unsubscribe ?svc token w of
      (Inr _, v) \<Rightarrow> subscriptions (db v) = del_rows (\<lambda>s. sub_Token s = token) (subscriptions (db w))
    | (Inl e, v) \<Rightarrow> infra e \<or> (e = Domain ErrTokenNotFound \<and> db v = db w \<and> token \<notin> sub_Token ` set (subscriptions (db w)))"
    using main_svc.Unsubscribe_spec [of E tr c ca base token w] by (auto split: prod.split sum.splits)
  show "case handler_Unsubscribe ?svc token w of (resp, w') \<Rightarrow>
      (resp = json_message ''unsubscribed successfully'' \<and>
         subscriptions (db w') = del_rows (\<lambda>s. sub_Token s = token) (subscriptions (db w))) \<or>
      (resp = json_error 404 ''subscription not found'' \<and> db w' = db w \<and>
         token \<notin> sub_Token ` set (subscriptions (db w))) \<or>
      resp = json_error 500 ''internal server error''"
    using handleTokenAction_answer [where action = "Unsubscribe ?svc"
        and P = "\<lambda>ss. ss = del_rows (\<lambda>s. sub_Token s = token) (subscriptions (db w))"
        and Q = "token \<notin> sub_Token ` set (subscriptions (db w))" and token = token and w = w, OF _ unsub]
    by (auto simp: handler_Unsubscribe_def split: prod.split)
qed

theorem error_responses_witness:
  "handler_Subscribe (\<lambda>_. True) calm_env (main_service calm_env None sample_client None ''http://x'')
     (JObject [(''email'', JString ''no-at-sign''), (''repo'', JString ''o/r'')]) init_world =
   (json_error 400 ''invalid email address'', init_world)"
proof -
  let ?svc = "main_service calm_env None sample_client None ''http://x''"
  let ?body = "JObject [(''email'', JString ''no-at-sign''), (''repo'', JString ''o/r'')]"
  have "ShouldBindJSON (\<lambda>_. True) ?body = Some \<lparr>sr_Email = ''no-at-sign'', sr_Repo = ''o/r''\<rparr>"
    by (simp add: ShouldBindJSON_def same_field_def fold_name_def lower_def)
  moreover have "\<not> ValidateEmail ''no-at-sign''" using ValidateEmail_safe [of "''no-at-sign''"] by auto
  ultimately show ?thesis
    using error_responses [where is_email = "\<lambda>_. True" and tr = None and c = sample_client and ca = None
        and base = "''http://x''" and body = ?body, OF init_ok calm_uuid_column(1), THEN conjunct1]
    by (simp add: subscribe_answer_def split: prod.splits)
qed

text \<open>
  C30: With an API key configured, a request to the \<open>/api\<close> group without that key is answered 401
  (no key) or 403 (wrong key), and nothing runs: the database is as before, and all the history gains
  are clock readings, a request id and the log line of the request.
\<close>

theorem api_key_required:
  assumes "api_Key cf \<noteq> []" and "http_Header r ''X-API-Key'' \<noteq> api_Key cf" and "in_api_group ep"
    and "serve E cf svc r ep w = ((rid, resp), w')"
  shows "resp_Status resp = (if http_Header r ''X-API-Key'' = [] then 401 else 403) \<and> db w' = db w \<and>
     adds (request_trace r ep resp) (hist w) (hist w')"
  by (rule serve_unauthorized [OF assms])

definition sample_cf :: api_config where
  "sample_cf = \<lparr>api_IsEmail = (\<lambda>_. True), api_FmtTime = (\<lambda>_. ''2024-01-01T00:00:00Z''), api_Key = ''k'',
     api_Metrics = (\<lambda>_ _. []), api_Index = (\<lambda>_. (200, [])), api_Logger = Setup_logger ''info''\<rparr>"

definition sample_request :: api_request where
  "sample_request = \<lparr>http_Method = ''GET'', http_Header = (\<lambda>_. []), http_Body = JNull, http_Query = (\<lambda>_. []),
     http_ClientIP = ''127.0.0.1''\<rparr>"

theorem api_key_required_witness:
  "let x = serve calm_env sample_cf (main_service calm_env None sample_client None ''http://x'') sample_request
     (ApiConfirm ''tok'') init_world
   in resp_Status (snd (fst x)) = 401 \<and> db (snd x) = db init_world"
proof -
  let ?svc = "main_service calm_env None sample_client None ''http://x''"
  obtain rid resp w' where run: "serve calm_env sample_cf ?svc sample_request (ApiConfirm ''tok'') init_world = ((rid, resp), w')"
    by (metis surj_pair)
  have "api_Key sample_cf \<noteq> []" and "http_Header sample_request ''X-API-Key'' = []"
    and "http_Header sample_request ''X-API-Key'' \<noteq> api_Key sample_cf"
    by (simp_all add: sample_cf_def sample_request_def)
  with api_key_required [OF _ _ _ run] show ?thesis by (simp add: run)
qed

text \<open>
  C17: The listing of an address hands out the tokens of its subscriptions, unconfirmed ones
  included: whoever may call it can confirm or remove them without access to the mailbox.
\<close>

theorem listing_shows_tokens:
  assumes "pg_up E" and "ValidateEmail email" and "s \<in> set (subscriptions (db w))" and "sub_Email s = email"
  shows "\<exists>subs members. resp_Body (fst (handler_GetSubscriptions f (main_service E tr c ca base) email w)) = Json (JArray subs) \<and>
     JObject members \<in> set subs \<and> (''token'', JString (sub_Token s)) \<in> set members"
proof -
  have ne: "email \<noteq> []" using assms(2) by (auto simp: ValidateEmail_shape)
  let ?subs = "sort_key sub_CreatedAt (sort_key (pg_rank E (hist w) \<circ> sub_ID)
      (filter (\<lambda>s. sub_Email s = email) (subscriptions (db w))))"
  have "resp_Body (fst (handler_GetSubscriptions f (main_service E tr c ca base) email w)) =
      Json (JArray (map (marshal_Subscription f) ?subs))"
    using ne assms(1,2)
    by (simp add: handler_GetSubscriptions_def GetSubscriptions_def main_service_def GetSubscriptionsByEmail_def run_stmt_up)
  moreover have "marshal_Subscription f s \<in> set (map (marshal_Subscription f) ?subs)" using assms(3,4) by auto
  ultimately show ?thesis unfolding marshal_Subscription_def by fastforce
qed

theorem listing_shows_tokens_witness:
  "\<exists>subs members. resp_Body (fst (handler_GetSubscriptions (\<lambda>_. []) (main_service calm_env None sample_client None ''http://x'')
      ''a@b.co'' (init_world\<lparr>db := empty_db\<lparr>subscriptions := [new_sub 1 ''a@b.co'' ''o/r'' ''tok'' 0]\<rparr>\<rparr>))) = Json (JArray subs) \<and>
     JObject members \<in> set subs \<and> (''token'', JString ''tok'') \<in> set members"
proof -
  have "email_shape ''a'' ''b'' ''co''"
    by (simp add: email_shape_def in_class_def local_class_def domain_class_def letters_def)
  then have v: "ValidateEmail ''a@b.co''"
    unfolding ValidateEmail_shape by (intro exI [of _ "''a''"] exI [of _ "''b''"] exI [of _ "''co''"]) simp
  show ?thesis
    using listing_shows_tokens [OF calm_pg_up(1) v, of "new_sub 1 ''a@b.co'' ''o/r'' ''tok'' 0"
        "init_world\<lparr>db := empty_db\<lparr>subscriptions := [new_sub 1 ''a@b.co'' ''o/r'' ''tok'' 0]\<rparr>\<rparr>"]
    by (simp add: new_sub_def)
qed

text \<open>
  C22: Every response of the API has its type: the status is one of the endpoint's (a confirmation or
  an unsubscription is never answered 400 or 409, an unknown route always 404), and the body is the
  message, the list of subscription objects or the error object that belongs to the status; an
  endpoint outside the \<open>/api\<close> group never answers with an error object.
\<close>

theorem responses_typed:
  "response_typed ep (snd (fst (serve E cf (main_service E tr c ca base) r ep w)))"
  using serve_typed [of E cf tr c ca base r ep w] by (metis prod.collapse)

text \<open>
  C23: The metrics account for the work. A request: apart from the calls to GitHub, exactly these series
  grow, each by one: the request counter under method, route template and status and the duration
  histogram under method and route template (unless the request is a scrape of \<open>/metrics\<close>), and the
  business counter of a subscription, confirmation or unsubscription if and only if the answer is 200;
  the last event is the log line, at the level of the status, unless the configured level drops it. A
  scan, whatever fails in it: the cycle is counted once, its duration is observed once, the gauge shows
  the clock at its end, and the notices handed to the broker are exactly those counted as sent or as
  errors of stage \<open>notify\<close>.
\<close>

theorem metrics_account_for_work:
  "(case serve E cf (main_service E tr c ca base) r ep w of ((rid, resp), w') \<Rightarrow>
     (\<exists>d. app_metrics w' = (\<lambda>k. app_metrics w k + of_bool (counted r ep (resp_Status resp) d k))) \<and>
     (\<exists>ms h. hist w' = (if Enabled (api_Logger cf) (request_level (resp_Status resp))
        then [RequestLine (request_level (resp_Status resp)) (http_Method r) (FullPath ep) (resp_Status resp) ms
               (http_ClientIP r) rid] else []) @ TimeNow # h)) \<and>
   (let w' = scan (main_scanner E tr c ca base i) w in
     metrics w' ScannerRunsTotal = Suc (metrics w ScannerRunsTotal) \<and>
     (\<exists>d. \<forall>d'. metrics w' (ScannerCycleDuration d') = metrics w (ScannerCycleDuration d') + of_bool (d' = d)) \<and>
     ScannerLastRunTimestamp w' = time_Now E (tl (hist w')) \<and>
     attempts w' + length (release_notices (hist w)) = attempts w + length (release_notices (hist w')))"
  using serve_accounted [where E = E and cf = cf and tr = tr and c = c and ca = ca and base = base and r = r and ep = ep and w = w]
    main_scan_counts.scan_counts [of E tr c ca base i w]
    scan_stamp [of E tr c ca base i w]
  by (simp add: Let_def)

section \<open>GitHub\<close>

text \<open>
  C25: One logical call to GitHub makes at most four HTTP requests and sleeps between them; what
  it returns is the answer to the last request, and a 429 is returned only after four of them.
\<close>

theorem github_retries_bounded:
  assumes "doWithRetry E req w = (r, w')"
  shows "\<exists>evs. hist w' = evs @ hist w \<and> db w' = db w \<and>
     set evs \<subseteq> insert (HttpDo req) (range Wait) \<and> length (filter is_http evs) \<le> 4 \<and>
     evs \<noteq> [] \<and> hd evs = HttpDo req \<and> r = http_result (http_Do E (tl evs @ hist w) req) \<and>
     (\<forall>resp. r = Inr resp \<and> StatusCode resp = StatusTooManyRequests \<longrightarrow> length (filter is_http evs) = 4)"
  using retry_from_hist [OF assms [unfolded doWithRetry_def]] by (elim exE) (rule_tac x = evs in exI, simp)

definition sample_req :: http_request where
  "sample_req = \<lparr>req_URL = ''https://api.github.com/repos/o/r'', req_Header = []\<rparr>"

theorem github_retries_bounded_witness:
  "\<exists>evs. hist (snd (doWithRetry rate_limited sample_req init_world)) = evs @ hist init_world \<and>
     length (filter is_http evs) = 4"
proof -
  have "\<exists>resp. fst (doWithRetry rate_limited sample_req init_world) = Inr resp \<and> StatusCode resp = StatusTooManyRequests"
    by (simp add: doWithRetry_def numeral_3_eq_3 http_call_def rate_limited_def calm_env_def StatusTooManyRequests_def Let_def)
  then show ?thesis
    using github_retries_bounded [OF prod.collapse [symmetric], of rate_limited sample_req init_world] by auto
qed

text \<open>
  C24: The Redis cache is transparent: as long as every cached entry is an answer GitHub gave, both
  operations of the cached client, the latest release and the existence check, answer only what GitHub
  answered, now or earlier, for the same repository, and keep the cache in that condition; an unavailable
  cache never turns into an error.
\<close>

definition cache_truthful :: "env \<Rightarrow> Client \<Rightarrow> history \<Rightarrow> bool" where
  "cache_truthful E c h \<longleftrightarrow>
     (\<forall>s v. redis_holds E h (exists_entry s) v \<longrightarrow> (\<exists>b. v = show_exists b \<and> github_said_exists E c h s b)) \<and>
     (\<forall>s v. redis_holds E h (release_entry s) v \<longrightarrow> github_said_tag E c h s v)"

theorem cache_transparent:
  assumes "cache_truthful E c (hist w)" and "Cached_GetLatestRelease (main_gateway E c ca) owner repo w = (r, w')"
    and "Cached_CheckRepoExists (main_gateway E c ca) owner repo w = (q, u')"
  shows "cache_truthful E c (hist w') \<and> db w' = db w \<and>
     (case r of Inr tag \<Rightarrow> github_said_tag E c (hist w') (slug owner repo) tag
      | Inl e \<Rightarrow> \<exists>v v'. Client_GetLatestRelease E c owner repo v = (Inl e, v')) \<and>
     cache_truthful E c (hist u') \<and> db u' = db w \<and>
     (case q of Inr found \<Rightarrow> github_said_exists E c (hist u') (slug owner repo) found
      | Inl e \<Rightarrow> \<exists>v v'. Client_CheckRepoExists E c owner repo v = (Inl e, v'))"
proof -
  have t: "gateway.truthful E c h \<longleftrightarrow> cache_truthful E c h" for h
    by (simp add: gateway.truthful_def cache_truthful_def)
  have up: "up_GetLatestRelease (main_gateway E c ca) = Client_GetLatestRelease E c"
    "up_CheckRepoExists (main_gateway E c ca) = Client_CheckRepoExists E c"
    by (simp_all add: main_gateway_def)
  from gateway.Cached_GetLatestRelease_truthful [OF _ assms(2)] gateway.Cached_CheckRepoExists_truthful [OF _ assms(3)] assms(1)
  show ?thesis unfolding t up by blast
qed

theorem cache_transparent_witness:
  "let x = Cached_GetLatestRelease (main_gateway calm_env sample_client \<lparr>cache_ttl = 1\<rparr>) ''o'' ''r'' init_world
   in cache_truthful calm_env sample_client (hist (snd x))"
proof -
  have "cache_truthful calm_env sample_client (hist init_world)"
    using calm_redis_sound by (simp add: cache_truthful_def redis_holds_def init_world_def)
  from cache_transparent [OF this prod.collapse [symmetric] prod.collapse [symmetric]] show ?thesis by (simp add: Let_def)
qed

section \<open>The release scanner\<close>

text \<open>
  C21: Whoever is told about a release during a scan is a confirmed subscriber of that repository;
  the release was not the recorded one when the scan began and is recorded when it ends, so the
  same release is not announced again; the unsubscribe link carries the subscriber's own token.
\<close>

theorem scan_notifies_confirmed_once:
  "\<exists>new. release_notices (hist (scan (main_scanner E tr c ca base i) w)) = release_notices (hist w) @ new \<and>
     list_all (\<lambda>(to, repo, tag, url).
        tag \<noteq> [] \<and> seen_tag repo (db w) \<noteq> Some tag \<and>
        seen_tag repo (db (scan (main_scanner E tr c ca base i) w)) = Some tag \<and>
        (\<exists>s\<in>set (subscriptions (db w)). sub_Confirmed s \<and> sub_Repo s = repo \<and> sub_Email s = to \<and>
           url = unsubscribe_url base (sub_Token s))) new"
proof -
  have base: "sc_baseURL (main_scanner E tr c ca base i) = base" by (simp add: main_scanner_def Let_def)
  from main_scan.scan_due [of E tr c ca base i w] show ?thesis
    unfolding main_scan.due_def base list_all_iff by fast
qed

end
