(* ===== verification/Progress.thy ===== *)
theory Progress
  imports Saga_System
begin

text \<open>
  What happens when the outside works: the operations then return, and they return success. The
  hypotheses are those of the documentation of the outside parts: the database executes every
  statement (\<open>pg_up\<close>), \<open>uuid.NewString\<close> returns fresh identifiers the UUID column accepts.
\<close>

section \<open>Fresh identifiers and room in the columns\<close>

definition uuids_fresh :: "env \<Rightarrow> world \<Rightarrow> bool" where
  "uuids_fresh E w \<longleftrightarrow> (\<forall>h. extends (hist w) h \<longrightarrow>
     varchar 36 (uuid_NewString E h) \<and> uuid_NewString E h \<noteq> [] \<and>
     (\<exists>u. pg_uuid E (uuid_NewString E h) = Some u \<and> u \<notin> saga_ID ` set (sagas (db w))) \<and>
     uuid_NewString E h \<notin> sub_Token ` set (subscriptions (db w)) \<and>
     ''confirm:'' @ uuid_NewString E h \<notin> msg_MessageID ` set (outbox (db w)))"

definition has_room :: "string \<Rightarrow> string \<Rightarrow> db \<Rightarrow> bool" where
  "has_room email repo d \<longleftrightarrow> varchar 255 email \<and> varchar 255 repo \<and>
     sub_seq d < serial_max \<and> outbox_seq d < bigserial_max"

lemma uuids_fresh_mono: "uuids_fresh E w \<Longrightarrow> extends (hist w) (hist w') \<Longrightarrow> db w' = db w \<Longrightarrow> uuids_fresh E w'"
  unfolding uuids_fresh_def by (auto dest: extends_trans)

lemma varchar_confirm: "varchar 36 s \<Longrightarrow> varchar 255 (''confirm:'' @ s) \<and> varchar 255 s \<and> varchar 255 RoutingConfirm"
  by (simp add: varchar_def char_count_def RoutingConfirm_def)

section \<open>Step T1\<close>

lemma StartConfirmation_up:
  assumes "pg_up E" "uuids_fresh E w" "has_room email repo (db w)" "uuid_column E"
    and "(email, repo) \<notin> email_repo ` set (subscriptions (db w))"
    and "varchar 36 token" "token \<notin> sub_Token ` set (subscriptions (db w))"
    and "''confirm:'' @ token \<notin> msg_MessageID ` set (outbox (db w))"
  shows "fst (StartConfirmation E None email repo token url w) = Inr ()"
proof -
  have ext: "extends (hist w) (a # b # hist w)" for a b by (auto intro: extends_Cons)
  from assms(2) obtain u where
    u: "pg_uuid E (uuid_NewString E (PgStatement ''INSERT INTO subscriptions RETURNING id'' # PgStatement ''BEGIN'' # hist w)) = Some u"
    "u \<notin> saga_ID ` set (sagas (db w))"
    unfolding uuids_fresh_def using ext by blast
  have pay: "marshal_ConfirmationRequest c \<noteq> JMalformed" for c by (simp add: marshal_ConfirmationRequest_def)
  have pg: "pg E h = PgOk" for h using assms(1) by (simp add: pg_up_def)
  show ?thesis
    using assms(3-8) u varchar_confirm [OF assms(6)] 
    by (simp add: StartConfirmation_def saga_tx_def BeginTxx_def Commit_def run_stmt_up [OF assms(1)] pg pay
        subscription_CreateInTx_def enqueueConfirmation_def new_uuid_def saga_CreateInTx_def Enqueue_def
        insert_subscription_def insert_saga_def insert_outbox_def has_room_def Let_def)
qed

section \<open>Subscribing\<close>

text \<open>A call of the gateway only adds to the history.\<close>

context cached_gateway
begin

lemma Cached_CheckRepoExists_extends:
  assumes run: "Cached_CheckRepoExists cc owner repo w = (r, w')"
  shows "extends (hist w) (hist w') \<and> db w' = db w"
proof -
  obtain g w1 where g: "cache_Get cc (exists_key owner repo) w = (g, w1)" by (cases "cache_Get cc (exists_key owner repo) w")
  let ?w1 = "metric_inc (GitHubAPICalls ''check_repo'' ''miss'') w1"
  obtain u w2 where u: "up_CheckRepoExists cc owner repo ?w1 = (u, w2)" by (cases "up_CheckRepoExists cc owner repo ?w1")
  have g1: "extends (hist w) (hist w1)" "db w1 = db w" using get [OF g] by simp_all
  have u2: "extends (hist w1) (hist w2)" "db w2 = db w1" using up_exists [OF u] by simp_all
  have s3: "extends (hist w2) (hist (snd (cache_Set cc k v w2)))" "db (snd (cache_Set cc k v w2)) = db w2" for k v
    using set [of k v w2] by (metis prod.collapse)+
  show ?thesis
    using run g u g1 u2 s3 extends_trans [OF g1(1) u2(1)]
    by (auto simp: Cached_CheckRepoExists_def Let_def split: if_splits sum.splits intro: extends_trans)
qed

end

lemma github_CheckRepoExists_extends:
  "github_CheckRepoExists E c ca owner repo w = (r, w') \<Longrightarrow> extends (hist w) (hist w') \<and> db w' = db w"
  using gateway.Cached_CheckRepoExists_extends Client_CheckRepoExists_said
  by (cases ca) (fastforce simp: github_CheckRepoExists_def)+

lemma Subscribe_up:
  assumes up: "pg_up E" and uuid: "uuid_column E" "uuids_fresh E w" and room: "has_room email repo (db w)"
    and valid: "ValidateEmail email" "ParseRepoSpec repo = Inr spec"
    and gh: "github_CheckRepoExists E c ca (Owner spec) (Name spec) w = (Inr True, w1)"
    and new: "(email, repo) \<notin> email_repo ` set (subscriptions (db w))"
  shows "\<exists>w' token n t. Subscribe E (main_service E None c ca base) email repo w = (Inr (), w') \<and>
     subscriptions (db w') = subscriptions (db w) @ [new_sub n email repo token t] \<and>
     t1_written E n email repo token (confirm_url base token) (db w) (db w')"
proof -
  let ?svc = "main_service E None c ca base"
  have chk: "svc_CheckRepoExists ?svc (Owner spec) (Name spec) w = (Inr True, w1)"
    using gh by (simp add: main_service_def)
  have w1: "db w1 = db w" "extends (hist w) (hist w1)" using github_CheckRepoExists_extends [OF gh] by simp_all
  define w2 where "w2 = logged (PgStatement ''SELECT FROM subscriptions WHERE email AND repo'') w1"
  define token where "token = uuid_NewString E (hist w2)"
  define w3 where "w3 = logged (UuidNew token) w2"
  have none: "lookup_by email_repo (email, repo) (subscriptions (db w)) = None"
    using new by (simp add: lookup_by_None_iff)
  have d: "db w3 = db w" "extends (hist w) (hist w2)" "extends (hist w) (hist w3)"
    using w1 by (auto simp: w2_def w3_def intro: extends_Cons)
  have get: "svc_GetSubscriptionByEmailAndRepo ?svc email repo w1 = (Inr None, w2)"
    by (simp add: main_service_def GetSubscriptionByEmailAndRepo_def run_stmt_up [OF up] none w1 w2_def)
  have new: "new_uuid E w2 = (token, w3)" by (simp add: new_uuid_def token_def w3_def Let_def)
  obtain r w' where run: "StartConfirmation E None email repo token (confirm_url base token) w3 = (r, w')"
    by (cases "StartConfirmation E None email repo token (confirm_url base token) w3")
  have "r = Inr ()"
    using StartConfirmation_up [OF up uuids_fresh_mono [OF uuid(2)], of w3 email repo token "confirm_url base token"]
      uuid room d new assms(8) run unfolding uuids_fresh_def token_def by auto
  then show ?thesis
    using StartConfirmation_T1 [OF run uuid(1)] chk get new run valid d
    by (auto simp: Subscribe_def subscribe_known_def main_service_def sender_of_def)
qed

end
