(* ===== verification/Load_Driver.thy ===== *)
theory Load_Driver
  imports Go_Stdlib "HOL-Library.Multiset"
begin

text \<open>
  The load driver of the transport benchmark (\<open>drive\<close> in \<open>cmd/confirmbench/main.go\<close>): several
  goroutines draw indices from one atomic 64-bit counter, call, and store the latency in a
  shared slice. One step of a worker is one atomic action of its loop, and a run is any
  interleaving of such steps. The invariant gives that every index is drawn once, that no
  access is out of range and that the counter does not wrap; a measure gives that every run
  ends, after the same number of steps.
\<close>

section \<open>Workers and steps\<close>

text \<open>Where a worker stands: before the \<open>AddInt64\<close>, in the call for an index, or returned.\<close>

datatype worker = Claiming | Calling int | Returned

record drive_state =
  dr_idx :: "64 word"
  dr_lat :: "duration list"
  dr_workers :: "worker list"
  dr_log :: "(int \<times> duration) list"
  dr_panic :: bool

definition drive_init :: "nat \<Rightarrow> nat \<Rightarrow> drive_state" where
  "drive_init concurrency cnt =
     \<lparr>dr_idx = - 1, dr_lat = replicate cnt 0, dr_workers = replicate concurrency Claiming,
      dr_log = [], dr_panic = False\<rparr>"

text \<open>
  \<open>worker_step cnt k d\<close>: the next atomic action of worker \<open>k\<close>; \<open>d\<close> is the latency the call
  returns when the action is the end of a call. The log keeps the calls in the order in which
  they ended. An index outside the slice panics.
\<close>

definition worker_step :: "nat \<Rightarrow> nat \<Rightarrow> duration \<Rightarrow> drive_state \<Rightarrow> drive_state option" where
  "worker_step cnt k d s =
     (if k < length (dr_workers s) \<and> \<not> dr_panic s
      then (case dr_workers s ! k of
              Claiming \<Rightarrow>
                (let i = dr_idx s + 1 in
                 Some (s\<lparr>dr_idx := i,
                   dr_workers := (dr_workers s)[k := if int cnt \<le> sint i then Returned else Calling (sint i)]\<rparr>))
            | Calling i \<Rightarrow>
                (if 0 \<le> i \<and> i < int (length (dr_lat s))
                 then Some (s\<lparr>dr_lat := (dr_lat s)[nat i := d], dr_workers := (dr_workers s)[k := Claiming],
                        dr_log := dr_log s @ [(i, d)]\<rparr>)
                 else Some (s\<lparr>dr_panic := True\<rparr>))
            | Returned \<Rightarrow> None)
      else None)"

inductive drive_step :: "nat \<Rightarrow> drive_state \<Rightarrow> drive_state \<Rightarrow> bool" for cnt where
  "worker_step cnt k d s = Some s' \<Longrightarrow> drive_step cnt s s'"

inductive_cases drive_stepE: "drive_step cnt s s'"

text \<open>\<open>wg.Wait()\<close> returns when every worker has returned.\<close>

definition all_returned :: "drive_state \<Rightarrow> bool" where
  "all_returned s \<longleftrightarrow> list_all (\<lambda>x. x = Returned) (dr_workers s)"

section \<open>The invariant\<close>

fun calling :: "worker list \<Rightarrow> int list" where
  "calling [] = []"
| "calling (Calling i # ws) = i # calling ws"
| "calling (x # ws) = calling ws"

definition returned :: "worker list \<Rightarrow> nat" where
  "returned ws = length (filter (\<lambda>x. x = Returned) ws)"

definition claiming :: "worker list \<Rightarrow> nat" where
  "claiming ws = length (filter (\<lambda>x. x = Claiming) ws)"

definition claimed :: "drive_state \<Rightarrow> int list" where
  "claimed s = calling (dr_workers s) @ map fst (dr_log s)"

definition drive_inv :: "nat \<Rightarrow> nat \<Rightarrow> drive_state \<Rightarrow> bool" where
  "drive_inv n cnt s \<longleftrightarrow>
     length (dr_workers s) = n \<and> length (dr_lat s) = cnt \<and> \<not> dr_panic s \<and>
     mset (claimed s) = mset (map int [0..<length (claimed s)]) \<and> length (claimed s) \<le> cnt \<and>
     sint (dr_idx s) + 1 = int (length (claimed s) + returned (dr_workers s)) \<and>
     (returned (dr_workers s) \<noteq> 0 \<longrightarrow> length (claimed s) = cnt) \<and>
     (\<forall>(i, d)\<in>set (dr_log s). dr_lat s ! nat i = d)"

lemma calling_append [simp]: "calling (xs @ ys) = calling xs @ calling ys"
  by (induction xs rule: calling.induct) simp_all

lemma returned_simps [simp]:
  "returned [] = 0" "returned (x # ws) = (if x = Returned then Suc (returned ws) else returned ws)"
  "returned (xs @ ys) = returned xs + returned ys"
  by (simp_all add: returned_def)

lemma claiming_simps [simp]:
  "claiming [] = 0" "claiming (x # ws) = (if x = Claiming then Suc (claiming ws) else claiming ws)"
  "claiming (xs @ ys) = claiming xs + claiming ys"
  by (simp_all add: claiming_def)

lemma returned_le: "returned ws \<le> length ws"
  by (simp add: returned_def)

lemma worker_at:
  assumes "k < length ws"
  obtains as bs where "ws = as @ ws ! k # bs" "length as = k"
  using that [of "take k ws" "drop (Suc k) ws"] assms id_take_nth_drop by fastforce

text \<open>The three ways a worker steps.\<close>

lemma drive_stepE3:
  assumes "drive_step cnt s s'"
  obtains
    (claim) as bs where "dr_workers s = as @ Claiming # bs" "sint (dr_idx s + 1) < int cnt"
      "s' = s\<lparr>dr_idx := dr_idx s + 1, dr_workers := as @ Calling (sint (dr_idx s + 1)) # bs\<rparr>"
  | (return) as bs where "dr_workers s = as @ Claiming # bs" "int cnt \<le> sint (dr_idx s + 1)"
      "s' = s\<lparr>dr_idx := dr_idx s + 1, dr_workers := as @ Returned # bs\<rparr>"
  | (call) as bs i d where "dr_workers s = as @ Calling i # bs" "0 \<le> i" "i < int (length (dr_lat s))"
      "s' = s\<lparr>dr_lat := (dr_lat s)[nat i := d], dr_workers := as @ Claiming # bs, dr_log := dr_log s @ [(i, d)]\<rparr>"
  | (panic) i where "i \<in> set (calling (dr_workers s))" "i < 0 \<or> int (length (dr_lat s)) \<le> i" "s' = s\<lparr>dr_panic := True\<rparr>"
proof -
  from assms obtain k d where st: "worker_step cnt k d s = Some s'" by (rule drive_stepE)
  then have k: "k < length (dr_workers s)" by (simp add: worker_step_def split: if_splits)
  from worker_at [OF k] obtain as x bs where ws: "dr_workers s = as @ x # bs" and las: "length as = k" by metis
  show ?thesis
  proof (cases x)
    case Claiming
    then show ?thesis
      using st ws claim [of as bs] return [of as bs]
      by (cases "int cnt \<le> sint (dr_idx s + 1)") (auto simp: worker_step_def Let_def las [symmetric] split: if_splits)
  next
    case (Calling i)
    then show ?thesis
      using st ws call [of as i bs d] panic [of i]
      by (cases "0 \<le> i \<and> i < int (length (dr_lat s))")
        (auto simp: worker_step_def las [symmetric] split: if_splits)
  next
    case Returned
    then show ?thesis using st ws by (simp add: worker_step_def las [symmetric] split: if_splits)
  qed
qed

lemma sint_succ:
  assumes "sint (x :: 64 word) + 1 < 2 ^ 63"
  shows "sint (x + 1) = sint x + 1"
proof -
  have "sint (x + 1) = signed_take_bit 63 (sint x + 1)" by (simp add: sint_word_ariths)
  moreover have "- (2 ^ 63) \<le> sint x" using sint_ge [of x] by simp
  ultimately show ?thesis using assms by (simp add: signed_take_bit_int_eq_self)
qed

lemma drive_init_inv: "drive_inv n cnt (drive_init n cnt)"
proof -
  have "calling (replicate n Claiming) = []" "returned (replicate n Claiming) = 0"
    by (induction n) simp_all
  then show ?thesis by (simp add: drive_inv_def drive_init_def claimed_def)
qed

lemma drive_step_inv:
  assumes "drive_inv n cnt s" "drive_step cnt s s'" "int n + int cnt < 2 ^ 63"
  shows "drive_inv n cnt s'"
proof -
  let ?m = "length (claimed s)" and ?r = "returned (dr_workers s)"
  note inv = assms(1) [unfolded drive_inv_def]
  from inv have idx: "sint (dr_idx s) + 1 = int (?m + ?r)" and le: "?m \<le> cnt"
    and perm: "mset (claimed s) = mset (map int [0..<?m])" and lat: "length (dr_lat s) = cnt" by auto
  have "?r \<le> n" using inv returned_le [of "dr_workers s"] by simp
  then have succ: "sint (dr_idx s + 1) = int (?m + ?r)" using sint_succ [of "dr_idx s"] idx le assms(3) by simp
  have set: "set (claimed s) = int ` {0..<?m}"
    using arg_cong [OF perm, of set_mset] by simp
  have dist: "distinct (claimed s)"
    using mset_eq_imp_distinct_iff [OF perm] by (simp add: distinct_map)
  from assms(2) show ?thesis
  proof (cases rule: drive_stepE3)
    case (claim as bs)
    then have r0: "?r = 0" using succ inv by auto
    then have "length (claimed s') = Suc ?m" "mset (claimed s') = add_mset (int ?m) (mset (claimed s))"
      using claim succ by (auto simp: claimed_def)
    then show ?thesis using claim inv succ r0 perm by (auto simp: drive_inv_def)
  next
    case (return as bs)
    then have "?m = cnt" using succ inv by (cases "?r = 0") auto
    moreover have "claimed s' = claimed s" using return by (simp add: claimed_def)
    ultimately show ?thesis using return inv succ by (auto simp: drive_inv_def)
  next
    case (call as bs i d)
    have "mset (claimed s') = mset (claimed s)" "length (claimed s') = ?m" using call by (auto simp: claimed_def)
    moreover have "dr_lat s' ! nat j = e" if "(j, e) \<in> set (dr_log s')" for j e
    proof (cases "(j, e) \<in> set (dr_log s)")
      case True
      then have "j \<in> set (claimed s)" "j \<noteq> i" using dist call by (force simp: claimed_def)+
      then have "nat j \<noteq> nat i" using set call by auto
      then show ?thesis using True inv call by auto
    next
      case False
      then show ?thesis using that call by auto
    qed
    ultimately show ?thesis
      using call inv by (auto simp: drive_inv_def)
  next
    case (panic i)
    then have "i \<in> set (claimed s)" by (simp add: claimed_def)
    then show ?thesis using panic set le lat by auto
  qed
qed

section \<open>Every run ends\<close>

definition drive_left :: "nat \<Rightarrow> drive_state \<Rightarrow> nat" where
  "drive_left cnt s = 2 * (cnt - length (claimed s)) + 2 * length (calling (dr_workers s)) + claiming (dr_workers s)"

lemma drive_left_init: "drive_left cnt (drive_init n cnt) = 2 * cnt + n"
proof -
  have "calling (replicate n Claiming) = []" "claiming (replicate n Claiming) = n"
    by (induction n) simp_all
  then show ?thesis by (simp add: drive_left_def drive_init_def claimed_def)
qed

lemma drive_left_step:
  assumes "drive_inv n cnt s" "drive_inv n cnt s'" "drive_step cnt s s'"
  shows "drive_left cnt s = Suc (drive_left cnt s')"
proof -
  have le: "length (claimed s) \<le> cnt" "length (claimed s') \<le> cnt" and ok: "\<not> dr_panic s'"
    using assms(1,2) by (simp_all add: drive_inv_def)
  from assms(3) show ?thesis
    by (cases rule: drive_stepE3) (use le ok in \<open>auto simp: drive_left_def claimed_def\<close>)
qed

lemma all_returned_left:
  assumes "drive_inv n cnt s" "0 < n"
  shows "all_returned s \<longleftrightarrow> drive_left cnt s = 0"
proof -
  have all: "list_all (\<lambda>x. x = Returned) ws \<longleftrightarrow> calling ws = [] \<and> claiming ws = 0" for ws
    by (induction ws rule: calling.induct) auto
  have "calling ws = [] \<Longrightarrow> claiming ws = 0 \<Longrightarrow> returned ws = length ws" for ws
    by (induction ws rule: calling.induct) auto
  then show ?thesis
    using assms all [of "dr_workers s"] by (auto simp: all_returned_def drive_left_def drive_inv_def)
qed

lemma drive_progress:
  assumes "drive_inv n cnt s" "\<not> all_returned s"
  shows "\<exists>s'. drive_step cnt s s'"
proof -
  from assms(2) obtain k where k: "k < length (dr_workers s)" "dr_workers s ! k \<noteq> Returned"
    unfolding all_returned_def list_all_length by blast
  have "worker_step cnt k 0 s \<noteq> None"
    using k assms(1) by (auto simp: worker_step_def drive_inv_def Let_def split: worker.split)
  then show ?thesis using drive_step.intros by blast
qed

lemma drive_run_inv:
  assumes "(drive_step cnt ^^ k) (drive_init n cnt) s" "int n + int cnt < 2 ^ 63"
  shows "drive_inv n cnt s \<and> k + drive_left cnt s = 2 * cnt + n"
  using assms(1)
proof (induction k arbitrary: s)
  case 0
  then have "s = drive_init n cnt" by simp
  then show ?case by (simp add: drive_init_inv drive_left_init)
next
  case (Suc k)
  then obtain t where t: "(drive_step cnt ^^ k) (drive_init n cnt) t" "drive_step cnt t s" by auto
  with Suc.IH have inv: "drive_inv n cnt t" and left: "k + drive_left cnt t = 2 * cnt + n" by blast+
  have "drive_inv n cnt s" using drive_step_inv [OF inv t(2) assms(2)] .
  then show ?case using drive_left_step [OF inv _ t(2)] left by simp
qed

section \<open>What a run achieves\<close>

lemma drive_finished:
  assumes "drive_inv n cnt s" "all_returned s" "0 < n"
  shows "mset (map fst (dr_log s)) = mset (map int [0..<cnt]) \<and> length (dr_lat s) = cnt \<and>
     (\<forall>(i, d)\<in>set (dr_log s). dr_lat s ! nat i = d)"
proof -
  have "drive_left cnt s = 0" using all_returned_left [OF assms(1,3)] assms(2) by simp
  then have "calling (dr_workers s) = []" "cnt \<le> length (claimed s)" by (simp_all add: drive_left_def)
  moreover have "length (claimed s) \<le> cnt" using assms(1) by (simp add: drive_inv_def)
  ultimately show ?thesis using assms(1) by (simp add: drive_inv_def claimed_def)
qed

section \<open>Schedules\<close>

text \<open>A schedule names, step by step, the worker that moves and what a call returns.\<close>

fun run_schedule :: "nat \<Rightarrow> (nat \<times> duration) list \<Rightarrow> drive_state \<Rightarrow> drive_state option" where
  "run_schedule cnt [] s = Some s"
| "run_schedule cnt ((k, d) # ks) s =
     (case worker_step cnt k d s of None \<Rightarrow> None | Some s1 \<Rightarrow> run_schedule cnt ks s1)"

lemma run_schedule_steps: "run_schedule cnt ks s = Some s' \<Longrightarrow> (drive_step cnt ^^ length ks) s s'"
proof (induction ks arbitrary: s)
  case (Cons x ks)
  obtain k d where x: "x = (k, d)" by (cases x)
  with Cons.prems obtain s1 where s1: "worker_step cnt k d s = Some s1" "run_schedule cnt ks s1 = Some s'"
    by (auto split: option.splits)
  then have "drive_step cnt s s1" by (auto intro: drive_step.intros)
  from relpowp_Suc_I2 [OF this Cons.IH [OF s1(2)]] show ?case by simp
qed simp

definition sample_schedule :: "(nat \<times> duration) list" where
  "sample_schedule = [(0, 0), (1, 0), (1, 7), (0, 9), (0, 0), (1, 0)]"

lemma sample_schedule_run:
  "run_schedule 2 sample_schedule (drive_init 2 2) =
     Some \<lparr>dr_idx = 3, dr_lat = [9, 7], dr_workers = [Returned, Returned], dr_log = [(1, 7), (0, 9)], dr_panic = False\<rparr>"
  by (simp add: sample_schedule_def drive_init_def worker_step_def numeral_2_eq_2)

section \<open>Properties\<close>

text \<open>
  C38: The driver always ends, and does its work. However the workers interleave, after \<open>k\<close> steps
  exactly \<open>2 * cnt + n - k\<close> are left and until then some worker can move; no index leaves the slice;
  and when all workers have returned every index from 0 to the requested number has been called
  exactly once and the slice holds for each index the latency its own call returned.
\<close>

theorem drive_correct:
  assumes "0 < n" and "int n + int cnt < 2 ^ 63" and "(drive_step cnt ^^ k) (drive_init n cnt) s"
  shows "k \<le> 2 * cnt + n \<and> (all_returned s \<longleftrightarrow> k = 2 * cnt + n) \<and>
     (\<not> all_returned s \<longrightarrow> (\<exists>s'. drive_step cnt s s')) \<and> \<not> dr_panic s \<and>
     (all_returned s \<longrightarrow> mset (map fst (dr_log s)) = mset (map int [0..<cnt]) \<and> length (dr_lat s) = cnt \<and>
        (\<forall>(i, d)\<in>set (dr_log s). dr_lat s ! nat i = d))"
proof -
  have inv: "drive_inv n cnt s" and left: "k + drive_left cnt s = 2 * cnt + n" using drive_run_inv [OF assms(3,2)] by simp_all
  have "all_returned s \<longleftrightarrow> k = 2 * cnt + n" using all_returned_left [OF inv assms(1)] left by auto
  moreover have "\<not> dr_panic s" using inv by (simp add: drive_inv_def)
  ultimately show ?thesis using left drive_progress [OF inv] drive_finished [OF inv _ assms(1)] by auto
qed

theorem drive_correct_witness:
  "\<exists>s. (drive_step 2 ^^ 6) (drive_init 2 2) s \<and> all_returned s \<and> mset (map fst (dr_log s)) = mset (map int [0..<2]) \<and>
     dr_lat s = [9, 7]"
proof -
  let ?s = "\<lparr>dr_idx = 3, dr_lat = [9, 7], dr_workers = [Returned, Returned], dr_log = [(1, 7), (0, 9)], dr_panic = False\<rparr>"
  have "length sample_schedule = 6" by (simp add: sample_schedule_def)
  then have "(drive_step 2 ^^ 6) (drive_init 2 2) ?s"
    using run_schedule_steps [OF sample_schedule_run] by metis
  then show ?thesis using drive_correct [of 2 2 6 ?s] by auto
qed

end
