(* ===== verification/Amqp_Session.thy ===== *)
theory Amqp_Session
  imports Notifier Reply_Consumer
begin

text \<open>
  The AMQP sessions: \<open>NewBrokerPublisher\<close> (\<open>internal/notification/broker_publisher.go\<close>), the
  topology and the \<open>Run\<close> function of the notifier's consumer (\<open>cmd/notifier/consumer.go\<close>) and of
  the reply consumer (\<open>internal/orchestrator/reply_consumer.go\<close>), and the loop in \<open>main.go\<close>
  that restarts the latter. How the broker routes is not part of the repository: it is a
  parameter, with the laws the RabbitMQ documentation gives for direct and fanout exchanges
  and for dead-lettering.
\<close>

section \<open>Sequences of calls\<close>

text \<open>\<open>if err := call; err != nil { return fmt.Errorf(msg, err) }\<close>, and a deferred close.\<close>

definition try_call :: "env \<Rightarrow> setup_call \<Rightarrow> string \<Rightarrow> (world, 'a) act \<Rightarrow> (world, 'a) act" where
  "try_call E c msg k w =
     (case do_setup E c w of
        (Inl e, w1) \<Rightarrow> (Inl (Errorf msg e), w1)
      | (Inr _, w1) \<Rightarrow> k w1)"

definition with_defer :: "env \<Rightarrow> setup_call \<Rightarrow> (world, 'a) act \<Rightarrow> (world, 'a) act" where
  "with_defer E c k w = (case k w of (r, w1) \<Rightarrow> (r, snd (do_setup E c w1)))"

text \<open>A failing call that is preceded by closing the connection.\<close>

definition or_close :: "env \<Rightarrow> (world, 'a) act \<Rightarrow> (world, 'a) act" where
  "or_close E k w =
     (case k w of
        (Inl e, w1) \<Rightarrow> (Inl e, snd (do_setup E ConnClose w1))
      | (Inr x, w1) \<Rightarrow> (Inr x, w1))"

section \<open>The publisher\<close>

definition declare_exchange :: "string \<Rightarrow> string \<Rightarrow> setup_call" where
  "declare_exchange name kind = ExchangeDeclare name kind True False False False"

definition NewBrokerPublisher :: "env \<Rightarrow> string \<Rightarrow> (world, unit) act" where
  "NewBrokerPublisher E url =
     try_call E (AmqpDial url) ''dial rabbitmq''
       (or_close E
         (try_call E AmqpChannel ''open channel''
           (try_call E (declare_exchange ExchangeName ''direct'') ''declare exchange''
             (\<lambda>w. (Inr (), w)))))"

section \<open>The notifier's consumer\<close>

definition queueName :: string where "queueName = ''notifications''"
definition dlxName :: string where "dlxName = ''notifications.dlx''"
definition dlqName :: string where "dlqName = ''notifications.dlq''"

fun bind_keys :: "env \<Rightarrow> string list \<Rightarrow> (world, unit) act \<Rightarrow> (world, unit) act" where
  "bind_keys E [] k = k"
| "bind_keys E (key # keys) k =
     try_call E (QueueBind queueName key ExchangeName False) (''bind queue '' @ key) (bind_keys E keys k)"

definition notifier_declareTopology :: "env \<Rightarrow> (world, unit) act" where
  "notifier_declareTopology E =
     try_call E (declare_exchange ExchangeName ''direct'') ''declare exchange''
      (try_call E (declare_exchange dlxName ''fanout'') ''declare dlx''
       (try_call E (QueueDeclare dlqName True False False False []) ''declare dlq''
        (try_call E (QueueBind dlqName [] dlxName False) ''bind dlq''
         (try_call E (QueueDeclare queueName True False False False [(''x-dead-letter-exchange'', dlxName)])
            ''declare queue''
          (bind_keys E [RoutingConfirm, RoutingRelease]
            (do_setup E (Qos 10 0 False)))))))"

definition Consumer_Run :: "env \<Rightarrow> Consumer \<Rightarrow> string \<Rightarrow> consumed list \<Rightarrow> (world, unit) act" where
  "Consumer_Run E c url ds =
     try_call E (AmqpDial url) ''dial rabbitmq''
      (with_defer E ConnClose
       (try_call E AmqpChannel ''open channel''
        (with_defer E ChannelClose
         (\<lambda>w. case notifier_declareTopology E w of
            (Inl e, w1) \<Rightarrow> (Inl e, w1)
          | (Inr _, w1) \<Rightarrow>
              try_call E (Consume queueName [] False False False False) ''consume'' (consume_loop E c ds) w1))))"

section \<open>The reply consumer\<close>

definition replyQueueName :: string where "replyQueueName = ''saga.replies''"

definition reply_declareTopology :: "env \<Rightarrow> (world, unit) act" where
  "reply_declareTopology E =
     try_call E (declare_exchange ExchangeName ''direct'') ''declare exchange''
      (try_call E (QueueDeclare replyQueueName True False False False []) ''declare reply queue''
       (try_call E (QueueBind replyQueueName RoutingSagaReply ExchangeName False) ''bind reply queue''
         (do_setup E (Qos 10 0 False))))"

definition ReplyConsumer_Run ::
  "env \<Rightarrow> (nat \<Rightarrow> (world, unit) act) \<Rightarrow> string \<Rightarrow> json received list \<Rightarrow> (world, unit) act" where
  "ReplyConsumer_Run E mf url ds =
     try_call E (AmqpDial url) ''dial rabbitmq''
      (with_defer E ConnClose
       (try_call E AmqpChannel ''open channel''
        (with_defer E ChannelClose
         (\<lambda>w. case reply_declareTopology E w of
            (Inl e, w1) \<Rightarrow> (Inl e, w1)
          | (Inr _, w1) \<Rightarrow>
              try_call E (Consume replyQueueName [] False False False False) ''consume'' (reply_loop E mf ds) w1))))"

text \<open>
  The goroutine of \<open>main.go\<close> around it: run, then wait five seconds or stop. The list gives what
  each session receives; the loop ends when the context is done.
\<close>

fun reply_supervisor ::
  "env \<Rightarrow> (nat \<Rightarrow> (world, unit) act) \<Rightarrow> string \<Rightarrow> json received list list \<Rightarrow> world \<Rightarrow> world" where
  "reply_supervisor E mf url [] w = w"
| "reply_supervisor E mf url (ds # dss) w =
     (case backoff_or_done E (5 * time_Second) (snd (ReplyConsumer_Run E mf url ds w)) of
        (True, w1) \<Rightarrow> w1
      | (False, w1) \<Rightarrow> reply_supervisor E mf url dss w1)"

section \<open>What a session declares\<close>

lemma do_setup_simps [simp]:
  "db (snd (do_setup E c w)) = db w" "metrics (snd (do_setup E c w)) = metrics w"
  "\<exists>ok. hist (snd (do_setup E c w)) = Setup c ok # hist w"
  by (auto simp: do_setup_def split: option.split)

lemma do_setup_Inr: "do_setup E c w = (Inr x, w') \<Longrightarrow> w' = logged (Setup c True) w"
  by (simp add: do_setup_def split: option.splits)

lemma try_call_Inr:
  assumes "try_call E c msg k w = (Inr x, w')"
  shows "k (logged (Setup c True) w) = (Inr x, w')"
  using assms by (auto simp: try_call_def dest: do_setup_Inr split: sum.splits prod.splits)

definition declared :: "history \<Rightarrow> setup_call set" where
  "declared h = {c. Setup c True \<in> set h}"

lemma declared_Cons [simp]: "declared (Setup c True # h) = insert c (declared h)"
  by (auto simp: declared_def)

lemma notifier_declareTopology_Inr:
  assumes "notifier_declareTopology E w = (Inr x, w')"
  shows "declared (hist w') = declared (hist w) \<union>
     {declare_exchange ExchangeName ''direct'', declare_exchange dlxName ''fanout'',
      QueueDeclare dlqName True False False False [], QueueBind dlqName [] dlxName False,
      QueueDeclare queueName True False False False [(''x-dead-letter-exchange'', dlxName)],
      QueueBind queueName RoutingConfirm ExchangeName False, QueueBind queueName RoutingRelease ExchangeName False,
      Qos 10 0 False}"
  using assms unfolding notifier_declareTopology_def
  by (auto dest!: try_call_Inr do_setup_Inr)

lemma reply_declareTopology_Inr:
  assumes "reply_declareTopology E w = (Inr x, w')"
  shows "declared (hist w') = declared (hist w) \<union>
     {declare_exchange ExchangeName ''direct'', QueueDeclare replyQueueName True False False False [],
      QueueBind replyQueueName RoutingSagaReply ExchangeName False, Qos 10 0 False}"
  using assms unfolding reply_declareTopology_def
  by (auto dest!: try_call_Inr do_setup_Inr)

section \<open>Routing\<close>

text \<open>
  \<open>routes D x k\<close>: the queues that receive a message published to exchange \<open>x\<close> with routing key \<open>k\<close>
  once the declarations \<open>D\<close> are in force. \<open>dead_letters D q\<close>: the exchange a message rejected from
  the queue \<open>q\<close> is published to again, with the routing key it had.
\<close>

definition amqp_routing ::
  "(setup_call list \<Rightarrow> string \<Rightarrow> string \<Rightarrow> string set) \<Rightarrow> (setup_call list \<Rightarrow> string \<Rightarrow> string option) \<Rightarrow> bool" where
  "amqp_routing routes dead_letters \<longleftrightarrow>
     (\<forall>D x k q k' du ad it nw qd qa qe qn args bn.
        (ExchangeDeclare x ''direct'' du ad it nw \<in> set D \<and> QueueDeclare q qd qa qe qn args \<in> set D \<and>
           QueueBind q k x bn \<in> set D \<longrightarrow> q \<in> routes D x k) \<and>
        (ExchangeDeclare x ''fanout'' du ad it nw \<in> set D \<and> QueueDeclare q qd qa qe qn args \<in> set D \<and>
           QueueBind q k' x bn \<in> set D \<longrightarrow> q \<in> routes D x k) \<and>
        (QueueDeclare q qd qa qe qn args \<in> set D \<and> (''x-dead-letter-exchange'', x) \<in> set args \<and>
           (\<forall>qd' qa' qe' qn' args'. QueueDeclare q qd' qa' qe' qn' args' \<in> set D \<longrightarrow> args' = args) \<and> distinct (map fst args) \<longrightarrow>
           dead_letters D q = Some x))"

lemma amqp_routingD:
  assumes "amqp_routing routes dead_letters"
  shows "ExchangeDeclare x ''direct'' du ad it nw \<in> set D \<Longrightarrow> QueueDeclare q qd qa qe qn args \<in> set D \<Longrightarrow>
      QueueBind q k x bn \<in> set D \<Longrightarrow> q \<in> routes D x k"
    and "ExchangeDeclare x ''fanout'' du ad it nw \<in> set D \<Longrightarrow> QueueDeclare q qd qa qe qn args \<in> set D \<Longrightarrow>
      QueueBind q k' x bn \<in> set D \<Longrightarrow> q \<in> routes D x k"
    and "QueueDeclare q qd qa qe qn args \<in> set D \<Longrightarrow> (''x-dead-letter-exchange'', x) \<in> set args \<Longrightarrow>
      (\<And>qd' qa' qe' qn' args'. QueueDeclare q qd' qa' qe' qn' args' \<in> set D \<Longrightarrow> args' = args) \<Longrightarrow>
      distinct (map fst args) \<Longrightarrow> dead_letters D q = Some x"
  using assms unfolding amqp_routing_def by blast+

text \<open>The declarations of the two consumers, and nothing else of the same queues.\<close>

definition only_declared :: "setup_call list \<Rightarrow> bool" where
  "only_declared D \<longleftrightarrow> (\<forall>qd qa qe qn args. QueueDeclare queueName qd qa qe qn args \<in> set D \<longrightarrow>
     args = [(''x-dead-letter-exchange'', dlxName)])"

lemma commands_routed:
  assumes br: "amqp_routing routes dead_letters"
    and run: "notifier_declareTopology E w = (Inr u, w')" "declared (hist w') \<subseteq> set D" "only_declared D"
    and k: "k \<in> {RoutingConfirm, RoutingRelease}"
  shows "queueName \<in> routes D ExchangeName k"
    and "\<exists>x. dead_letters D queueName = Some x \<and> dlqName \<in> routes D x k"
proof -
  have D: "declare_exchange ExchangeName ''direct'' \<in> set D" "declare_exchange dlxName ''fanout'' \<in> set D"
    "QueueDeclare dlqName True False False False [] \<in> set D" "QueueBind dlqName [] dlxName False \<in> set D"
    "QueueDeclare queueName True False False False [(''x-dead-letter-exchange'', dlxName)] \<in> set D"
    "QueueBind queueName k ExchangeName False \<in> set D"
    using notifier_declareTopology_Inr [OF run(1)] run(2) k by auto
  show "queueName \<in> routes D ExchangeName k"
    using amqp_routingD(1) [OF br D(1) [unfolded declare_exchange_def] D(5,6)] .
  show "\<exists>x. dead_letters D queueName = Some x \<and> dlqName \<in> routes D x k"
    using amqp_routingD(3) [OF br D(5), of dlxName] run(3) amqp_routingD(2) [OF br D(2) [unfolded declare_exchange_def] D(3,4)]
    by (auto simp: only_declared_def)
qed

lemma replies_routed:
  assumes br: "amqp_routing routes dead_letters" and run: "reply_declareTopology E w = (Inr u, w')" "declared (hist w') \<subseteq> set D"
  shows "replyQueueName \<in> routes D ExchangeName RoutingSagaReply"
proof -
  have D: "declare_exchange ExchangeName ''direct'' \<in> set D" "QueueDeclare replyQueueName True False False False [] \<in> set D"
    "QueueBind replyQueueName RoutingSagaReply ExchangeName False \<in> set D"
    using reply_declareTopology_Inr [OF run(1)] run(2) by auto
  show ?thesis using amqp_routingD(1) [OF br D(1) [unfolded declare_exchange_def] D(2,3)] .
qed

text \<open>A broker that behaves so.\<close>

fun queue_args :: "setup_call \<Rightarrow> (string \<times> (string \<times> string) list) option" where
  "queue_args (QueueDeclare q qd qa qe qn args) = Some (q, args)"
| "queue_args _ = None"

definition dlx_of :: "setup_call list \<Rightarrow> string \<Rightarrow> string option" where
  "dlx_of D q =
     (case map_of (List.map_filter queue_args D) q of
        None \<Rightarrow> None
      | Some args \<Rightarrow> map_of args ''x-dead-letter-exchange'')"

definition routes_of :: "setup_call list \<Rightarrow> string \<Rightarrow> string \<Rightarrow> string set" where
  "routes_of D x k = {q. \<exists>k' bn. QueueBind q k' x bn \<in> set D \<and>
     (k' = k \<or> (\<exists>du ad it nw. ExchangeDeclare x ''fanout'' du ad it nw \<in> set D))}"

lemma in_queue_args:
  "(q, args) \<in> set (List.map_filter queue_args D) \<longleftrightarrow> (\<exists>qd qa qe qn. QueueDeclare q qd qa qe qn args \<in> set D)"
proof -
  have "queue_args c = Some (q, args) \<longleftrightarrow> (\<exists>qd qa qe qn. c = QueueDeclare q qd qa qe qn args)" for c
    by (cases c) simp_all
  then show ?thesis by (force simp: map_filter_def)
qed

lemma dlx_of_declared:
  assumes "QueueDeclare q qd qa qe qn args \<in> set D"
    and "\<forall>qd' qa' qe' qn' args'. QueueDeclare q qd' qa' qe' qn' args' \<in> set D \<longrightarrow> args' = args"
  shows "dlx_of D q = map_of args ''x-dead-letter-exchange''"
proof -
  let ?ps = "List.map_filter queue_args D"
  have "(q, args) \<in> set ?ps" using assms(1) in_queue_args by blast
  then obtain a where a: "map_of ?ps q = Some a" by (metis weak_map_of_SomeI)
  then have "a = args" using map_of_SomeD [OF a] in_queue_args assms(2) by blast
  then show ?thesis using a by (simp add: dlx_of_def)
qed

lemma routes_of_routing: "amqp_routing routes_of dlx_of"
  unfolding amqp_routing_def
proof (intro allI conjI impI)
  fix D x k q k' du ad it nw qd qa qe qn args bn
  assume "ExchangeDeclare x ''direct'' du ad it nw \<in> set D \<and> QueueDeclare q qd qa qe qn args \<in> set D \<and>
    QueueBind q k x bn \<in> set D"
  then show "q \<in> routes_of D x k" by (auto simp: routes_of_def)
next
  fix D x k q k' du ad it nw qd qa qe qn args bn
  assume "ExchangeDeclare x ''fanout'' du ad it nw \<in> set D \<and> QueueDeclare q qd qa qe qn args \<in> set D \<and>
    QueueBind q k' x bn \<in> set D"
  then show "q \<in> routes_of D x k" by (auto simp: routes_of_def)
next
  fix D x q qd qa qe qn args
  assume "QueueDeclare q qd qa qe qn args \<in> set D \<and> (''x-dead-letter-exchange'', x) \<in> set args \<and>
    (\<forall>qd' qa' qe' qn' args'. QueueDeclare q qd' qa' qe' qn' args' \<in> set D \<longrightarrow> args' = args) \<and> distinct (map fst args)"
  then show "dlx_of D q = Some x" using dlx_of_declared [of q qd qa qe qn args D] by simp
qed

section \<open>How a session ends\<close>

lemma with_defer_last: "\<exists>ok h. hist (snd (with_defer E c k w)) = Setup c ok # h"
  by (cases "k w") (auto simp: with_defer_def do_setup_def split: option.split)

lemma try_call_cases:
  assumes "try_call E c msg k w = (r, w')"
  obtains (failed) m where "r = Inl (Errorf msg (ErrorString m))" "w' = logged (Setup c False) w"
  | (passed) "k (logged (Setup c True) w) = (r, w')"
  using assms by (auto simp: try_call_def do_setup_def split: option.splits)

text \<open>A session that got a connection closes it last, whatever happened in between.\<close>

lemma dialled_session_last:
  assumes "try_call E (AmqpDial url) msg (with_defer E ConnClose k) w = (r, w')"
  shows "(w' = logged (Setup (AmqpDial url) False) w \<and> (\<exists>e. r = Inl (Errorf msg e))) \<or>
     (\<exists>ok h. hist w' = Setup ConnClose ok # h)"
  using assms
proof (cases rule: try_call_cases)
  case passed
  then show ?thesis using with_defer_last [of E ConnClose k "logged (Setup (AmqpDial url) True) w"] by simp
qed simp

lemma NewBrokerPublisher_result:
  assumes "NewBrokerPublisher E url w = (r, w')"
  shows "db w' = db w \<and>
     (case r of
        Inr _ \<Rightarrow> hist w' = map (\<lambda>c. Setup c True)
            [declare_exchange ExchangeName ''direct'', AmqpChannel, AmqpDial url] @ hist w
      | Inl e \<Rightarrow> infra e \<and>
          (w' = logged (Setup (AmqpDial url) False) w \<or> (\<exists>ok h. hist w' = Setup ConnClose ok # h)))"
  using assms
  by (auto simp: NewBrokerPublisher_def try_call_def or_close_def do_setup_def
      split: option.splits sum.splits prod.splits)

end
