(* ===== verification/System_Loops.thy ===== *)
theory System_Loops
  imports Saga_System Amqp_Session
begin

text \<open>
  The loops the processes really run (tickers, consume loops, the supervised reply consumer) change the
  database only by steps of the step relation, whatever their channels yield and whatever fails: what
  holds of every reachable state therefore holds while one of them runs. What the loops do besides, their
  rounds, settlements and restarts, is stated in \<open>Config\<close> (\<open>rounds\<close>) and \<open>Sessions\<close>.
\<close>

section \<open>One step after another\<close>

lemma reaches_outside: "db w' = db w \<Longrightarrow> reaches E D w w'"
  by (intro sys_step_reaches sys_step.outside)

lemma reaches_trans [trans]: "reaches E D w v \<Longrightarrow> reaches E D v u \<Longrightarrow> reaches E D w u"
  by (rule rtranclp_trans)

lemma ticker_loop_reaches:
  assumes "\<And>v. reaches E D v (job v)"
  shows "reaches E D w (snd (ticker_loop job ts w))"
proof (induction ts arbitrary: w)
  case (Cons t ts)
  then show ?case using assms by (cases t) (auto intro: reaches_trans)
qed simp

lemma ticker_run_reaches:
  assumes "\<And>v. reaches E D v (job v)"
  shows "reaches E D w (snd (ticker_run job i ts w))"
  using reaches_trans [OF assms ticker_loop_reaches [OF assms]] assms by (simp add: ticker_run_def)

section \<open>The tickers\<close>

lemma Relay_Run_reaches: "reaches E D w (snd (Relay_Run (main_relay E i) ts w))"
  unfolding Relay_Run_def by (rule ticker_run_reaches) (rule sys_step_reaches [OF sys_step.relay])

lemma Sweeper_Run_reaches: "reaches E D w (snd (Sweeper_Run E (MarkFailed E) i (dep_stale D) ts w))"
  unfolding Sweeper_Run_def
proof (rule ticker_run_reaches)
  show "reaches E D v (snd (Sweep E (MarkFailed E) (dep_stale D) v))" for v
    by (rule sys_step_reaches, rule sys_step.sweep, rule prod.collapse [symmetric])
qed

lemma Scanner_Start_reaches:
  "reaches E D w (snd (Scanner_Start
     (main_scanner E (dep_transport D) (dep_client D) (dep_cache D) (dep_base D) i) ts w))"
  unfolding Scanner_Start_def by (rule ticker_run_reaches) (rule sys_step_reaches [OF sys_step.release])

section \<open>The consumers\<close>

lemma reply_loop_reaches: "reaches E D w (snd (reply_loop E (MarkFailed E) ds w))"
proof (induction ds arbitrary: w)
  case (Cons d ds)
  show ?case
  proof (cases d)
    case (Delivery body)
    obtain r w1 where h: "handleWithRetry E (MarkFailed E) body w = (r, w1)"
      by (cases "handleWithRetry E (MarkFailed E) body w")
    have "reaches E D w w1" using sys_step_reaches [OF sys_step.reply [OF h]] .
    also have "reaches E D w1 (logged (Settled b) w1)" for b by (simp add: reaches_outside)
    finally have "reaches E D w (logged (Settled b) w1)" for b .
    then show ?thesis using Delivery h Cons.IH by (cases r) (auto intro: reaches_trans)
  qed simp_all
qed simp

lemma consume_loop_reaches: "reaches E D w (snd (consume_loop E (NewConsumer s (redisDeduper E t)) ds w))"
proof (induction ds arbitrary: w)
  case (Cons d ds)
  let ?c = "NewConsumer s (redisDeduper E t)"
  show ?case
  proof (cases d)
    case (Deliver m)
    obtain r w1 where h: "handle E ?c m w = (r, w1)" by (cases "handle E ?c m w")
    have "reaches E D w w1" using sys_step_reaches [OF sys_step.notify [OF h]] .
    also have "reaches E D w1 (logged (Settled b) w1)" for b by (simp add: reaches_outside)
    finally have "reaches E D w (logged (Settled b) w1)" for b .
    then show ?thesis using Deliver h Cons.IH by (cases r) (auto intro: reaches_trans)
  qed simp_all
qed simp

lemma try_call_reaches:
  assumes "\<And>v. reaches E D v (snd (k v))"
  shows "reaches E D w (snd (try_call E c msg k w))"
proof -
  have "reaches E D w (logged (Setup c b) w)" for b by (simp add: reaches_outside)
  then show ?thesis
    using assms [of "logged (Setup c True) w"] reaches_trans [of E D w "logged (Setup c True) w"]
    by (auto simp: try_call_def do_setup_def split: option.split)
qed

lemma with_defer_reaches:
  assumes "reaches E D w (snd (k w))"
  shows "reaches E D w (snd (with_defer E c k w))"
proof -
  obtain r v where k: "k w = (r, v)" by (cases "k w")
  have "reaches E D v (snd (do_setup E c v))" by (simp add: reaches_outside)
  then show ?thesis using assms k by (auto simp: with_defer_def intro: reaches_trans)
qed

lemma topology_db:
  "db (snd (reply_declareTopology E w)) = db w" "db (snd (notifier_declareTopology E w)) = db w"
  by (auto simp: reply_declareTopology_def notifier_declareTopology_def try_call_def do_setup_def split: option.split)

lemma ReplyConsumer_Run_reaches: "reaches E D w (snd (ReplyConsumer_Run E (MarkFailed E) url ds w))"
  unfolding ReplyConsumer_Run_def
proof (intro try_call_reaches with_defer_reaches)
  fix v
  have t: "reaches E D v (snd (reply_declareTopology E v))" by (simp add: reaches_outside topology_db)
  have "reaches E D u (snd (try_call E c msg (reply_loop E (MarkFailed E) ds) u))" for u c msg
    by (rule try_call_reaches) (rule reply_loop_reaches)
  with t show "reaches E D v (snd (case reply_declareTopology E v of
        (Inl e, w1) \<Rightarrow> (Inl e, w1)
      | (Inr x, w1) \<Rightarrow> try_call E (Consume replyQueueName [] False False False False) ''consume''
          (reply_loop E (MarkFailed E) ds) w1))"
    by (auto split: prod.split sum.split intro: reaches_trans)
qed

lemma Consumer_Run_reaches: "reaches E D w (snd (Consumer_Run E (NewConsumer s (redisDeduper E t)) url ds w))"
  unfolding Consumer_Run_def
proof (intro try_call_reaches with_defer_reaches)
  fix v
  let ?loop = "consume_loop E (NewConsumer s (redisDeduper E t)) ds"
  have t: "reaches E D v (snd (notifier_declareTopology E v))" by (simp add: reaches_outside topology_db)
  have "reaches E D u (snd (try_call E c msg ?loop u))" for u c msg
    by (rule try_call_reaches) (rule consume_loop_reaches)
  with t show "reaches E D v (snd (case notifier_declareTopology E v of
        (Inl e, w1) \<Rightarrow> (Inl e, w1)
      | (Inr x, w1) \<Rightarrow> try_call E (Consume queueName [] False False False False) ''consume'' ?loop w1))"
    by (auto split: prod.split sum.split intro: reaches_trans)
qed

lemma reply_supervisor_reaches: "reaches E D w (reply_supervisor E (MarkFailed E) url dss w)"
proof (induction dss arbitrary: w)
  case (Cons ds dss)
  let ?w1 = "snd (ReplyConsumer_Run E (MarkFailed E) url ds w)"
  obtain b w2 where b: "backoff_or_done E (5 * time_Second) ?w1 = (b, w2)"
    by (cases "backoff_or_done E (5 * time_Second) ?w1")
  have "db w2 = db ?w1" using backoff_or_done_db [of E "5 * time_Second" ?w1] b by simp
  then have "reaches E D w w2" using reaches_trans [OF ReplyConsumer_Run_reaches reaches_outside] by blast
  then show ?case using Cons.IH [of w2] b by (cases b) (auto intro: reaches_trans)
qed simp

end
