(* ===== verification/Sessions.thy ===== *)
theory Sessions
  imports Amqp_Session Saga_System
begin

text \<open>
  The sessions of the two AMQP consumers (\<open>Consumer.Run\<close> of \<open>cmd/notifier\<close>, \<open>ReplyConsumer.Run\<close> of
  \<open>internal/orchestrator\<close>) as a whole: what may be acknowledged and what is rejected, that every
  delivery is settled once and in order, and how a session ends.
\<close>

section \<open>Settlements\<close>

text \<open>The acknowledgements (true) and rejections (false) of a history, newest first.\<close>

definition settlements :: "history \<Rightarrow> bool list" where
  "settlements h = List.map_filter (\<lambda>e. case e of Settled b \<Rightarrow> Some b | _ \<Rightarrow> None) h"

lemma settlements_simps [simp]:
  "settlements [] = []"
  "settlements (Settled b # h) = b # settlements h"
  "(\<And>b. e \<noteq> Settled b) \<Longrightarrow> settlements (e # h) = settlements h"
  by (auto simp: settlements_def map_filter_simps split: io_event.split)

text \<open>
  The deliveries \<open>ds\<close> are settled one after the other from \<open>w\<close> to \<open>w'\<close>: each is handled, as \<open>P\<close> says,
  without any settlement, then settled.
\<close>

inductive settles :: "('d \<Rightarrow> bool \<Rightarrow> world \<Rightarrow> world \<Rightarrow> bool) \<Rightarrow> 'd list \<Rightarrow> world \<Rightarrow> world \<Rightarrow> bool" for P where
  none_left: "settles P [] w w"
| one_more: "P d b w w1 \<Longrightarrow> settlements (hist w1) = settlements (hist w) \<Longrightarrow>
     settles P ds (logged (Settled b) w1) w2 \<Longrightarrow> settles P (d # ds) w w2"

inductive_cases settles_ConsE: "settles P (d # ds) w w'"

lemma settles_once:
  "settles P ds w w' \<Longrightarrow> \<exists>bs. settlements (hist w') = bs @ settlements (hist w) \<and> length bs = length ds"
proof (induction rule: settles.induct)
  case (one_more d b w w1 ds w2)
  then obtain bs where "settlements (hist w2) = bs @ b # settlements (hist w)" "length bs = length ds" by auto
  then show ?case by (intro exI [of _ "bs @ [b]"]) simp
qed simp

section \<open>The frame of a session\<close>

lemma setup_settlements [simp]:
  "settlements (hist (snd (do_setup E c w))) = settlements (hist w)"
  by (simp add: do_setup_def split: option.split)

text \<open>
  A session either ends before the first delivery, with an error, or runs its loop and closes the
  channel and then the connection.
\<close>

lemma session_cases:
  assumes run: "try_call E (AmqpDial url) m1 (with_defer E ConnClose (try_call E AmqpChannel m2 (with_defer E ChannelClose
       (\<lambda>w. case topo w of (Inl e, w1) \<Rightarrow> (Inl e, w1) | (Inr _, w1) \<Rightarrow> try_call E c m3 loop w1)))) w = (r, w')"
    and topo: "\<And>v. db (snd (topo v)) = db v \<and> settlements (hist (snd (topo v))) = settlements (hist v)"
  obtains (failed) e where "r = Inl e" "db w' = db w" "settlements (hist w') = settlements (hist w)"
  | (looped) w1 w2 a b where "loop w1 = (r, w2)" "db w1 = db w" "settlements (hist w1) = settlements (hist w)"
      "hist w' = Setup ConnClose a # Setup ChannelClose b # hist w2" "db w' = db w2"
proof -
  let ?body = "\<lambda>w. case topo w of (Inl e, w1) \<Rightarrow> (Inl e, w1) | (Inr x, w1) \<Rightarrow> try_call E c m3 loop w1"
  let ?inner = "try_call E AmqpChannel m2 (with_defer E ChannelClose ?body)"
  show thesis
    using run
  proof (cases rule: try_call_cases)
    case failed: (failed m)
    then show thesis by (intro that(1) [of "Errorf m1 (ErrorString m)"]) simp_all
  next
    case passed
    let ?v = "logged (Setup (AmqpDial url) True) w"
    obtain q v1 where inner: "?inner ?v = (q, v1)" by (cases "?inner ?v")
    then have w': "q = r" "w' = snd (do_setup E ConnClose v1)" using passed by (auto simp: with_defer_def)
    obtain a where a: "hist w' = Setup ConnClose a # hist v1" "db w' = db v1" "settlements (hist w') = settlements (hist v1)"
      using do_setup_simps(3) [of E ConnClose v1] w'(2) by (elim exE) simp
    from inner show thesis
    proof (cases rule: try_call_cases)
      case failed: (failed m)
      then show thesis using w'(1) a by (intro that(1) [of "Errorf m2 (ErrorString m)"]) simp_all
    next
      case passed
      let ?u = "logged (Setup AmqpChannel True) ?v"
      obtain p u1 where body: "?body ?u = (p, u1)" by (cases "?body ?u")
      then have v1: "p = q" "v1 = snd (do_setup E ChannelClose u1)" using passed by (auto simp: with_defer_def)
      obtain b where b: "hist v1 = Setup ChannelClose b # hist u1" "db v1 = db u1" "settlements (hist v1) = settlements (hist u1)"
        using do_setup_simps(3) [of E ChannelClose u1] v1(2) by (elim exE) simp
      obtain t0 u2 where t: "topo ?u = (t0, u2)" by (cases "topo ?u")
      have u2: "db u2 = db w" "settlements (hist u2) = settlements (hist w)" using topo [of ?u] t by simp_all
      show thesis
      proof (cases t0)
        case (Inl e)
        then show thesis using body t w'(1) v1(1) a b u2 by (intro that(1) [of e]) auto
      next
        case (Inr x)
        then have "try_call E c m3 loop u2 = (p, u1)" using body t by simp
        then show thesis
        proof (cases rule: try_call_cases)
          case (failed m)
          then show thesis using w'(1) v1(1) a b u2 by (intro that(1) [of "Errorf m3 (ErrorString m)"]) simp_all
        next
          case passed
          then show thesis using w'(1) v1(1) a b u2 by (intro that(2) [of "logged (Setup c True) u2" u1 a b]) simp_all
        qed
      qed
    qed
  qed
qed

lemma topology_quiet:
  "db (snd (reply_declareTopology E w)) = db w \<and> settlements (hist (snd (reply_declareTopology E w))) = settlements (hist w)"
  "db (snd (notifier_declareTopology E w)) = db w \<and> settlements (hist (snd (notifier_declareTopology E w))) = settlements (hist w)"
  by (auto simp: reply_declareTopology_def notifier_declareTopology_def try_call_def do_setup_def split: option.split)

section \<open>The notifier\<close>

text \<open>
  What entitles the notifier to acknowledge a delivery: its mail was accepted or, for a command of a
  saga, the broker took the report of the failure.
\<close>

definition served :: "SMTPSender \<Rightarrow> delivery \<Rightarrow> io_event set \<Rightarrow> bool" where
  "served s d evs \<longleftrightarrow>
     (if d_RoutingKey d = RoutingConfirm
      then (case unmarshal_ConfirmationRequest (d_Body d) of
              Inl e \<Rightarrow> False
            | Inr req \<Rightarrow> SmtpSendMail (confirmation_mail s (cr_To req) (cr_ConfirmURL req)) True \<in> evs \<or>
                (cr_SagaID req \<noteq> [] \<and> AmqpPublish (saga_reply (cr_SagaID req) SagaStatusFailed) True \<in> evs))
      else if d_RoutingKey d = RoutingRelease
      then (case unmarshal_ReleaseRequest (d_Body d) of
              Inl e \<Rightarrow> False
            | Inr req \<Rightarrow> SmtpSendMail (release_mail s (rr_To req) (rr_Repo req) (rr_Tag req) (rr_UnsubscribeURL req)) True \<in> evs)
      else False)"

definition unsettled :: "io_event list \<Rightarrow> bool" where
  "unsettled evs \<longleftrightarrow> settlements evs = []"

lemma settlements_append: "settlements (a @ b) = settlements a @ settlements b"
  by (induction a) (auto simp: settlements_def map_filter_simps split: io_event.split)

lemma unsettled_simps [simp]:
  "unsettled []"
  "unsettled (a @ b) \<longleftrightarrow> unsettled a \<and> unsettled b"
  "(\<And>b. e \<noteq> Settled b) \<Longrightarrow> unsettled (e # h) = unsettled h"
  by (simp_all add: unsettled_def settlements_append)

lemma send_attempts_served:
  assumes "send_attempts E pause (SendMail E m) n w = (r, w')"
  shows "\<exists>evs. hist w' = evs @ hist w \<and> unsettled evs \<and> (\<forall>p ok. AmqpPublish p ok \<notin> set evs) \<and>
     (r = Inr () \<longleftrightarrow> SmtpSendMail m True \<in> set evs)"
  using assms
proof (induction n arbitrary: w)
  case 0
  then show ?case using SendMail_trace [of E m w r w'] by (intro exI [of _ "[SmtpSendMail m (r = Inr ())]"]) auto
next
  case (Suc n)
  obtain q w1 where s: "SendMail E m w = (q, w1)" by (cases "SendMail E m w")
  note s1 = SendMail_trace [OF s]
  show ?case
  proof (cases q)
    case (Inr x)
    then show ?thesis using Suc.prems s s1 by (intro exI [of _ "[SmtpSendMail m True]"]) auto
  next
    case (Inl e)
    obtain b w2 where bo: "backoff_or_done E pause w1 = (b, w2)" by (cases "backoff_or_done E pause w1")
    then obtain ev where ev: "hist w2 = ev # SmtpSendMail m False # hist w" "ev = CtxPoll \<or> ev = Wait pause"
      using s1 Inl by (auto simp: backoff_or_done_def split: if_splits)
    show ?thesis
    proof (cases b)
      case True
      then have "r = Inl (ErrorString ''context canceled'')" "w' = w2" using Suc.prems s Inl bo by auto
      then show ?thesis using ev by (intro exI [of _ "[ev, SmtpSendMail m False]"]) auto
    next
      case False
      then have "send_attempts E pause (SendMail E m) n w2 = (r, w')" using Suc.prems s Inl bo by auto
      from Suc.IH [OF this] ev show ?thesis
        by (elim exE conjE) (rule_tac x = "evs @ [ev, SmtpSendMail m False]" in exI, auto)
    qed
  qed
qed

lemma dispatch_served:
  assumes "dispatch E (NewConsumer s dd) d w = (r, w')"
  shows "\<exists>evs. hist w' = evs @ hist w \<and> unsettled evs \<and> (r = Inr () \<longleftrightarrow> served s d (set evs))"
proof -
  let ?c = "NewConsumer s dd"
  consider (bad) e where "r = Inl e" "w' = w" "\<not> served s d {}"
    | (confirm) req where "d_RoutingKey d = RoutingConfirm" "unmarshal_ConfirmationRequest (d_Body d) = Inr req"
        "dispatch_confirmation E ?c req w = (r, w')"
    | (release) req where "d_RoutingKey d = RoutingRelease" "d_RoutingKey d \<noteq> RoutingConfirm"
        "unmarshal_ReleaseRequest (d_Body d) = Inr req"
        "SendMail E (release_mail s (rr_To req) (rr_Repo req) (rr_Tag req) (rr_UnsubscribeURL req)) w = (r, w')"
    using assms
    by (auto simp: dispatch_def served_def smtp_SendReleaseNotification_def sendEmail_def NewConsumer_def
        split: if_splits sum.splits)
  then show ?thesis
  proof cases
    case bad
    then show ?thesis by (intro exI [of _ "[]"]) simp
  next
    case (release req)
    let ?m = "release_mail s (rr_To req) (rr_Repo req) (rr_Tag req) (rr_UnsubscribeURL req)"
    show ?thesis
      using SendMail_trace [OF release(4)] release(1-3)
      by (intro exI [of _ "[SmtpSendMail ?m (r = Inr ())]"]) (auto simp: served_def)
  next
    case (confirm req)
    let ?m = "confirmation_mail s (cr_To req) (cr_ConfirmURL req)"
    obtain q w1 where sw: "sendWithRetry E ?c (SendConfirmationEmail E s (cr_To req) (cr_ConfirmURL req)) w = (q, w1)"
      by (cases "sendWithRetry E ?c (SendConfirmationEmail E s (cr_To req) (cr_ConfirmURL req)) w")
    have "SendConfirmationEmail E s (cr_To req) (cr_ConfirmURL req) = SendMail E ?m"
      by (simp add: SendConfirmationEmail_def sendEmail_def fun_eq_iff)
    then have "send_attempts E (backoff ?c) (SendMail E ?m) 2 w = (q, w1)"
      using sw by (simp add: sendWithRetry_def NewConsumer_def)
    from send_attempts_served [OF this] obtain evs where evs: "hist w1 = evs @ hist w" "unsettled evs"
      "\<forall>p ok. AmqpPublish p ok \<notin> set evs" "q = Inr () \<longleftrightarrow> SmtpSendMail ?m True \<in> set evs" by blast
    let ?st = "case q of Inl _ \<Rightarrow> SagaStatusFailed | Inr _ \<Rightarrow> SagaStatusSent"
    have served: "served s d X \<longleftrightarrow> SmtpSendMail ?m True \<in> X \<or>
        (cr_SagaID req \<noteq> [] \<and> AmqpPublish (saga_reply (cr_SagaID req) SagaStatusFailed) True \<in> X)" for X
      using confirm(1,2) by (simp add: served_def)
    have c: "cons_sender ?c = s" by (simp add: NewConsumer_def)
    show ?thesis
    proof (cases "cr_SagaID req = []")
      case True
      then have "w' = w1" "r = Inr () \<longleftrightarrow> q = Inr ()"
        using confirm(3) sw by (auto simp: dispatch_confirmation_def c split: sum.splits)
      then show ?thesis using evs served True by (intro exI [of _ evs]) simp
    next
      case False
      obtain a w2 where rp: "ReplyConfirmation E (cr_SagaID req) ?st w1 = (a, w2)"
        by (cases "ReplyConfirmation E (cr_SagaID req) ?st w1")
      note r2 = PublishWithContext_trace [OF rp [unfolded ReplyConfirmation_def]]
      have "w' = w2" "r = Inr () \<longleftrightarrow> q = Inr () \<or> a = Inr ()"
        using confirm(3) False sw rp by (cases a; cases q; auto simp: dispatch_confirmation_def c)+
      then show ?thesis
        using evs served False r2
        by (intro exI [of _ "AmqpPublish (saga_reply (cr_SagaID req) ?st) (a = Inr ()) # evs"]) (cases q, auto)
    qed
  qed
qed

lemma served_insert [simp]:
  "served s d (insert (RedisSET k v t ok) X) = served s d X" "served s d (insert (RedisEXISTS k) X) = served s d X"
  by (simp_all add: served_def split: sum.split)

lemma process_served:
  assumes "process E (NewConsumer s (redisDeduper E t)) d w = (r, w')"
  shows "\<exists>evs. hist w' = evs @ hist w \<and> unsettled evs \<and> (r = Inr () \<longleftrightarrow> served s d (set evs))"
proof -
  let ?c = "NewConsumer s (redisDeduper E t)"
  obtain q w1 where d: "dispatch E ?c d w = (q, w1)" by (cases "dispatch E ?c d w")
  obtain evs where evs: "hist w1 = evs @ hist w" "unsettled evs" "q = Inr () \<longleftrightarrow> served s d (set evs)"
    using dispatch_served [OF d] by blast
  obtain ok where mk: "hist (snd (MarkProcessed (redisDeduper E t) i w1)) = RedisSET (dedupKey i) ''1'' t (ok i) # hist w1" for i
    using that [of "\<lambda>i. redis_SET E (hist w1) (dedupKey i) ''1'' = None"]
    by (fastforce simp: redisDeduper_def redis_MarkProcessed_def split: option.split)
  have c: "cons_dedup ?c = redisDeduper E t" by (simp add: NewConsumer_def)
  show ?thesis
  proof (cases "q = Inr () \<and> d_MessageId d \<noteq> []")
    case True
    then have "hist w' = RedisSET (dedupKey (d_MessageId d)) ''1'' t (ok (d_MessageId d)) # hist w1" "r = Inr ()"
      using assms d mk by (auto simp: process_def c)
    then show ?thesis
      using evs True by (intro exI [of _ "RedisSET (dedupKey (d_MessageId d)) ''1'' t (ok (d_MessageId d)) # evs"]) simp
  next
    case False
    then have "w' = w1" "r = Inr () \<longleftrightarrow> q = Inr ()" using assms d by (auto simp: process_def split: sum.splits)
    then show ?thesis using evs by (intro exI [of _ evs]) simp
  qed
qed

text \<open>A delivery may be acknowledged: Redis says it was processed, or it was served now.\<close>

definition entitled :: "env \<Rightarrow> SMTPSender \<Rightarrow> delivery \<Rightarrow> history \<Rightarrow> io_event set \<Rightarrow> bool" where
  "entitled E s d h evs \<longleftrightarrow> (d_MessageId d \<noteq> [] \<and> redis_seen E h (d_MessageId d)) \<or> served s d evs"

definition answered :: "env \<Rightarrow> SMTPSender \<Rightarrow> delivery \<Rightarrow> bool \<Rightarrow> world \<Rightarrow> world \<Rightarrow> bool" where
  "answered E s d b w w' \<longleftrightarrow> db w' = db w \<and> (\<exists>evs. hist w' = evs @ hist w \<and> (b \<longleftrightarrow> entitled E s d (hist w) (set evs)))"

lemma replyAlreadySent_adds: "\<exists>evs. hist (replyAlreadySent E d v) = evs @ hist v \<and> unsettled evs"
proof -
  have "\<exists>evs. hist (snd (ReplyConfirmation E i st v)) = evs @ hist v \<and> unsettled evs" for i st
  proof -
    obtain a v' where run: "PublishWithContext E (saga_reply i st) v = (a, v')" by fastforce
    show ?thesis
      using PublishWithContext_trace [OF run] run
      by (intro exI [of _ "[AmqpPublish (saga_reply i st) (a = Inr ())]"]) (auto simp: ReplyConfirmation_def)
  qed
  then show ?thesis by (auto simp: replyAlreadySent_def split: sum.split)
qed

lemma handle_answers:
  assumes "handle E (NewConsumer s (redisDeduper E t)) d w = (r, w')"
  shows "answered E s d (r = Inr ()) w w' \<and> settlements (hist w') = settlements (hist w)"
proof -
  let ?c = "NewConsumer s (redisDeduper E t)" and ?i = "d_MessageId d"
  let ?v = "logged (RedisEXISTS (dedupKey ?i)) w"
  have ask: "AlreadyProcessed (cons_dedup ?c) ?i w =
      (case redis_EXISTS E (hist w) (dedupKey ?i) of Inl m \<Rightarrow> (Inl (ErrorString m), ?v) | Inr n \<Rightarrow> (Inr (0 < n), ?v))"
    by (simp add: NewConsumer_def redisDeduper_def redis_AlreadyProcessed_def Let_def)
  have "\<exists>evs. hist w' = evs @ hist w \<and> unsettled evs \<and> (r = Inr () \<longleftrightarrow> entitled E s d (hist w) (set evs))"
  proof (cases "?i \<noteq> [] \<and> redis_seen E (hist w) ?i")
    case True
    then have "r = Inr ()" "w' = replyAlreadySent E d ?v"
      using assms by (auto simp: handle_def ask redis_seen_def split: sum.splits)
    moreover obtain evs where "hist (replyAlreadySent E d ?v) = evs @ hist ?v" "unsettled evs"
      using replyAlreadySent_adds by blast
    ultimately show ?thesis using True by (intro exI [of _ "evs @ [RedisEXISTS (dedupKey ?i)]"]) (simp add: entitled_def)
  next
    case False
    define pre where "pre = (if ?i = [] then [] else [RedisEXISTS (dedupKey ?i)])"
    have pre: "process E ?c d (w\<lparr>hist := pre @ hist w\<rparr>) = (r, w')" "pre = [] \<or> pre = [RedisEXISTS (dedupKey ?i)]"
      using assms False
      by (auto simp: handle_def ask redis_seen_def logged_def pre_def split: sum.splits if_splits)
    from process_served [OF pre(1)] obtain evs where evs: "hist w' = evs @ pre @ hist w" "unsettled evs"
      "r = Inr () \<longleftrightarrow> served s d (set evs)" by auto
    have "served s d (set (evs @ pre)) = served s d (set evs)" using pre(2) by auto
    then show ?thesis
      using evs pre(2) False by (intro exI [of _ "evs @ pre"]) (auto simp: entitled_def)
  qed
  then show ?thesis
    using handle_db [OF assms] by (auto simp: answered_def unsettled_def settlements_append)
qed

text \<open>What the loop takes from its channel, and whether the channel was closed under it.\<close>

fun taken :: "consumed list \<Rightarrow> delivery list" where
  "taken (Deliver d # ds) = d # taken ds"
| "taken _ = []"

fun cut_off :: "consumed list \<Rightarrow> bool" where
  "cut_off (Deliver d # ds) = cut_off ds"
| "cut_off (DeliveriesClosed # ds) = True"
| "cut_off _ = False"

definition loop_end :: "bool \<Rightarrow> gerr + unit" where
  "loop_end closed = (if closed then Inl (ErrorString ''deliveries channel closed'') else Inr ())"

lemma consume_loop_settles:
  assumes "consume_loop E (NewConsumer s (redisDeduper E t)) ds w = (r, w')"
  shows "settles (answered E s) (taken ds) w w' \<and> r = loop_end (cut_off ds)"
  using assms
proof (induction ds arbitrary: w)
  case (Cons x ds)
  let ?c = "NewConsumer s (redisDeduper E t)"
  show ?case
  proof (cases x)
    case (Deliver d)
    obtain q w1 where h: "handle E ?c d w = (q, w1)" by (cases "handle E ?c d w")
    then have "consume_loop E ?c ds (logged (Settled (q = Inr ())) w1) = (r, w')"
      using Cons.prems Deliver by (cases q) auto
    from Cons.IH [OF this] handle_answers [OF h] Deliver show ?thesis by (auto intro: settles.one_more)
  qed (use Cons.prems in \<open>auto simp: loop_end_def settles.none_left\<close>)
qed (auto simp: loop_end_def settles.none_left)

lemma Consumer_Run_cases:
  assumes "Consumer_Run E (NewConsumer s (redisDeduper E t)) url ds w = (r, w')"
  obtains (failed) e where "r = Inl e" "db w' = db w" "settlements (hist w') = settlements (hist w)"
  | (looped) w1 w2 a b where "settles (answered E s) (taken ds) w1 w2" "r = loop_end (cut_off ds)"
      "db w1 = db w" "settlements (hist w1) = settlements (hist w)"
      "hist w' = Setup ConnClose a # Setup ChannelClose b # hist w2" "db w' = db w2"
  by (rule session_cases [OF assms [unfolded Consumer_Run_def]])
    (use topology_quiet(2) consume_loop_settles in blast)+

section \<open>The reply consumer\<close>

text \<open>The reply has been acted upon: its saga, if there is one, is in no state the reply would change.\<close>

definition acted_on :: "env \<Rightarrow> json \<Rightarrow> db \<Rightarrow> bool" where
  "acted_on E body d \<longleftrightarrow> (\<forall>rep g. unmarshal_SagaReply body = Inr rep \<and> reply_saga E rep d = Some g \<longrightarrow>
     \<not> completes rep g \<and> \<not> compensates rep g)"

definition reply_done :: "env \<Rightarrow> json \<Rightarrow> bool \<Rightarrow> world \<Rightarrow> world \<Rightarrow> bool" where
  "reply_done E body b w w' \<longleftrightarrow> (b \<longrightarrow> (\<exists>rep. unmarshal_SagaReply body = Inr rep) \<and> acted_on E body (db w'))"

lemma stmt_settlements: "run_stmt E ext name body w = (r, w') \<Longrightarrow> settlements (hist w') = settlements (hist w)"
  by (drule run_stmt_hist) simp

lemma store_settlements:
  "GetByID E i w = (r1, w') \<Longrightarrow> settlements (hist w') = settlements (hist w)"
  "UpdateState E i st le w = (r2, w') \<Longrightarrow> settlements (hist w') = settlements (hist w)"
  "MarkFailed E n w = (r3, w') \<Longrightarrow> settlements (hist w') = settlements (hist w)"
  unfolding GetByID_def UpdateState_def MarkFailed_def Let_def
  by (auto split: prod.splits sum.splits if_splits dest: stmt_settlements)

lemma HandleReply_settlements:
  assumes "HandleReply E (MarkFailed E) body w = (r, w')"
  shows "settlements (hist w') = settlements (hist w)"
  using assms unfolding HandleReply_def compensate_def
  by (auto split: prod.splits sum.splits if_splits option.splits dest!: store_settlements)

lemma handle_attempts_done:
  assumes "handle_attempts E (MarkFailed E) body n w = (r, w')" "uuid_column E" "db_ok (db w)"
  shows "db_ok (db w') \<and> settlements (hist w') = settlements (hist w) \<and> reply_done E body (r = Inr ()) w w'"
  using assms(1,3)
proof (induction n arbitrary: w)
  have one: "db_ok (db v) \<and> settlements (hist v) = settlements (hist w) \<and> (q = Inr () \<longrightarrow> reply_done E body True u v)"
    if "HandleReply E (MarkFailed E) body w = (q, v)" "db_ok (db w)" for w q u v
  proof -
    have "(\<exists>rep. unmarshal_SagaReply body = Inr rep) \<and> acted_on E body (db v)" if "q = Inr ()"
      using store_compensator.HandleReply_settles [OF \<open>_ = (q, v)\<close> [unfolded that] assms(2)] \<open>_ = (q, v)\<close> that \<open>db_ok (db w)\<close>
      by (auto simp: acted_on_def db_ok_def HandleReply_def split: sum.splits)
    then show ?thesis
      using that HandleReply_settlements [OF that(1)] grows_ok [OF store_compensator.HandleReply_grows [OF that(1)]]
      by (auto simp: reply_done_def)
  qed
  {
    case 0
    then show ?case using one [of w r w' w] by (auto simp: reply_done_def)
  next
    case (Suc n)
    obtain q w1 where h: "HandleReply E (MarkFailed E) body w = (q, w1)" by (cases "HandleReply E (MarkFailed E) body w")
    note h1 = one [OF h Suc.prems(2)]
    show ?case
    proof (cases q)
      case (Inr x)
      then show ?thesis using Suc.prems h h1 by (auto simp: reply_done_def)
    next
      case (Inl e)
      obtain b w2 where bo: "backoff_or_done E (200 * time_Millisecond) w1 = (b, w2)"
        by (cases "backoff_or_done E (200 * time_Millisecond) w1")
      then have w2: "db w2 = db w1" "settlements (hist w2) = settlements (hist w1)"
        by (auto simp: backoff_or_done_def split: if_splits)
      show ?thesis
      proof (cases b)
        case True
        then show ?thesis using Suc.prems h Inl bo h1 w2 by (auto simp: reply_done_def)
      next
        case False
        then have "handle_attempts E (MarkFailed E) body n w2 = (r, w')" using Suc.prems h Inl bo by auto
        from Suc.IH [OF this] h1 w2 show ?thesis by (simp add: reply_done_def)
      qed
    qed
  }
qed

fun received_bodies :: "json received list \<Rightarrow> json list" where
  "received_bodies (Delivery d # ds) = d # received_bodies ds"
| "received_bodies _ = []"

fun channel_closed :: "json received list \<Rightarrow> bool" where
  "channel_closed (Delivery d # ds) = channel_closed ds"
| "channel_closed (ChannelClosed # ds) = True"
| "channel_closed _ = False"

lemma reply_loop_settles:
  assumes "reply_loop E (MarkFailed E) ds w = (r, w')" "uuid_column E" "db_ok (db w)"
  shows "settles (reply_done E) (received_bodies ds) w w' \<and> r = loop_end (channel_closed ds)"
  using assms(1,3)
proof (induction ds arbitrary: w)
  case (Cons x ds)
  show ?case
  proof (cases x)
    case (Delivery body)
    obtain q w1 where h: "handleWithRetry E (MarkFailed E) body w = (q, w1)" by (cases "handleWithRetry E (MarkFailed E) body w")
    then have "reply_loop E (MarkFailed E) ds (logged (Settled (q = Inr ())) w1) = (r, w')"
      using Cons.prems Delivery by (cases q) auto
    from Cons.IH [OF this] handle_attempts_done [OF h [unfolded handleWithRetry_def] assms(2) Cons.prems(2)] Delivery
    show ?thesis by (auto intro: settles.one_more)
  qed (use Cons.prems in \<open>auto simp: loop_end_def settles.none_left\<close>)
qed (auto simp: loop_end_def settles.none_left)

lemma ReplyConsumer_Run_cases:
  assumes "ReplyConsumer_Run E (MarkFailed E) url ds w = (r, w')" "uuid_column E" "db_ok (db w)"
  obtains (failed) e where "r = Inl e" "db w' = db w" "settlements (hist w') = settlements (hist w)"
  | (looped) w1 w2 a b where "settles (reply_done E) (received_bodies ds) w1 w2" "r = loop_end (channel_closed ds)"
      "db w1 = db w" "settlements (hist w1) = settlements (hist w)"
      "hist w' = Setup ConnClose a # Setup ChannelClose b # hist w2" "db w' = db w2"
  by (rule session_cases [OF assms(1) [unfolded ReplyConsumer_Run_def]])
    (use topology_quiet(1) reply_loop_settles [OF _ assms(2)] assms(3) in metis)+

section \<open>Sessions\<close>

text \<open>
  How a session ends: with an error before the first delivery, or after it settled the deliveries \<open>ds\<close>, one
  settlement for each, and closed the channel and the connection.
\<close>

definition session_of ::
  "('d \<Rightarrow> bool \<Rightarrow> world \<Rightarrow> world \<Rightarrow> bool) \<Rightarrow> 'd list \<Rightarrow> bool \<Rightarrow> world \<Rightarrow> gerr + unit \<Rightarrow> world \<Rightarrow> bool" where
  "session_of P ds closed w r w' \<longleftrightarrow>
     ((\<exists>e. r = Inl e) \<and> db w' = db w \<and> settlements (hist w') = settlements (hist w)) \<or>
     (\<exists>w1 w2 a b. db w1 = db w \<and> settlements (hist w1) = settlements (hist w) \<and> settles P ds w1 w2 \<and>
        db w' = db w2 \<and> hist w' = Setup ConnClose a # Setup ChannelClose b # hist w2 \<and>
        length (settlements (hist w')) = length (settlements (hist w)) + length ds \<and>
        settlements (hist w') = settlements (hist w2) \<and> r = loop_end closed)"

lemma session_looped:
  assumes "settles P ds w1 w2" "db w1 = db w" "settlements (hist w1) = settlements (hist w)"
    "hist w' = Setup ConnClose a # Setup ChannelClose b # hist w2" "db w' = db w2"
  shows "session_of P ds closed w (loop_end closed) w'"
  using assms settles_once [OF assms(1)] unfolding session_of_def
  by (intro disjI2 exI [of _ w1] exI [of _ w2] exI [of _ a] exI [of _ b]) auto

lemma Consumer_Run_session:
  assumes "Consumer_Run E (NewConsumer s (redisDeduper E t)) url ds w = (r, w')"
  shows "session_of (answered E s) (taken ds) (cut_off ds) w r w'"
  using assms
proof (cases rule: Consumer_Run_cases)
  case (failed e)
  then show ?thesis by (simp add: session_of_def)
next
  case (looped w1 w2 a b)
  then show ?thesis using session_looped [OF looped(1,3-6)] by simp
qed

lemma ReplyConsumer_Run_session:
  assumes "ReplyConsumer_Run E (MarkFailed E) url ds w = (r, w')" "uuid_column E" "db_ok (db w)"
  shows "session_of (reply_done E) (received_bodies ds) (channel_closed ds) w r w'"
  using assms
proof (cases rule: ReplyConsumer_Run_cases)
  case (failed e)
  then show ?thesis by (simp add: session_of_def)
next
  case (looped w1 w2 a b)
  then show ?thesis using session_looped [OF looped(1,3-6)] by simp
qed

end
