(* ===== verification/Registry.thy ===== *)
theory Registry
  imports Saga_System Subscribe_Effects
begin

text \<open>
  What the subscription table promises, as an abstract registry: a partial map from address and
  repository to the status, the confirmation flag and the token. It changes by five events, each with
  the guard under which it may happen: an entry appears, a failed entry is revived with a new token, an
  unconfirmed entry is confirmed, an entry is marked failed, or removed. Every operation, whatever
  fails in it, runs one of the few sequences of events listed for it here.
\<close>

section \<open>A table as a map\<close>

definition table_map :: "('r \<Rightarrow> 'k) \<Rightarrow> ('r \<Rightarrow> 'v) \<Rightarrow> 'r list \<Rightarrow> 'k \<Rightarrow> 'v option" where
  "table_map key val rows = map_of (map (\<lambda>r. (key r, val r)) rows)"

lemma table_map_simps [simp]:
  "table_map key val [] = Map.empty"
  "table_map key val (r # rows) = (table_map key val rows)(key r \<mapsto> val r)"
  by (simp_all add: table_map_def)

lemma table_map_None: "table_map key val rows k = None \<longleftrightarrow> k \<notin> key ` set rows"
  by (induction rows) auto

lemma table_map_in:
  "distinct (map key rows) \<Longrightarrow> r \<in> set rows \<Longrightarrow> table_map key val rows (key r) = Some (val r)"
  by (induction rows) (auto simp: image_iff)

lemma table_map_snoc:
  "key r \<notin> key ` set rows \<Longrightarrow> table_map key val (rows @ [r]) = (table_map key val rows)(key r \<mapsto> val r)"
  by (induction rows) (auto simp: fun_upd_twist)

text \<open>An update or a deletion that hits one row.\<close>

lemma table_map_upd:
  assumes "distinct (map key rows)" "r \<in> set rows" "\<And>x. x \<in> set rows \<Longrightarrow> P x \<longleftrightarrow> x = r" "key (f r) = key r"
  shows "table_map key val (upd_rows P f rows) = (table_map key val rows)(key r \<mapsto> val (f r))"
  using assms
proof (induction rows)
  case (Cons x rows)
  show ?case
  proof (cases "x = r")
    case True
    then have "\<forall>y\<in>set rows. \<not> P y" using Cons.prems(1,3) by force
    then show ?thesis using True Cons.prems by (simp add: upd_rows_none fun_eq_iff)
  next
    case False
    then have r: "r \<in> set rows" using Cons.prems(2) by simp
    then have ne: "key x \<noteq> key r" using Cons.prems(1) by force
    have "table_map key val (upd_rows P f rows) = (table_map key val rows)(key r \<mapsto> val (f r))"
      using Cons.prems r by (intro Cons.IH) auto
    then show ?thesis using False ne Cons.prems(3) [of x] by (auto simp: fun_eq_iff)
  qed
qed simp

lemma table_map_del:
  assumes "distinct (map key rows)" "r \<in> set rows" "\<And>x. x \<in> set rows \<Longrightarrow> P x \<longleftrightarrow> x = r"
  shows "table_map key val (del_rows P rows) = (table_map key val rows)(key r := None)"
  using assms
proof (induction rows)
  case (Cons x rows)
  show ?case
  proof (cases "x = r")
    case True
    then have "del_rows P rows = rows" using Cons.prems(1,3) by (force simp: del_rows_def filter_id_conv)
    moreover have "table_map key val rows (key r) = None" using True Cons.prems(1) by (simp add: table_map_None)
    ultimately show ?thesis using True Cons.prems by (auto simp: del_rows_def fun_eq_iff)
  next
    case False
    then have r: "r \<in> set rows" using Cons.prems(2) by simp
    then have ne: "key x \<noteq> key r" using Cons.prems(1) by force
    have "table_map key val (del_rows P rows) = (table_map key val rows)(key r := None)"
      using Cons.prems r by (intro Cons.IH) auto
    then show ?thesis using False ne Cons.prems(3) [of x] by (auto simp: del_rows_def fun_eq_iff)
  qed
qed simp

section \<open>The abstract registry\<close>

type_synonym pair = "string \<times> string"
type_synonym entry = "sub_status \<times> bool \<times> string"
type_synonym registry = "pair \<Rightarrow> entry option"

text \<open>The events, each with the entry it is about and, where it matters, the token.\<close>

datatype reg_event =
    Entered pair string
  | Revived pair string
  | Confirmed pair string
  | MarkedFailed pair
  | Removed pair string

fun reg_apply :: "reg_event \<Rightarrow> registry \<Rightarrow> registry option" where
  "reg_apply (Entered k t) r =
     (case r k of None \<Rightarrow> Some (r(k \<mapsto> (StatusPending, False, t))) | Some e \<Rightarrow> None)"
| "reg_apply (Revived k t) r =
     (case r k of Some (StatusFailed, c, t0) \<Rightarrow> Some (r(k \<mapsto> (StatusPending, False, t))) | _ \<Rightarrow> None)"
| "reg_apply (Confirmed k t) r =
     (case r k of Some (st, False, t0) \<Rightarrow> if t0 = t then Some (r(k \<mapsto> (StatusConfirmed, True, t))) else None | _ \<Rightarrow> None)"
| "reg_apply (MarkedFailed k) r =
     (case r k of Some (st, c, t) \<Rightarrow> Some (r(k \<mapsto> (StatusFailed, c, t))) | None \<Rightarrow> None)"
| "reg_apply (Removed k t) r =
     (case r k of Some (st, c, t0) \<Rightarrow> if t0 = t then Some (r(k := None)) else None | None \<Rightarrow> None)"

fun reg_run :: "reg_event list \<Rightarrow> registry \<Rightarrow> registry option" where
  "reg_run [] r = Some r"
| "reg_run (e # es) r = (case reg_apply e r of None \<Rightarrow> None | Some r' \<Rightarrow> reg_run es r')"

lemma reg_run_append:
  "reg_run (es @ fs) r = (case reg_run es r of None \<Rightarrow> None | Some r' \<Rightarrow> reg_run fs r')"
  by (induction es arbitrary: r) (simp_all split: option.split)

text \<open>The registry a table stands for.\<close>

definition entry_of :: "Subscription \<Rightarrow> entry" where
  "entry_of s = (sub_Status s, sub_Confirmed s, sub_Token s)"

definition registry_of :: "Subscription list \<Rightarrow> registry" where
  "registry_of = table_map (\<lambda>s. email_repo s) entry_of"

lemmas registry_None = table_map_None [of "\<lambda>s. email_repo s" entry_of, folded registry_of_def]
  and registry_in = table_map_in [of "\<lambda>s. email_repo s" _ _ entry_of, folded registry_of_def]
  and registry_snoc = table_map_snoc [of "\<lambda>s. email_repo s" _ _ entry_of, folded registry_of_def]
  and registry_upd = table_map_upd [of "\<lambda>s. email_repo s" _ _ _ _ entry_of, folded registry_of_def]
  and registry_del = table_map_del [of "\<lambda>s. email_repo s" _ _ _ entry_of, folded registry_of_def]

definition moves :: "reg_event list \<Rightarrow> Subscription list \<Rightarrow> Subscription list \<Rightarrow> bool" where
  "moves es ss ss' \<longleftrightarrow> reg_run es (registry_of ss) = Some (registry_of ss')"

lemma moves_Nil [simp]: "moves [] ss ss"
  by (simp add: moves_def)

lemma moves_append: "moves es a b \<Longrightarrow> moves fs b c \<Longrightarrow> moves (es @ fs) a c"
  by (simp add: moves_def reg_run_append)

lemma db_ok_subs: "db_ok d \<Longrightarrow> distinct (map sub_ID (subscriptions d)) \<and> distinct (map sub_Token (subscriptions d)) \<and>
   distinct (map email_repo (subscriptions d))"
  by (simp add: db_ok_def subs_ok_def)

lemma key_unique:
  assumes "distinct (map key ss)" "s \<in> set ss"
  shows "x \<in> set ss \<Longrightarrow> key x = key s \<longleftrightarrow> x = s"
  using assms by (auto simp: distinct_map inj_on_def)

section \<open>What each statement does to the registry\<close>

text \<open>The pair of the row with the given id.\<close>

definition pair_of :: "Subscription list \<Rightarrow> nat \<Rightarrow> pair option" where
  "pair_of ss n = map_option email_repo (lookup_by sub_ID n ss)"

lemma pair_of_fail_rows [simp]: "pair_of (fail_rows m ss) n = pair_of ss n"
  by (induction ss) (simp_all add: pair_of_def fail_rows_def)

lemma pair_of_in: "distinct (map sub_ID ss) \<Longrightarrow> s \<in> set ss \<Longrightarrow> pair_of ss (sub_ID s) = Some (email_repo s)"
  by (simp add: pair_of_def lookup_by_eq_Some)

lemma entered_moves:
  assumes "distinct (map email_repo (ss @ [new_sub n email repo token t]))"
  shows "moves [Entered (email, repo) token] ss (ss @ [new_sub n email repo token t])"
proof -
  have "(email, repo) \<notin> email_repo ` set ss" using assms by (auto simp: new_sub_def)
  then show ?thesis
    using registry_None [of ss "(email, repo)"] registry_snoc [of "new_sub n email repo token t" ss]
    by (simp add: moves_def new_sub_def entry_of_def)
qed

lemma revived_moves:
  assumes d: "distinct (map email_repo ss)" "distinct (map sub_ID ss)"
    and s: "s \<in> set ss" "sub_ID s = n" "sub_Status s = StatusFailed"
  shows "moves [Revived (email_repo s) token] ss
     (upd_rows (\<lambda>s. sub_ID s = n \<and> sub_Status s = StatusFailed) (reactivate_row token) ss)"
proof -
  have one: "sub_ID x = n \<and> sub_Status x = StatusFailed \<longleftrightarrow> x = s" if "x \<in> set ss" for x
    using key_unique [OF d(2) s(1) that] s by auto
  have "registry_of (upd_rows (\<lambda>s. sub_ID s = n \<and> sub_Status s = StatusFailed) (reactivate_row token) ss) =
      (registry_of ss)(email_repo s \<mapsto> entry_of (reactivate_row token s))"
    by (rule registry_upd [OF d(1) s(1) one]) (simp_all add: reactivate_row_def)
  then show ?thesis
    using registry_in [OF d(1) s(1)] s(3) by (simp add: moves_def entry_of_def reactivate_row_def)
qed

lemma confirmed_moves:
  assumes d: "distinct (map email_repo ss)" "distinct (map sub_Token ss)"
    and s: "lookup_by sub_Token token ss = Some s" "\<not> sub_Confirmed s"
  shows "moves [Confirmed (email_repo s) token] ss (upd_rows (\<lambda>s. sub_Token s = token) confirm_row ss)"
proof -
  have s': "s \<in> set ss" "sub_Token s = token" using lookup_by_SomeD [OF s(1)] by simp_all
  have one: "sub_Token x = token \<longleftrightarrow> x = s" if "x \<in> set ss" for x
    using key_unique [OF d(2) s'(1) that] s'(2) by simp
  have "registry_of (upd_rows (\<lambda>s. sub_Token s = token) confirm_row ss) =
      (registry_of ss)(email_repo s \<mapsto> entry_of (confirm_row s))"
    by (rule registry_upd [OF d(1) s'(1) one]) (simp_all add: confirm_row_def)
  then show ?thesis
    using registry_in [OF d(1) s'(1)] s(2) s'(2) by (simp add: moves_def entry_of_def confirm_row_def)
qed

lemma removed_moves:
  assumes d: "distinct (map email_repo ss)" "distinct (map sub_Token ss)"
    and s: "lookup_by sub_Token token ss = Some s"
  shows "moves [Removed (email_repo s) token] ss (del_rows (\<lambda>s. sub_Token s = token) ss)"
proof -
  have s': "s \<in> set ss" "sub_Token s = token" using lookup_by_SomeD [OF s] by simp_all
  have one: "sub_Token x = token \<longleftrightarrow> x = s" if "x \<in> set ss" for x
    using key_unique [OF d(2) s'(1) that] s'(2) by simp
  show ?thesis
    using registry_in [OF d(1) s'(1)] registry_del [OF d(1) s'(1) one] s'(2) by (simp add: moves_def entry_of_def)
qed

definition failing :: "pair option \<Rightarrow> reg_event list" where
  "failing p = (case p of None \<Rightarrow> [] | Some k \<Rightarrow> [MarkedFailed k])"

lemma failing_moves:
  assumes d: "distinct (map email_repo ss)" "distinct (map sub_ID ss)"
  shows "moves (failing (pair_of ss n)) ss (fail_rows n ss)"
proof (cases "lookup_by sub_ID n ss")
  case None
  then have "fail_rows n ss = ss"
    unfolding fail_rows_def by (intro upd_rows_none) (auto simp: lookup_by_None_iff)
  then show ?thesis using None by (simp add: failing_def pair_of_def)
next
  case (Some s)
  have s: "s \<in> set ss" "sub_ID s = n" using lookup_by_SomeD [OF Some] by simp_all
  have one: "sub_ID x = n \<longleftrightarrow> x = s" if "x \<in> set ss" for x
    using key_unique [OF d(2) s(1) that] s(2) by simp
  have "registry_of (fail_rows n ss) = (registry_of ss)(email_repo s \<mapsto> entry_of (s\<lparr>sub_Status := StatusFailed\<rparr>))"
    unfolding fail_rows_def by (rule registry_upd [OF d(1) s(1) one]) simp_all
  then show ?thesis
    using registry_in [OF d(1) s(1)] Some by (simp add: moves_def failing_def pair_of_def entry_of_def)
qed

section \<open>What an operation may do\<close>

text \<open>
  Beginning a subscription enters or revives the requested pair, and on the synchronous transport
  (\<open>sync\<close>) may mark it failed at once; a link of a mail confirms or removes the entry that carries its
  token; nothing else a request does touches the registry.
\<close>

fun begins_entry :: "pair \<Rightarrow> reg_event \<Rightarrow> bool" where
  "begins_entry k (Entered k' t) = (k' = k)"
| "begins_entry k (Revived k' t) = (k' = k)"
| "begins_entry k e = False"

fun subscribe_events :: "bool \<Rightarrow> pair \<Rightarrow> reg_event list \<Rightarrow> bool" where
  "subscribe_events sync k [] = True"
| "subscribe_events sync k [e] = begins_entry k e"
| "subscribe_events sync k [e, f] = (sync \<and> begins_entry k e \<and> f = MarkedFailed k)"
| "subscribe_events sync k es = False"

fun confirm_event :: "string \<Rightarrow> reg_event list \<Rightarrow> bool" where
  "confirm_event token [] = True"
| "confirm_event token [Confirmed k t] = (t = token)"
| "confirm_event token es = False"

fun remove_event :: "string \<Rightarrow> reg_event list \<Rightarrow> bool" where
  "remove_event token [] = True"
| "remove_event token [Removed k t] = (t = token)"
| "remove_event token es = False"

fun request_events :: "bool \<Rightarrow> api_config \<Rightarrow> api_request \<Rightarrow> endpoint \<Rightarrow> reg_event list \<Rightarrow> bool" where
  "request_events sync cf r ApiSubscribe es =
     (case ShouldBindJSON (api_IsEmail cf) (http_Body r) of
        None \<Rightarrow> es = [] | Some req \<Rightarrow> subscribe_events sync (sr_Email req, sr_Repo req) es)"
| "request_events sync cf r (ApiConfirm token) es = confirm_event token es"
| "request_events sync cf r (ApiUnsubscribe token) es = remove_event token es"
| "request_events sync cf r ep es = (es = [])"

text \<open>
  The background jobs only mark entries failed, and only those of sagas they compensate: the sweeper
  the compensating ones, a reply its own saga if the reply reports a failure and the saga is not settled.
\<close>

definition fails_saga :: "(Saga \<Rightarrow> bool) \<Rightarrow> db \<Rightarrow> reg_event \<Rightarrow> bool" where
  "fails_saga P d e \<longleftrightarrow> (\<exists>g\<in>set (sagas d). P g \<and> failing (pair_of (subscriptions d) (saga_SubscriptionID g)) = [e])"

definition sweep_events :: "db \<Rightarrow> reg_event list \<Rightarrow> bool" where
  "sweep_events d = list_all (fails_saga (\<lambda>g. saga_State g = StateCompensating) d)"

definition reply_events :: "env \<Rightarrow> json \<Rightarrow> db \<Rightarrow> reg_event list \<Rightarrow> bool" where
  "reply_events E body d =
     list_all (fails_saga (\<lambda>g. \<exists>rep. unmarshal_SagaReply body = Inr rep \<and>
        reply_saga E rep d = Some g \<and> compensates rep g) d)"

definition revive_events :: "nat \<Rightarrow> string \<Rightarrow> Subscription list \<Rightarrow> reg_event list \<Rightarrow> bool" where
  "revive_events n token ss es \<longleftrightarrow> es = [] \<or> (\<exists>k. pair_of ss n = Some k \<and> es = [Revived k token])"

text \<open>The operation ran events on the registry, and only such as it may cause.\<close>

definition caused_by :: "(reg_event list \<Rightarrow> bool) \<Rightarrow> db \<Rightarrow> db \<Rightarrow> bool" where
  "caused_by may d d' \<longleftrightarrow> (\<exists>es. may es \<and> moves es (subscriptions d) (subscriptions d'))"

lemma caused_byI: "may es \<Longrightarrow> moves es (subscriptions d) (subscriptions d') \<Longrightarrow> caused_by may d d'"
  by (auto simp: caused_by_def)

lemma caused_by_same: "may [] \<Longrightarrow> subscriptions d' = subscriptions d \<Longrightarrow> caused_by may d d'"
  by (rule caused_byI [of _ "[]"]) simp_all

section \<open>Requests\<close>

lemma sub_written_moves:
  assumes "sub_written rid n email repo token d d1" and "rid = known_row email repo d"
    and d: "db_ok d" and new: "distinct (map email_repo (subscriptions d1))"
  shows "\<exists>e. begins_entry (email, repo) e \<and> moves [e] (subscriptions d) (subscriptions d1) \<and>
     pair_of (subscriptions d1) n = Some (email, repo)"
proof (cases "lookup_by email_repo (email, repo) (subscriptions d)")
  case None
  then obtain t where "subscriptions d1 = subscriptions d @ [new_sub n email repo token t]" "n = Suc (sub_seq d)"
    using assms(1,2) by (auto simp: sub_written_def known_row_def)
  moreover from this have "lookup_by sub_ID n (subscriptions d) = None"
    using d by (fastforce simp: lookup_by_None_iff db_ok_def subs_ok_def)
  ultimately show ?thesis
    using entered_moves [of "subscriptions d" n email repo token t] new
    by (intro exI [of _ "Entered (email, repo) token"]) (simp add: pair_of_def row_simps new_sub_def)
next
  case (Some s)
  note ds = db_ok_subs [OF d]
  have s: "s \<in> set (subscriptions d)" "email_repo s = (email, repo)" using lookup_by_SomeD [OF Some] by simp_all
  moreover have "sub_ID s \<noteq> 0" using d s(1) by (auto simp: db_ok_def subs_ok_def)
  ultimately have w: "n = sub_ID s" "\<exists>x\<in>set (subscriptions d). sub_ID x = n \<and> sub_Status x = StatusFailed"
    "subscriptions d1 = upd_rows (\<lambda>s. sub_ID s = n \<and> sub_Status s = StatusFailed) (reactivate_row token) (subscriptions d)"
    using assms(1,2) Some by (auto simp: sub_written_def known_row_def)
  then have "sub_Status s = StatusFailed" using key_unique [OF _ s(1)] ds by metis
  from revived_moves [OF _ _ s(1) w(1) [symmetric] this] ds s(2) w(3)
  have "moves [Revived (email, repo) token] (subscriptions d) (subscriptions d1)" by simp
  moreover have "pair_of (subscriptions d1) n = Some (email, repo)"
  proof -
    have "lookup_by sub_ID n (subscriptions d) = Some s" using lookup_by_eq_Some ds s(1) w(1) by metis
    then show ?thesis using s(2) w(3) \<open>sub_Status s = StatusFailed\<close>
      by (subst w(3)) (simp add: pair_of_def lookup_by_upd_map reactivate_row_def)
  qed
  ultimately show ?thesis by (intro exI [of _ "Revived (email, repo) token"]) simp
qed

lemma after_t1_moves:
  assumes t1: "after_t1 gs g n d1 st failed d'" and sub: "begins_entry k e" "moves [e] ss (subscriptions d1)"
    "pair_of (subscriptions d1) n = Some k"
    and keys: "distinct (map email_repo (subscriptions d1))" "distinct (map sub_ID (subscriptions d1))"
  shows "\<exists>es. subscribe_events True k es \<and> moves es ss (subscriptions d')"
proof (cases failed)
  case True
  then have "moves [MarkedFailed k] (subscriptions d1) (subscriptions d')"
    using t1 failing_moves [OF keys, of n] sub(3) by (simp add: after_t1_def failing_def)
  from moves_append [OF sub(2) this] show ?thesis using sub(1) by (intro exI [of _ "[e, MarkedFailed k]"]) simp
next
  case False
  then show ?thesis using t1 sub(1,2) by (intro exI [of _ "[e]"]) (simp add: after_t1_def)
qed

lemma begun_keys:
  assumes "begun E sync ok rid email repo token url d d'" "db_ok d'"
  obtains n d1 where "sub_written rid n email repo token d d1" "distinct (map email_repo (subscriptions d1))"
    "distinct (map sub_ID (subscriptions d1))"
    "if sync then \<exists>gs g st failed. after_t1 gs g n d1 st failed d' else d1 = d'"
proof (cases sync)
  case False
  then show thesis using assms db_ok_subs [of d'] that by (auto simp: begun_def)
next
  case True
  then obtain n d1 g st failed where *: "sub_written rid n email repo token d d1" "after_t1 (sagas d) g n d1 st failed d'"
    using assms(1) by (auto simp: begun_def)
  then have "map email_repo (subscriptions d1) = map email_repo (subscriptions d')"
    "map sub_ID (subscriptions d1) = map sub_ID (subscriptions d')"
    by (simp_all add: after_t1_def fail_rows_def row_simps)
  then show thesis using * True db_ok_subs [OF assms(2)] that by metis
qed

lemma begins_moves:
  assumes "begins E sync base ok email repo d d'" and d: "db_ok d" "db_ok d'"
  shows "caused_by (subscribe_events sync (email, repo)) d d'"
proof -
  obtain token where b: "begun E sync ok (known_row email repo d) email repo token (confirm_url base token) d d'"
    using assms(1) by (auto simp: begins_def)
  show ?thesis
  proof (rule begun_keys [OF b d(2)])
    fix n d1
    assume w: "sub_written (known_row email repo d) n email repo token d d1" and k: "distinct (map email_repo (subscriptions d1))"
      "distinct (map sub_ID (subscriptions d1))" and t: "if sync then \<exists>gs g st failed. after_t1 gs g n d1 st failed d' else d1 = d'"
    from sub_written_moves [OF w refl d(1) k(1)] obtain e where e: "begins_entry (email, repo) e"
      "moves [e] (subscriptions d) (subscriptions d1)" "pair_of (subscriptions d1) n = Some (email, repo)" by blast
    show ?thesis
    proof (cases sync)
      case True
      then show ?thesis using t after_t1_moves [OF _ e k] by (auto simp: caused_by_def)
    next
      case False
      then show ?thesis using t e by (intro caused_byI [of _ "[e]"]) simp_all
    qed
  qed
qed

lemma Subscribe_moves:
  assumes run: "Subscribe E (main_service E tr c ca base) email repo w = (r, w')" and d: "db_ok (db w)" and E: "uuid_column E"
  shows "caused_by (subscribe_events (tr \<noteq> None) (email, repo)) (db w) (db w')"
proof -
  note out = Subscribe_outcome [OF run d E]
  have d': "db_ok (db w')" using main_svc.Subscribe_spec [OF run d] grows_ok d by blast
  have same: ?thesis if "subscriptions (db w') = subscriptions (db w)"
    using that by (intro caused_by_same) simp_all
  show ?thesis
  proof (cases r)
    case (Inr x)
    then show ?thesis using out begins_moves d d' by (auto simp: subscribe_outcome_def)
  next
    case (Inl e)
    then show ?thesis
      using out begins_moves [OF _ d d'] same
      by (cases "KindOf e") (auto simp: subscribe_outcome_def tables_same_def)
  qed
qed

lemma Confirm_moves:
  assumes run: "Confirm (main_service E tr c ca base) token w = (r, w')" and d: "db_ok (db w)"
  shows "caused_by (confirm_event token) (db w) (db w')"
proof -
  let ?svc = "main_service E tr c ca base"
  obtain g w1 where look: "svc_GetSubscriptionByToken ?svc token w = (g, w1)" by (cases "svc_GetSubscriptionByToken ?svc token w")
  note l = main_svc.by_token [OF look]
  have same: ?thesis if "subscriptions (db w') = subscriptions (db w)" using that by (intro caused_by_same) simp_all
  show ?thesis
  proof (cases "\<exists>s. g = Inr (Some s)")
    case False
    then have "db w' = db w" using run look l by (auto simp: Confirm_def split: sum.splits option.splits)
    then show ?thesis using same by simp
  next
    case True
    then obtain s where s: "g = Inr (Some s)" by blast
    let ?c = "if \<not> sub_Confirmed s then ConfirmSubscription E token w1 else (Inr (), w1)"
    obtain q w2 where c: "?c = (q, w2)" by (cases ?c)
    have reg: "subscriptions (db v') = subscriptions (db v)" if "svc_RegisterRepo ?svc repo v = (a, v')" for repo v a v'
      using main_svc.register [OF that] by simp
    have cs: "svc_ConfirmSubscription ?svc = ConfirmSubscription E" by (simp add: main_service_def)
    have "subscriptions (db w') = subscriptions (db w2)"
      using run look s c by (auto simp: Confirm_def cs split: sum.splits prod.splits if_splits dest: reg)
    moreover have "subscriptions (db w2) = subscriptions (db w) \<or> (\<not> sub_Confirmed s \<and>
        subscriptions (db w2) = upd_rows (\<lambda>s. sub_Token s = token) confirm_row (subscriptions (db w)))"
    proof (cases "sub_Confirmed s")
      case False
      then have run2: "ConfirmSubscription E token w1 = (q, w2)" using c by simp
      show ?thesis
        using l False
        by (intro run_stmt_keeps [OF run2 [unfolded ConfirmSubscription_def], where P = "\<lambda>d. subscriptions d = subscriptions (db w) \<or>
            (\<not> sub_Confirmed s \<and> subscriptions d = upd_rows (\<lambda>s. sub_Token s = token) confirm_row (subscriptions (db w)))"])
          (auto simp: confirm_row_def [abs_def])
    next
      case True
      then show ?thesis using c l by auto
    qed
    moreover have "lookup_by sub_Token token (subscriptions (db w)) = Some s" using l s by simp
    ultimately show ?thesis
      using same confirmed_moves [of "subscriptions (db w)" token s] db_ok_subs [OF d]
      by (elim disjE) (simp_all add: caused_byI [of _ "[Confirmed (email_repo s) token]"])
  qed
qed

lemma Unsubscribe_moves:
  assumes run: "Unsubscribe (main_service E tr c ca base) token w = (r, w')" and d: "db_ok (db w)"
  shows "caused_by (remove_event token) (db w) (db w')"
proof -
  let ?svc = "main_service E tr c ca base"
  obtain g w1 where look: "svc_GetSubscriptionByToken ?svc token w = (g, w1)" by (cases "svc_GetSubscriptionByToken ?svc token w")
  note l = main_svc.by_token [OF look]
  have same: ?thesis if "subscriptions (db w') = subscriptions (db w)" using that by (intro caused_by_same) simp_all
  show ?thesis
  proof (cases "\<exists>s. g = Inr (Some s)")
    case False
    then have "db w' = db w" using run look l by (auto simp: Unsubscribe_def split: sum.splits option.splits)
    then show ?thesis using same by simp
  next
    case True
    then obtain s where s: "g = Inr (Some s)" by blast
    then have run2: "DeleteSubscription E token w1 = (r, w')" using run look by (simp add: Unsubscribe_def main_service_def)
    have "subscriptions (db w') = subscriptions (db w) \<or>
        subscriptions (db w') = del_rows (\<lambda>s. sub_Token s = token) (subscriptions (db w))"
      using l by (intro run_stmt_keeps [OF run2 [unfolded DeleteSubscription_def], where P = "\<lambda>d. subscriptions d = subscriptions (db w) \<or>
            subscriptions d = del_rows (\<lambda>s. sub_Token s = token) (subscriptions (db w))"]) auto
    moreover have "lookup_by sub_Token token (subscriptions (db w)) = Some s" using l s by simp
    ultimately show ?thesis
      using same removed_moves [of "subscriptions (db w)" token s] db_ok_subs [OF d]
      by (elim disjE) (simp_all add: caused_byI [of _ "[Removed (email_repo s) token]"])
  qed
qed

lemma serve_moves:
  assumes run: "serve E cf (main_service E tr c ca base) r ep w = (resp, w')" and d: "db_ok (db w)" and E: "uuid_column E"
  shows "caused_by (request_events (tr \<noteq> None) cf r ep) (db w) (db w')"
proof -
  obtain rid rs where resp: "resp = (rid, rs)" by (cases resp)
  let ?svc = "main_service E tr c ca base"
  let ?may = "request_events (tr \<noteq> None) cf r ep"
  have nil: "?may []" by (cases ep) (simp_all split: option.split)
  then have same: "caused_by ?may (db w) (db w)" by (intro caused_by_same) simp_all
  show ?thesis
  proof (rule serve_routed [OF run [unfolded resp]])
    fix w1 w2
    assume w1: "route E cf ?svc r ep w1 = (rs, w2)" "db w1 = db w" "db w' = db w2"
    have "caused_by (request_events (tr \<noteq> None) cf r ep) (db w) (db (snd (run_endpoint E cf ?svc r ep w1)))"
    proof (cases ep)
      case ApiSubscribe
      have "caused_by (subscribe_events (tr \<noteq> None) (email, repo)) (db w) (db v)" if "Subscribe E ?svc email repo w1 = (q, v)" for email repo q v
        using Subscribe_moves [OF that _ E] d w1(2) by simp
      then show ?thesis
        using ApiSubscribe same w1(2)
        by (auto simp: handler_Subscribe_def caused_by_def split: option.splits prod.splits sum.splits)
    next
      case (ApiConfirm token)
      have "caused_by (confirm_event token) (db w) (db v)" if "Confirm ?svc token w1 = (q, v)" for q v
        using Confirm_moves [OF that] d w1(2) by simp
      then show ?thesis
        using ApiConfirm by (auto simp: handler_ConfirmSubscription_def handleTokenAction_def caused_by_def split: prod.splits sum.splits)
    next
      case (ApiUnsubscribe token)
      have "caused_by (remove_event token) (db w) (db v)" if "Unsubscribe ?svc token w1 = (q, v)" for q v
        using Unsubscribe_moves [OF that] d w1(2) by simp
      then show ?thesis
        using ApiUnsubscribe by (auto simp: handler_Unsubscribe_def handleTokenAction_def caused_by_def split: prod.splits sum.splits)
    next
      case ApiSubscriptions
      have "db v = db w1" if "svc_GetSubscriptionsByEmail ?svc email w1 = (q, v)" for email q v
        using main_listing_db [OF that] .
      then show ?thesis
        using ApiSubscriptions w1(2) same
        by (auto simp: handler_GetSubscriptions_def GetSubscriptions_def split: prod.splits sum.splits)
    qed (use w1(2) in \<open>simp_all add: caused_by_same\<close>)
    then show ?thesis
      using w1 same by (auto simp: route_def split: if_splits option.splits)
  qed
qed

section \<open>Background jobs\<close>

text \<open>
  While sagas are settled, the rows keep their ids and pairs; \<open>settling\<close> is what a job that only fails
  entries maintains.
\<close>

definition settling :: "(reg_event \<Rightarrow> bool) \<Rightarrow> db \<Rightarrow> db \<Rightarrow> bool" where
  "settling Q d d' \<longleftrightarrow> pair_of (subscriptions d') = pair_of (subscriptions d) \<and>
     distinct (map email_repo (subscriptions d')) \<and> distinct (map sub_ID (subscriptions d')) \<and> caused_by (list_all Q) d d'"

lemma settling_refl: "db_ok d \<Longrightarrow> settling Q d d"
  using db_ok_subs by (simp add: settling_def caused_by_same)

lemma settling_same: "settling Q d d' \<Longrightarrow> subscriptions d'' = subscriptions d' \<Longrightarrow> settling Q d d''"
  by (simp add: settling_def caused_by_def)

lemma settling_fail:
  assumes "settling Q d d'" "subscriptions d'' = fail_rows n (subscriptions d')"
    and "list_all Q (failing (pair_of (subscriptions d) n))"
  shows "settling Q d d''"
proof -
  obtain es where es: "list_all Q es" "moves es (subscriptions d) (subscriptions d')"
    using assms(1) by (auto simp: settling_def caused_by_def)
  have k: "distinct (map email_repo (subscriptions d'))" "distinct (map sub_ID (subscriptions d'))"
    "pair_of (subscriptions d') = pair_of (subscriptions d)" using assms(1) by (simp_all add: settling_def)
  have "moves (failing (pair_of (subscriptions d) n)) (subscriptions d') (subscriptions d'')"
    using failing_moves [OF k(1,2), of n] k(3) assms(2) by simp
  from moves_append [OF es(2) this] es(1) assms(3) have "caused_by (list_all Q) d d''"
    by (intro caused_byI) simp_all
  moreover have "distinct (map email_repo (subscriptions d''))" "distinct (map sub_ID (subscriptions d''))"
    using k assms(2) by (simp_all add: fail_rows_def row_simps)
  ultimately show ?thesis using k(3) assms(2) by (simp add: settling_def fun_eq_iff)
qed

lemma settling_mark:
  assumes "MarkFailed E n w = (r, w')" "settling Q d (db w)" "list_all Q (failing (pair_of (subscriptions d) n))"
  shows "settling Q d (db w')"
  using store_compensator.mark_effect [OF assms(1)] assms(2) settling_fail [OF assms(2) _ assms(3)] by auto

lemma settling_update: "UpdateState E i st le w = (r, w') \<Longrightarrow> settling Q d (db w) \<Longrightarrow> settling Q d (db w')"
  using UpdateState_frame settling_same by blast

lemma settling_compensate:
  assumes "compensate E (MarkFailed E) i n reason w = (r, w')" "settling Q d (db w)"
    "list_all Q (failing (pair_of (subscriptions d) n))"
  shows "settling Q d (db w')"
  using assms(1,2) unfolding compensate_def
  by (auto split: prod.splits sum.splits dest!: settling_update settling_mark [OF _ _ assms(3)])

lemma fails_sagaI:
  "g \<in> set (sagas d) \<Longrightarrow> P g \<Longrightarrow> list_all (fails_saga P d) (failing (pair_of (subscriptions d) (saga_SubscriptionID g)))"
  by (cases "pair_of (subscriptions d) (saga_SubscriptionID g)")
    (auto simp: fails_saga_def failing_def intro!: bexI [of _ g])

lemma settling_sweep:
  assumes "settling (fails_saga (\<lambda>g. saga_State g = StateCompensating) d) d (db w)" "set sgs \<subseteq> set (sagas d)"
  shows "settling (fails_saga (\<lambda>g. saga_State g = StateCompensating) d) d (db (sweep_sagas E (MarkFailed E) sgs w))"
  using assms
proof (induction sgs arbitrary: w)
  case (Cons g sgs)
  let ?Q = "fails_saga (\<lambda>g. saga_State g = StateCompensating) d"
  have "settling ?Q d (db (sweep_saga E (MarkFailed E) g w))"
  proof (cases "saga_State g")
    case StateSubscriptionCreated
    obtain q w1 where rq: "Requeue E (saga_ID g) w = (q, w1)" by (cases "Requeue E (saga_ID g) w")
    from Requeue_effect [OF rq] have "subscriptions (db w1) = subscriptions (db w)" by auto
    then show ?thesis using StateSubscriptionCreated rq settling_same [OF Cons.prems(1)] by (simp add: sweep_saga_def)
  next
    case StateCompensating
    obtain q w1 where mk: "MarkFailed E (saga_SubscriptionID g) w = (q, w1)" by (cases "MarkFailed E (saga_SubscriptionID g) w")
    have "list_all ?Q (failing (pair_of (subscriptions d) (saga_SubscriptionID g)))"
      using Cons.prems(2) StateCompensating by (intro fails_sagaI) simp_all
    from settling_mark [OF mk Cons.prems(1) this] show ?thesis
      using StateCompensating mk
      by (auto simp: sweep_saga_def split: sum.split intro: settling_update [OF prod.collapse [symmetric]])
  qed (use Cons.prems(1) in \<open>simp_all add: sweep_saga_def\<close>)
  then show ?case using Cons by simp
qed simp

lemma Sweep_registry:
  assumes "Sweep E (MarkFailed E) stale w = (r, w')" and "db_ok (db w)"
  shows "caused_by (sweep_events (db w)) (db w) (db w')"
proof -
  obtain q w2 where f: "FindResumable E (time_Now E (hist w) - sint stale) (logged TimeNow w) = (q, w2)"
    by (cases "FindResumable E (time_Now E (hist w) - sint stale) (logged TimeNow w)")
  have w2: "db w2 = db w" using FindResumable_db [OF f] by simp
  have refl: "settling Q (db w) (db w2)" for Q using settling_refl [OF assms(2)] w2 by simp
  show ?thesis
  proof (cases q)
    case (Inl e)
    then have "db w' = db w" using assms(1) f w2 by (auto simp: Sweep_def now_def)
    then show ?thesis by (simp add: caused_by_same sweep_events_def)
  next
    case (Inr sgs)
    then have "w' = sweep_sagas E (MarkFailed E) sgs w2" "set sgs \<subseteq> set (sagas (db w))"
      using assms(1) f FindResumable_Inr [of E "time_Now E (hist w) - sint stale" "logged TimeNow w" sgs w2]
      by (auto simp: Sweep_def now_def)
    then show ?thesis using settling_sweep [OF refl, of sgs E] by (simp add: settling_def sweep_events_def [abs_def])
  qed
qed

text \<open>A saga a reply still compensates during the retries is one it compensated at the start.\<close>

lemma compensates_back:
  assumes "sagas_moved (sagas d) (sagas d')" "reply_saga E rep d' = Some g'" "compensates rep g'" "sagas_ok (sagas d)"
  shows "\<exists>g. reply_saga E rep d = Some g \<and> compensates rep g \<and> saga_SubscriptionID g = saga_SubscriptionID g'"
proof -
  obtain u where u: "pg_uuid E (rep_SagaID rep) = Some u" "lookup_by saga_ID u (sagas d') = Some g'"
    using assms(2) by (auto simp: reply_saga_def split: option.splits)
  then have g': "g' \<in> set (sagas d')" "saga_ID g' = u" using lookup_by_SomeD [OF u(2)] by simp_all
  then obtain g where g: "g \<in> set (sagas d)" "saga_moved g g'" using sagas_moved_back [OF assms(1)] by blast
  then have "lookup_by saga_ID u (sagas d) = Some g"
    using assms(4) g'(2) by (intro lookup_by_eq_Some) (auto simp: sagas_ok_def saga_moved_def)
  moreover have "compensates rep g"
    using assms(3) g(2) by (cases "saga_State g") (auto simp: compensates_def saga_moved_def)
  ultimately show ?thesis using u(1) g(2) by (auto simp: reply_saga_def saga_moved_def)
qed

lemma handleWithRetry_registry:
  assumes run: "handleWithRetry E (MarkFailed E) body w = (r, w')" and d: "db_ok (db w)" and E: "uuid_column E"
  shows "caused_by (reply_events E body (db w)) (db w) (db w')"
proof -
  let ?P = "\<lambda>g. \<exists>rep. unmarshal_SagaReply body = Inr rep \<and> reply_saga E rep (db w) = Some g \<and> compensates rep g"
  let ?Q = "fails_saga ?P (db w)"
  have "db_ok (db w') \<and> sagas_moved (sagas (db w)) (sagas (db w')) \<and> settling ?Q (db w) (db w')"
  proof (rule store_compensator.handle_attempts_keeps [OF run [unfolded handleWithRetry_def],
        where P = "\<lambda>d. db_ok d \<and> sagas_moved (sagas (db w)) (sagas d) \<and> settling ?Q (db w) d"])
    show "db_ok (db w) \<and> sagas_moved (sagas (db w)) (sagas (db w)) \<and> settling ?Q (db w) (db w)"
      using d settling_refl by simp
  next
    fix v q v'
    assume v: "db_ok (db v) \<and> sagas_moved (sagas (db w)) (sagas (db v)) \<and> settling ?Q (db w) (db v)"
      and h: "HandleReply E (MarkFailed E) body v = (q, v')"
    have "settling ?Q (db w) (db v')"
      using h
    proof (cases rule: HandleReplyE)
      case (complete rep sg w1 p)
      then show ?thesis using settling_update [OF complete(5)] v by simp
    next
      case (undo rep sg w1)
      obtain g where g: "reply_saga E rep (db w) = Some g" "compensates rep g" "saga_SubscriptionID g = saga_SubscriptionID sg"
        using compensates_back [OF _ undo(2,3), of "db w"] v d by (auto simp: db_ok_def)
      then have "g \<in> set (sagas (db w))" by (auto simp: reply_saga_def split: option.splits dest: lookup_by_SomeD)
      then have "list_all ?Q (failing (pair_of (subscriptions (db w)) (saga_SubscriptionID g)))"
        using g(1,2) undo(1) by (intro fails_sagaI) auto
      then show ?thesis using settling_compensate [OF undo(5)] undo(4) v g(3) by simp
    qed (use v in simp_all)
    then show "db_ok (db v') \<and> sagas_moved (sagas (db w)) (sagas (db v')) \<and> settling ?Q (db w) (db v')"
      using v grows_ok [OF store_compensator.HandleReply_grows [OF h]] store_compensator.HandleReply_moves [OF h E]
        sagas_moved_trans by (auto simp: db_ok_def)
  qed
  then show ?thesis by (simp add: settling_def reply_events_def [abs_def])
qed

text \<open>Reviving is guarded by the statement itself, whatever the caller looked up before.\<close>

lemma ReactivateInTx_registry:
  assumes "ReactivateInTx E ext n token w = (r, w')" and d: "db_ok (db w)"
  shows "caused_by (revive_events n token (subscriptions (db w))) (db w) (db w')"
proof -
  let ?P = "\<lambda>s. sub_ID s = n \<and> sub_Status s = StatusFailed"
  have "subscriptions (db w') = subscriptions (db w) \<or> (\<exists>s\<in>set (subscriptions (db w)). ?P s) \<and>
      subscriptions (db w') = upd_rows ?P (reactivate_row token) (subscriptions (db w))"
  proof -
    obtain q where run: "run_stmt E ext ''UPDATE subscriptions SET token, confirmed, status WHERE id AND status''
        (reactivate_stmt n token) w = (q, w')"
      using assms(1) by (auto simp: ReactivateInTx_def split: prod.splits sum.splits if_splits)
    show ?thesis
      by (rule run_stmt_keeps [OF run, where P = "\<lambda>d. subscriptions d = subscriptions (db w) \<or>
          (\<exists>s\<in>set (subscriptions (db w)). ?P s) \<and>
          subscriptions d = upd_rows ?P (reactivate_row token) (subscriptions (db w))"])
        (auto simp: reactivate_stmt_def Let_def affected_0_iff)
  qed
  then show ?thesis
  proof (elim disjE conjE bexE)
    assume "subscriptions (db w') = subscriptions (db w)"
    then show ?thesis by (intro caused_by_same) (simp_all add: revive_events_def)
  next
    fix s assume s: "s \<in> set (subscriptions (db w))" "sub_ID s = n" "sub_Status s = StatusFailed"
      and eq: "subscriptions (db w') = upd_rows ?P (reactivate_row token) (subscriptions (db w))"
    note ds = db_ok_subs [OF d]
    have "revive_events n token (subscriptions (db w)) [Revived (email_repo s) token]"
      using pair_of_in [OF _ s(1)] ds s(2) by (simp add: revive_events_def)
    then show ?thesis using revived_moves [OF _ _ s, of token] ds eq by (intro caused_byI) simp_all
  qed
qed

text \<open>The relay, the scanner and the notifier leave the table alone.\<close>

lemma drain_messages_subs: "subscriptions (db (drain_messages (main_relay E i) ms w)) = subscriptions (db w)"
proof (induction ms arbitrary: w)
  case (Cons m ms)
  obtain r w1 where pub: "Publish E (msg_RoutingKey m) (msg_MessageID m) (msg_Payload m) w = (r, w1)"
    by (cases "Publish E (msg_RoutingKey m) (msg_MessageID m) (msg_Payload m) w")
  have w1: "db w1 = db w" using pub PublishWithContext_frame(1) [of E _ w] unfolding Publish_def by (metis snd_conv)
  obtain q w2 where mk: "MarkPublished E (msg_ID m) w1 = (q, w2)" by (cases "MarkPublished E (msg_ID m) w1")
  have "subscriptions (db w2) = subscriptions (db w1)"
    using mk unfolding MarkPublished_def
    by (auto split: prod.splits sum.splits simp: mark_stmt_def
        elim!: run_stmt_keeps [where P = "\<lambda>d. subscriptions d = subscriptions (db w1)"])
  then show ?case using Cons.IH [of w2] pub mk w1 by (auto simp: main_relay_def NewRelay_def split: sum.splits)
qed simp

lemma drain_subs: "subscriptions (db (drain (main_relay E i) w)) = subscriptions (db w)"
proof -
  obtain r w1 where f: "FetchUnpublished E 100 w = (r, w1)" by (cases "FetchUnpublished E 100 w")
  have "drain (main_relay E i) w = (case r of Inl _ \<Rightarrow> w1 | Inr ms \<Rightarrow> drain_messages (main_relay E i) ms w1)"
    using f by (simp add: drain_def main_relay_def NewRelay_def split: sum.split)
  then show ?thesis using FetchUnpublished_db [OF f] by (auto simp: drain_messages_subs split: sum.splits)
qed

end
