(* ===== verification/Recovery.thy ===== *)
theory Recovery
  imports Saga_System
begin

text \<open>
  A confirmation that got stuck is delivered in the end: one sweep, one drain of the relay, one
  delivery to the notifier and one saga reply bring a stale saga to its completion when the
  database, the broker and the mail server work. Redis may answer what it likes.
\<close>

section \<open>The outside works\<close>

definition amqp_up :: "env \<Rightarrow> bool" where
  "amqp_up E \<longleftrightarrow> (\<forall>h p. amqp_Publish E h p = None)"

definition mail_up :: "env \<Rightarrow> bool" where
  "mail_up E \<longleftrightarrow> (\<forall>h m. smtp_SendMail E h m = None)"

text \<open>What the broker delivers for a command of the outbox.\<close>

definition delivery_of :: "Message \<Rightarrow> delivery" where
  "delivery_of m = \<lparr>d_RoutingKey = msg_RoutingKey m, d_MessageId = msg_MessageID m, d_Body = msg_Payload m\<rparr>"

section \<open>The sweep\<close>

text \<open>A sweep changes no saga but compensating ones.\<close>

lemma sweep_sagas_keeps:
  assumes "g \<in> set (sagas (db w))"
    and "\<And>x. x \<in> set sgs \<Longrightarrow> pg_uuid E (saga_ID x) = Some (saga_ID x) \<and>
       (saga_ID x = saga_ID g \<longrightarrow> saga_State x \<noteq> StateCompensating)"
  shows "g \<in> set (sagas (db (sweep_sagas E (MarkFailed E) sgs w)))"
  using assms
proof (induction sgs arbitrary: w)
  case (Cons x sgs)
  have "g \<in> set (sagas (db (sweep_saga E (MarkFailed E) x w)))"
    using store_compensator.sweep_saga_sagas [of E x E w] Cons.prems(1) Cons.prems(2) [of x]
    by (auto simp: set_upd_rows)
  then show ?case using Cons.IH Cons.prems(2) by simp
qed simp

lemma Sweep_requeues:
  assumes run: "Sweep E (MarkFailed E) stale w = (r, w')" and up: "pg_up E" "uuid_column E"
    and inv: "sys_inv E True (db w)"
    and g: "g \<in> set (sagas (db w))" "saga_State g = StateSubscriptionCreated"
      "resumable (time_Now E (hist w) - sint stale) g"
    and few: "length (filter (resumable (time_Now E (hist w) - sint stale)) (sagas (db w))) \<le> 100"
  shows "sys_inv E True (db w') \<and> g \<in> set (sagas (db w')) \<and> (\<exists>m\<in>set (pending_msgs w'). covers E g m)"
proof -
  have ok: "db_ok (db w)" "saga_ids_canonical E (db w)" using inv by (simp_all add: sys_inv_def)
  have inv': "sys_inv E True (db w')" using Sweep_evo [OF run, of True] inv up(2) by (simp add: evo_def)
  have swept: "swept_ok g (db w')" using Sweep_recovers [OF run up(1) ok g(1,3) few] by simp
  have g': "g \<in> set (sagas (db w'))"
    using run
  proof (cases rule: store_compensator.Sweep_cases)
    case (swept t w1 w2 gs)
    have sub: "set gs \<subseteq> set (sagas (db w))" using FindResumable_Inr [OF swept(1)] swept(2) by auto
    have same: "x = g" if "x \<in> set gs" "saga_ID x = saga_ID g" for x
      using that sub g(1) ok(1) by (auto simp: db_ok_def sagas_ok_def distinct_map inj_on_def)
    have "pg_uuid E (saga_ID x) = Some (saga_ID x) \<and> (saga_ID x = saga_ID g \<longrightarrow> saga_State x \<noteq> StateCompensating)"
      if "x \<in> set gs" for x
      using same [OF that] that sub g(2) ok(2) by (auto simp: saga_ids_canonical_def)
    then show ?thesis unfolding swept(4) by (intro sweep_sagas_keeps) (use swept(3) g(1) in auto)
  qed (use g in simp)
  then obtain m where m: "m \<in> set (outbox (db w'))" "covers E g m" using inv' by (auto simp: sys_inv_def covered_def)
  then have "msg_PublishedAt m = None" using swept g(2) by (auto simp: swept_ok_def covers_def)
  then show ?thesis using inv' g' m by (auto simp: pending_msgs_def)
qed

section \<open>The delivery\<close>

text \<open>\<open>reports E sid w w'\<close>: between \<open>w\<close> and \<open>w'\<close> the broker accepted a \<open>sent\<close> reply for the saga.\<close>

definition reports :: "string \<Rightarrow> world \<Rightarrow> world \<Rightarrow> bool" where
  "reports sid w w' \<longleftrightarrow> (\<exists>evs. hist w' = evs @ hist w \<and> AmqpPublish (saga_reply sid SagaStatusSent) True \<in> set evs)"

lemma reports_later: "reports sid w w' \<Longrightarrow> extends (hist v) (hist w) \<Longrightarrow> extends (hist w') (hist v') \<Longrightarrow> reports sid v v'"
  by (fastforce simp: reports_def extends_def)

lemma reports_logged [simp]: "reports sid w (logged (AmqpPublish (saga_reply sid SagaStatusSent) True) w)"
  by (simp add: reports_def)

lemma dispatch_up:
  assumes "amqp_up E" "mail_up E" "line_ok (smtp_from (cons_sender c))" "line_ok (cr_To req)" "cr_SagaID req \<noteq> []"
    "d_RoutingKey d = RoutingConfirm" "unmarshal_ConfirmationRequest (d_Body d) = Inr req"
  shows "\<exists>w'. dispatch E c d w = (Inr (), w') \<and> reports (cr_SagaID req) w w'"
proof -
  let ?mail = "confirmation_mail (cons_sender c) (cr_To req) (cr_ConfirmURL req)"
  have send: "SendConfirmationEmail E (cons_sender c) (cr_To req) (cr_ConfirmURL req) v = (Inr (), logged (SmtpSendMail ?mail True) v)" for v
    using assms(2-4) by (simp add: SendConfirmationEmail_def sendEmail_def SendMail_def mail_up_def) (simp add: email_of_def)
  have "send_attempts E p (SendConfirmationEmail E (cons_sender c) (cr_To req) (cr_ConfirmURL req)) n v =
      (Inr (), logged (SmtpSendMail ?mail True) v)" for n p v
    by (cases n) (simp_all add: send)
  then have "sendWithRetry E c (SendConfirmationEmail E (cons_sender c) (cr_To req) (cr_ConfirmURL req)) w =
      (Inr (), if maxAttempts c = 0 then w else logged (SmtpSendMail ?mail True) w)"
    by (simp add: sendWithRetry_def)
  then show ?thesis
    using assms(1,5-7)
    by (auto simp: dispatch_def dispatch_confirmation_def ReplyConfirmation_def PublishWithContext_def amqp_up_def reports_def)
qed

lemma process_up:
  assumes "amqp_up E" "mail_up E" "line_ok (smtp_from s)" "line_ok (cr_To req)" "cr_SagaID req \<noteq> []"
    "d_RoutingKey d = RoutingConfirm" "unmarshal_ConfirmationRequest (d_Body d) = Inr req"
  shows "\<exists>w'. process E (NewConsumer s (redisDeduper E t)) d w = (Inr (), w') \<and> reports (cr_SagaID req) w w'"
proof -
  let ?c = "NewConsumer s (redisDeduper E t)"
  have "cons_sender ?c = s" "cons_dedup ?c = redisDeduper E t" by (simp_all add: NewConsumer_def)
  then obtain w1 where w1: "dispatch E ?c d w = (Inr (), w1)" "reports (cr_SagaID req) w w1"
    using dispatch_up [of E ?c req d w] assms by auto
  have "extends (hist w1) (hist (snd (MarkProcessed (redisDeduper E t) (d_MessageId d) w1)))"
    using redis_dedup_quiet(2) by (simp add: quiet_def)
  then show ?thesis
    using w1 reports_later [OF w1(2)] by (auto simp: process_def NewConsumer_def)
qed

text \<open>Whatever Redis answers, the command is acknowledged and reported as sent.\<close>

lemma handle_up:
  assumes "amqp_up E" "mail_up E" "line_ok (smtp_from s)" "line_ok (cr_To req)" "cr_SagaID req \<noteq> []"
    "d_RoutingKey d = RoutingConfirm" "unmarshal_ConfirmationRequest (d_Body d) = Inr req"
  shows "\<exists>w'. handle E (NewConsumer s (redisDeduper E t)) d w = (Inr (), w') \<and> reports (cr_SagaID req) w w'"
proof (cases "d_MessageId d = []")
  case True
  then show ?thesis using process_up [OF assms] by (simp add: handle_def)
next
  case False
  obtain a w1 where a: "AlreadyProcessed (redisDeduper E t) (d_MessageId d) w = (a, w1)"
    by (cases "AlreadyProcessed (redisDeduper E t) (d_MessageId d) w")
  have ext: "extends (hist w) (hist w1)" using redis_dedup_quiet(1) [OF a] by (simp add: quiet_def)
  obtain w2 where p: "process E (NewConsumer s (redisDeduper E t)) d w1 = (Inr (), w2)" "reports (cr_SagaID req) w1 w2"
    using process_up [OF assms] by blast
  have again: "reports (cr_SagaID req) w1 (replyAlreadySent E d w1)"
    using assms(1,5-7) by (simp add: replyAlreadySent_def ReplyConfirmation_def PublishWithContext_def amqp_up_def)
  have h: "handle E (NewConsumer s (redisDeduper E t)) d w =
      (if a = Inr True then (Inr (), replyAlreadySent E d w1) else (Inr (), w2))"
    using False a p by (cases a) (auto simp: handle_def NewConsumer_def split: bool.splits)
  show ?thesis
    using h again p(2) by (cases "a = Inr True") (auto intro: reports_later ext)
qed

section \<open>The reply\<close>

lemma HandleReply_completes:
  assumes "pg_up E" "uuid_column E" "db_ok (db w)" "pg_uuid E sid = Some (saga_ID g)"
    "g \<in> set (sagas (db w))" "saga_State g = StateSubscriptionCreated"
  shows "\<exists>w'. HandleReply E (MarkFailed E) (pub_Body (saga_reply sid SagaStatusSent)) w = (Inr (), w') \<and>
     saga_in (saga_ID g) {StateCompleted} (db w')"
proof -
  let ?rep = "\<lparr>rep_SagaID = sid, rep_Status = SagaStatusSent\<rparr>" and ?q = "''SELECT FROM sagas WHERE id''"
  have lk: "lookup_by saga_ID (saga_ID g) (sagas (db w)) = Some g"
    using assms(3,5) by (intro lookup_by_eq_Some) (auto simp: db_ok_def sagas_ok_def)
  obtain w1 where get: "GetByID E sid w = (Inr (Some g), w1)"
    using assms(1,4) lk by (simp add: GetByID_def run_stmt_up select_saga_def)
  have w1: "db w1 = db w" using GetByID_db [OF get] .
  have u: "pg_uuid E (saga_ID g) = Some (saga_ID g)" using assms(2,4) by (auto simp: uuid_column_def)
  obtain w2 where us: "UpdateState E (saga_ID g) StateCompleted [] w1 = (Inr (), w2)"
    using UpdateState_up [OF assms(1) u, of w1] w1 assms(5) by auto
  have un: "unmarshal_SagaReply (pub_Body (saga_reply sid SagaStatusSent)) = Inr ?rep" by (simp add: saga_reply_def)
  have "HandleReply E (MarkFailed E) (pub_Body (saga_reply sid SagaStatusSent)) w = (Inr (), w2)"
    using HandleReply_eq [OF un, of E w g w1 "MarkFailed E"] get us assms(6) by (simp add: completes_def)
  then show ?thesis using UpdateState_saga_in [OF us u] by blast
qed

lemma handleWithRetry_completes:
  assumes "pg_up E" "uuid_column E" "db_ok (db w)" "pg_uuid E sid = Some (saga_ID g)"
    "g \<in> set (sagas (db w))" "saga_State g = StateSubscriptionCreated"
  shows "\<exists>w'. handleWithRetry E (MarkFailed E) (pub_Body (saga_reply sid SagaStatusSent)) w = (Inr (), w') \<and>
     saga_in (saga_ID g) {StateCompleted} (db w')"
  using HandleReply_completes [OF assms] by (auto simp: handleWithRetry_def numeral_2_eq_2)

section \<open>From the sweep to the reply\<close>

lemma stuck_saga_recovers:
  assumes up: "pg_up E" "uuid_column E" "amqp_up E" "mail_up E" "line_ok (smtp_from s)"
    and inv: "sys_inv E True (db w)"
    and g: "g \<in> set (sagas (db w))" "saga_State g = StateSubscriptionCreated" "line_ok (saga_Email g)"
      "resumable (time_Now E (hist w) - sint stale) g"
    and few: "length (filter (resumable (time_Now E (hist w) - sint stale)) (sagas (db w))) \<le> 100"
    and swept: "Sweep E (MarkFailed E) stale w = (r, w1)" "length (pending_msgs w1) \<le> 100"
  shows "\<exists>m sid w3 w4. covers E g m \<and>
     (\<exists>ms. sent_msgs (drain (main_relay E i) w1) = sent_msgs w1 @ ms \<and> (msg_RoutingKey m, msg_MessageID m, msg_Payload m) \<in> set ms) \<and>
     handle E (NewConsumer s (redisDeduper E t)) (delivery_of m) (drain (main_relay E i) w1) = (Inr (), w3) \<and>
     reports sid (drain (main_relay E i) w1) w3 \<and>
     handleWithRetry E (MarkFailed E) (pub_Body (saga_reply sid SagaStatusSent)) w3 = (Inr (), w4) \<and>
     saga_in (saga_ID g) {StateCompleted} (db w4)"
proof -
  let ?w2 = "drain (main_relay E i) w1"
  from Sweep_requeues [OF swept(1) up(1,2) inv g(1,2,4) few] obtain m where
    inv1: "sys_inv E True (db w1)" and g1: "g \<in> set (sagas (db w1))" and m: "m \<in> set (pending_msgs w1)" "covers E g m"
    by blast
  have sent: "sent_msgs ?w2 = sent_msgs w1 @ map (\<lambda>m. (msg_RoutingKey m, msg_MessageID m, msg_Payload m)) (pending_msgs w1)"
    using drain_up [OF up(1), of w1 i] up(3) inv1 swept(2) by (simp add: amqp_up_def sys_inv_def)
  obtain req where req: "unmarshal_ConfirmationRequest (msg_Payload m) = Inr req" "pg_uuid E (cr_SagaID req) = Some (saga_ID g)"
    "cr_To req = saga_Email g" "msg_RoutingKey m = RoutingConfirm" using m(2) by (auto simp: covers_def)
  have ne: "cr_SagaID req \<noteq> []" using req(2) up(2) by (auto simp: uuid_column_def)
  obtain w3 where h: "handle E (NewConsumer s (redisDeduper E t)) (delivery_of m) ?w2 = (Inr (), w3)"
    "reports (cr_SagaID req) ?w2 w3"
    using handle_up [OF up(3-5) _ ne, of "delivery_of m" t ?w2] req g(3) by (auto simp: delivery_of_def)
  have "db_ok (db ?w2)" using grows_ok [OF drain_grows] inv1 by (simp add: sys_inv_def)
  then have "db_ok (db w3)" "g \<in> set (sagas (db w3))"
    using handle_db [OF h(1)] drain_frame [of E i w1] g1 by simp_all
  from handleWithRetry_completes [OF up(1,2) this(1) req(2) this(2) g(2)] show ?thesis
    using sent m h by (intro exI [of _ m] exI [of _ "cr_SagaID req"]) auto
qed

end
