(* ===== verification/Saga_Threads.thy ===== *)
theory Saga_Threads
  imports Saga_System
begin

text \<open>
  The two background goroutines that write saga states, statement by statement: the reply consumer
  (\<open>HandleReply\<close>) and the sweeper (\<open>Sweep\<close>). A control point says which statement comes next; run
  without interruption, the control points compute \<open>HandleReply\<close> and \<open>Sweep\<close>. What a control point
  knows of the saga table is what its next statement relies on.
\<close>

section \<open>The reply consumer, statement by statement\<close>

datatype reply_pc =
    AtLoad SagaReply
  | AtComplete string
  | AtCompensate string nat
  | AtMark string nat
  | AtFail string
  | ReplyDone "gerr + unit"

definition reply_start :: "json \<Rightarrow> reply_pc" where
  "reply_start body =
     (case unmarshal_SagaReply body of
        Inl e \<Rightarrow> ReplyDone (Inl (Errorf ''decode saga reply'' e))
      | Inr rep \<Rightarrow> AtLoad rep)"

definition after_load :: "SagaReply \<Rightarrow> Saga \<Rightarrow> reply_pc" where
  "after_load rep sg =
     (if rep_Status rep = SagaStatusSent
      then (if saga_State sg = StateSubscriptionCreated then AtComplete (saga_ID sg) else ReplyDone (Inr ()))
      else if rep_Status rep = SagaStatusFailed
      then (if saga_State sg = StateSubscriptionCreated \<or> saga_State sg = StateCompensating
            then AtCompensate (saga_ID sg) (saga_SubscriptionID sg) else ReplyDone (Inr ()))
      else ReplyDone (Inr ()))"

fun reply_next :: "env \<Rightarrow> reply_pc \<Rightarrow> world \<Rightarrow> reply_pc \<times> world" where
  "reply_next E (AtLoad rep) w =
     (case GetByID E (rep_SagaID rep) w of
        (Inl e, w1) \<Rightarrow> (ReplyDone (Inl (Errorf (''load saga '' @ rep_SagaID rep) e)), w1)
      | (Inr None, w1) \<Rightarrow> (ReplyDone (Inr ()), w1)
      | (Inr (Some sg), w1) \<Rightarrow> (after_load rep sg, w1))"
| "reply_next E (AtComplete i) w =
     (case UpdateState E i StateCompleted [] w of
        (Inl e, w1) \<Rightarrow> (ReplyDone (Inl (Errorf (''complete saga '' @ i) e)), w1)
      | (Inr _, w1) \<Rightarrow> (ReplyDone (Inr ()), w1))"
| "reply_next E (AtCompensate i n) w =
     (case UpdateState E i StateCompensating ''confirmation email failed'' w of
        (Inl e, w1) \<Rightarrow> (ReplyDone (Inl (Errorf (''mark saga '' @ i @ '' compensating'') e)), w1)
      | (Inr _, w1) \<Rightarrow> (AtMark i n, w1))"
| "reply_next E (AtMark i n) w =
     (case MarkFailed E n w of
        (Inl e, w1) \<Rightarrow> (ReplyDone (Inl (Errorf (''compensate saga '' @ i) e)), w1)
      | (Inr _, w1) \<Rightarrow> (AtFail i, w1))"
| "reply_next E (AtFail i) w =
     (case UpdateState E i StateFailed ''confirmation email failed'' w of
        (Inl e, w1) \<Rightarrow> (ReplyDone (Inl (Errorf (''fail saga '' @ i) e)), w1)
      | (Inr _, w1) \<Rightarrow> (ReplyDone (Inr ()), w1))"
| "reply_next E (ReplyDone r) w = (ReplyDone r, w)"

text \<open>Four statements at most, and alone they are \<open>HandleReply\<close>.\<close>

lemma reply_alone:
  "((\<lambda>(p, v). reply_next E p v) ^^ 4) (reply_start body, w) =
     (case HandleReply E (MarkFailed E) body w of (r, w') \<Rightarrow> (ReplyDone r, w'))"
  by (simp add: numeral_eq_Suc funpow_Suc_right reply_start_def HandleReply_def after_load_def compensate_def
      del: funpow.simps split: sum.split prod.split option.split)

section \<open>The sweeper, statement by statement\<close>

datatype sweep_pc =
    AtFind int
  | AtSagas "Saga list"
  | AtSettle Saga "Saga list"
  | SweepDone "gerr + unit"

fun sweep_next :: "env \<Rightarrow> sweep_pc \<Rightarrow> world \<Rightarrow> sweep_pc \<times> world" where
  "sweep_next E (AtFind t) w =
     (case FindResumable E t w of
        (Inl e, w1) \<Rightarrow> (SweepDone (Inl e), w1)
      | (Inr gs, w1) \<Rightarrow> (AtSagas gs, w1))"
| "sweep_next E (AtSagas []) w = (SweepDone (Inr ()), w)"
| "sweep_next E (AtSagas (sg # gs)) w =
     (case saga_State sg of
        StateSubscriptionCreated \<Rightarrow> (AtSagas gs, snd (Requeue E (saga_ID sg) w))
      | StateCompensating \<Rightarrow>
          (case MarkFailed E (saga_SubscriptionID sg) w of
             (Inl _, w1) \<Rightarrow> (AtSagas gs, w1)
           | (Inr _, w1) \<Rightarrow> (AtSettle sg gs, w1))
      | _ \<Rightarrow> (AtSagas gs, w))"
| "sweep_next E (AtSettle sg gs) w =
     (AtSagas gs, snd (UpdateState E (saga_ID sg) StateFailed ''compensation finished by sweeper'' w))"
| "sweep_next E (SweepDone r) w = (SweepDone r, w)"

abbreviation sweep_iter :: "env \<Rightarrow> nat \<Rightarrow> sweep_pc \<times> world \<Rightarrow> sweep_pc \<times> world" where
  "sweep_iter E n \<equiv> (\<lambda>(p, v). sweep_next E p v) ^^ n"

lemma sweep_sagas_alone: "\<exists>n. sweep_iter E n (AtSagas gs, w) = (SweepDone (Inr ()), sweep_sagas E (MarkFailed E) gs w)"
proof (induction gs arbitrary: w)
  case Nil
  show ?case by (rule exI [of _ 1]) simp
next
  case (Cons sg gs)
  have "\<exists>k. sweep_iter E k (AtSagas (sg # gs), w) = (AtSagas gs, sweep_saga E (MarkFailed E) sg w)"
  proof (cases "saga_State sg = StateCompensating \<and> (\<exists>x w1. MarkFailed E (saga_SubscriptionID sg) w = (Inr x, w1))")
    case True
    then show ?thesis
      by (intro exI [of _ 2]) (auto simp: numeral_2_eq_2 sweep_saga_def)
  next
    case False
    then show ?thesis
      by (intro exI [of _ 1])
        (auto simp: sweep_saga_def split: saga_state.split sum.split prod.split)
  qed
  then obtain k where k: "sweep_iter E k (AtSagas (sg # gs), w) = (AtSagas gs, sweep_saga E (MarkFailed E) sg w)" ..
  from Cons.IH obtain n where "sweep_iter E n (AtSagas gs, sweep_saga E (MarkFailed E) sg w) =
      (SweepDone (Inr ()), sweep_sagas E (MarkFailed E) (sg # gs) w)" by auto
  then show ?case using k by (intro exI [of _ "n + k"]) (simp add: funpow_add)
qed

text \<open>Alone they are \<open>Sweep\<close>, which reads the clock first.\<close>

lemma sweep_alone:
  "\<exists>n. sweep_iter E n (AtFind (time_Now E (hist w) - sint stale), logged TimeNow w) =
     (case Sweep E (MarkFailed E) stale w of (r, w') \<Rightarrow> (SweepDone r, w'))"
proof -
  let ?t = "time_Now E (hist w) - sint stale"
  obtain q w2 where find: "FindResumable E ?t (logged TimeNow w) = (q, w2)"
    by (cases "FindResumable E ?t (logged TimeNow w)")
  show ?thesis
  proof (cases q)
    case (Inl e)
    then show ?thesis using find by (intro exI [of _ 1]) (simp add: Sweep_def now_def)
  next
    case (Inr gs)
    obtain n where "sweep_iter E n (AtSagas gs, w2) = (SweepDone (Inr ()), sweep_sagas E (MarkFailed E) gs w2)"
      using sweep_sagas_alone by blast
    then show ?thesis
      using Inr find by (intro exI [of _ "Suc n"]) (simp add: Sweep_def now_def funpow_Suc_right del: funpow.simps)
  qed
qed

section \<open>Everything else\<close>

text \<open>
  What everything else does to the saga table on the broker transport: it only adds rows, whose
  ids are canonical (step T1, one transaction).
\<close>

definition appends :: "env \<Rightarrow> db \<Rightarrow> db \<Rightarrow> bool" where
  "appends E d d' \<longleftrightarrow> grows d d' \<and>
     (uuid_column E \<longrightarrow> (\<exists>new. sagas d' = sagas d @ new \<and> (\<forall>g\<in>set new. pg_uuid E (saga_ID g) = Some (saga_ID g))))"

lemma appends_refl [simp]: "appends E d d"
  by (simp add: appends_def)

lemma appends_trans: "appends E x y \<Longrightarrow> appends E y z \<Longrightarrow> appends E x z"
  by (fastforce simp: appends_def intro: grows_trans)

lemma appends_frame: "grows d d' \<Longrightarrow> sagas d' = sagas d \<Longrightarrow> appends E d d'"
  by (simp add: appends_def)

lemma appends_t1:
  assumes "grows d d'" "uuid_column E \<Longrightarrow> (\<exists>n. t1_written E n email repo token url d d') \<or> sagas d' = sagas d"
  shows "appends E d d'"
  using assms by (fastforce simp: appends_def t1_written_def uuid_column_def new_saga_def)

text \<open>Confirmations and unsubscriptions leave the saga table alone on either transport.\<close>

interpretation token_appends: token_steps "main_service E tr c ca base" "appends E" for E tr c ca base
proof
  show "appends E d d" for d by simp
  show "appends E x y \<Longrightarrow> appends E y z \<Longrightarrow> appends E x z" for x y z by (rule appends_trans)
  show "svc_ConfirmSubscription (main_service E tr c ca base) token w = (rc, wc) \<Longrightarrow> appends E (db w) (db wc)" for token w rc wc
    using main_svc.confirm appends_frame by blast
  show "svc_DeleteSubscription (main_service E tr c ca base) token w = (rd, wd) \<Longrightarrow> appends E (db w) (db wd)" for token w rd wd
    using main_svc.delete appends_frame by blast
  show "svc_RegisterRepo (main_service E tr c ca base) repo w = (rr, wr) \<Longrightarrow> appends E (db w) (db wr)" for repo w rr wr
    using main_svc.register appends_frame by blast
qed

interpretation append_steps: service_steps "main_service E None c ca base" "appends E" for E c ca base
proof
  show "svc_StartConfirmation (main_service E None c ca base) email repo token url w = (rs, ws) \<Longrightarrow> appends E (db w) (db ws)"
    for email repo token url w rs ws
    using StartConfirmation_T1 [of E email repo token url w rs ws] StartConfirmation_broker_grows [of E email repo token url w rs ws]
    by (auto simp: main_service_def sender_of_def tables_same_def intro!: appends_t1 [of _ _ E email repo token url])
  show "svc_ReactivateConfirmation (main_service E None c ca base) sid email repo token url w = (ra, wa) \<Longrightarrow> appends E (db w) (db wa)"
    for sid email repo token url w ra wa
    using ReactivateConfirmation_T1 [of E sid email repo token url w ra wa] ReactivateConfirmation_broker_grows [of E sid email repo token url w ra wa]
    by (auto simp: main_service_def sender_of_def tables_same_def intro!: appends_t1 [of _ _ E email repo token url])
qed

text \<open>Requests, drains, scans and deliveries are such steps.\<close>

lemma others_append:
  "serve E cf (main_service E None c ca base) r ep w = ((rid, resp), w') \<Longrightarrow> appends E (db w) (db w')"
  "appends E (db w) (db (drain (main_relay E i) w))"
  "appends E (db w) (db (scan (main_scanner E tr c ca base i) w))"
  "handle E (NewConsumer s (redisDeduper E t)) d w = (q, w') \<Longrightarrow> appends E (db w) (db w')"
  using append_steps.serve_rel [OF main_listing_db] drain_grows drain_frame main_scan.scan_grows main_scan.scan_frame handle_db
  by (auto intro: appends_frame)

section \<open>The outcome of a saga\<close>

fun outcome_of :: "saga_state \<Rightarrow> bool option" where
  "outcome_of StateSubscriptionCreated = None"
| "outcome_of StateCompleted = Some True"
| "outcome_of StateCompensating = Some False"
| "outcome_of StateFailed = Some False"

definition undone :: "saga_state set" where
  "undone = {StateCompensating, StateFailed}"

text \<open>A saga of the table, with a canonical id, in one of the given states.\<close>

definition saga_at :: "env \<Rightarrow> string \<Rightarrow> saga_state set \<Rightarrow> db \<Rightarrow> bool" where
  "saga_at E i sts d \<longleftrightarrow> pg_uuid E i = Some i \<and> i \<in> saga_ID ` set (sagas d) \<and> saga_in i sts d"

fun reply_knows :: "env \<Rightarrow> reply_pc \<Rightarrow> db \<Rightarrow> bool" where
  "reply_knows E (AtComplete i) d = saga_at E i {StateSubscriptionCreated} d"
| "reply_knows E (AtCompensate i n) d = saga_at E i (insert StateSubscriptionCreated undone) d"
| "reply_knows E (AtMark i n) d = saga_at E i undone d"
| "reply_knows E (AtFail i) d = saga_at E i undone d"
| "reply_knows E _ d = True"

definition swept_at :: "env \<Rightarrow> db \<Rightarrow> Saga \<Rightarrow> bool" where
  "swept_at E d sg \<longleftrightarrow> saga_State sg = StateCompensating \<longrightarrow> saga_at E (saga_ID sg) undone d"

fun sweep_knows :: "env \<Rightarrow> sweep_pc \<Rightarrow> db \<Rightarrow> bool" where
  "sweep_knows E (AtSagas gs) d = (\<forall>sg\<in>set gs. swept_at E d sg)"
| "sweep_knows E (AtSettle sg gs) d = (saga_at E (saga_ID sg) undone d \<and> (\<forall>sg\<in>set gs. swept_at E d sg))"
| "sweep_knows E _ d = True"

text \<open>Between two saga tables: rows are kept in place, and a decided outcome stays.\<close>

definition decided :: "Saga \<Rightarrow> Saga \<Rightarrow> bool" where
  "decided g g' \<longleftrightarrow> saga_ID g' = saga_ID g \<and> saga_SubscriptionID g' = saga_SubscriptionID g \<and>
     (outcome_of (saga_State g) \<noteq> None \<longrightarrow> outcome_of (saga_State g') = outcome_of (saga_State g))"

definition tables_decided :: "Saga list \<Rightarrow> Saga list \<Rightarrow> bool" where
  "tables_decided gs gs' \<longleftrightarrow> (\<exists>us new. gs' = us @ new \<and> list_all2 decided gs us)"

lemma tables_decided_refl [simp]: "tables_decided gs gs"
  unfolding tables_decided_def by (intro exI [of _ gs] exI [of _ "[]"]) (simp add: list_all2_same decided_def)

lemma tables_decided_trans: "tables_decided a b \<Longrightarrow> tables_decided b c \<Longrightarrow> tables_decided a c"
  unfolding tables_decided_def by (rule list_all2_prefix_trans [of decided]) (auto simp: decided_def)

lemma tables_decided_append: "tables_decided gs (gs @ new)"
  unfolding tables_decided_def by (intro exI [of _ gs] exI [of _ new]) (simp add: list_all2_same decided_def)

lemma tables_decided_upd:
  assumes "\<And>g. g \<in> set gs \<Longrightarrow> P g \<Longrightarrow> decided g (f g)"
  shows "tables_decided gs (upd_rows P f gs)"
proof -
  have "list_all2 decided gs (upd_rows P f gs)"
    using assms by (induction gs) (auto simp: decided_def)
  then show ?thesis unfolding tables_decided_def by (metis append_Nil2)
qed

section \<open>One statement\<close>

text \<open>A statement that leaves the saga table alone.\<close>

lemma knows_same:
  assumes "sagas d' = sagas d"
  shows "saga_at E i sts d' = saga_at E i sts d" "swept_at E d' = swept_at E d"
    "reply_knows E rp d' = reply_knows E rp d" "sweep_knows E sp d' = sweep_knows E sp d"
    "saga_ids_canonical E d' = saga_ids_canonical E d"
proof -
  have at: "saga_at E i sts d' = saga_at E i sts d" for i sts using assms by (simp add: saga_at_def saga_in_def)
  have sw: "swept_at E d' = swept_at E d" by (rule ext) (simp add: swept_at_def at)
  show "saga_at E i sts d' = saga_at E i sts d" "swept_at E d' = swept_at E d" by (rule at sw)+
  show "reply_knows E rp d' = reply_knows E rp d" by (cases rp) (simp_all add: at)
  show "sweep_knows E sp d' = sweep_knows E sp d" by (cases sp) (simp_all add: at sw)
  show "saga_ids_canonical E d' = saga_ids_canonical E d" using assms by (simp add: saga_ids_canonical_def)
qed

text \<open>
  An update of the saga \<open>i\<close>, known to be in one of the states \<open>sts\<close>, to the state \<open>st\<close>. What another
  control point knows, a set \<open>T\<close> of states, survives if \<open>st\<close> is in it or the two sets exclude each other.
\<close>

definition moves_to :: "string \<Rightarrow> saga_state \<Rightarrow> db \<Rightarrow> db \<Rightarrow> bool" where
  "moves_to i st d d' \<longleftrightarrow> grows d d' \<and> (sagas d' = sagas d \<or> (\<exists>le t. sagas d' = upd_rows (\<lambda>g. saga_ID g = i)
     (\<lambda>g. g\<lparr>saga_State := st, saga_LastError := le, saga_UpdatedAt := t\<rparr>) (sagas d)))"

lemma UpdateState_moves_to:
  assumes "UpdateState E i st le w = (r, w')" "pg_uuid E i = Some u"
  shows "moves_to u st (db w) (db w')"
  using UpdateState_sagas [OF assms(1)] UpdateState_grows [OF assms(1)] assms(2) by (auto simp: moves_to_def)

lemma moves_to_at:
  assumes "moves_to i st d d'" "saga_at E j T d" "saga_at E i sts d" "st \<in> T \<or> sts \<inter> T = {}"
  shows "saga_at E j T d'"
proof -
  have ne: "st \<in> T" if "j = i"
    using that assms(2-4) by (auto simp: saga_at_def saga_in_def)
  have ids: "saga_ID ` set (sagas d') = saga_ID ` set (sagas d)"
    using assms(1) by (auto simp: moves_to_def set_map [symmetric] row_simps simp del: set_map)
  have "saga_State g \<in> T" if "g \<in> set (sagas d')" "saga_ID g = j" for g
    using that assms(1,2) ne by (auto simp: moves_to_def saga_at_def saga_in_def elim!: in_upd_rowsE)
  then show ?thesis using assms(2) ids by (simp add: saga_at_def saga_in_def)
qed

lemma moves_to_other:
  assumes "moves_to i st d d'" "saga_at E j T d" "j \<noteq> i"
  shows "saga_at E j T d'"
proof -
  have ids: "saga_ID ` set (sagas d') = saga_ID ` set (sagas d)"
    using assms(1) by (auto simp: moves_to_def set_map [symmetric] row_simps simp del: set_map)
  have "saga_State g \<in> T" if "g \<in> set (sagas d')" "saga_ID g = j" for g
    using that assms by (auto simp: moves_to_def saga_at_def saga_in_def elim!: in_upd_rowsE)
  then show ?thesis using assms(2) ids by (simp add: saga_at_def saga_in_def)
qed

lemma moves_to_sweep:
  assumes "moves_to i st d d'" "saga_at E i sts d" "st \<in> undone \<or> sts \<inter> undone = {}" "sweep_knows E sp d"
  shows "sweep_knows E sp d'"
  using assms(4) moves_to_at [OF assms(1) _ assms(2,3)] by (cases sp) (auto simp: swept_at_def)

lemma moves_to_reply:
  assumes "moves_to i StateFailed d d'" "saga_at E i undone d" "reply_knows E rp d"
  shows "reply_knows E rp d'"
  using assms(3) moves_to_at [OF assms(1) _ assms(2)] by (cases rp) (auto simp: undone_def)

lemma moves_to_decided:
  assumes "moves_to i st d d'" "saga_at E i sts d" "\<And>s. s \<in> sts \<Longrightarrow> outcome_of s \<noteq> None \<Longrightarrow> outcome_of st = outcome_of s"
  shows "tables_decided (sagas d) (sagas d')"
  using assms by (auto simp: moves_to_def saga_at_def saga_in_def decided_def intro!: tables_decided_upd)

lemma moves_to_canonical: "moves_to i st d d' \<Longrightarrow> saga_ids_canonical E d \<Longrightarrow> saga_ids_canonical E d'"
  by (auto simp: moves_to_def saga_ids_canonical_def elim!: in_upd_rowsE)

text \<open>The three updates of the code.\<close>

lemma moved_once:
  assumes mv: "moves_to i st d d'" and at: "saga_at E i sts d" and can: "saga_ids_canonical E d"
    and up: "(st, sts) \<in> {(StateCompleted, {StateSubscriptionCreated}),
       (StateCompensating, insert StateSubscriptionCreated undone), (StateFailed, undone)}"
  shows "grows d d' \<and> saga_ids_canonical E d' \<and> (\<forall>sp. sweep_knows E sp d \<longrightarrow> sweep_knows E sp d') \<and>
     tables_decided (sagas d) (sagas d')"
proof -
  have st: "st \<in> undone \<or> sts \<inter> undone = {}" using up by (auto simp: undone_def)
  have "outcome_of st = outcome_of s" if "s \<in> sts" "outcome_of s \<noteq> None" for s
    using up that by (auto simp: undone_def)
  then show ?thesis
    using moves_to_sweep [OF mv at st] moves_to_decided [OF mv at] moves_to_canonical [OF mv can] mv
    by (simp add: moves_to_def)
qed

text \<open>Rows that are added.\<close>

lemma appends_at:
  assumes "appends E d d'" "uuid_column E" "db_ok d'" "saga_at E j T d"
  shows "saga_at E j T d'"
proof -
  obtain new where new: "sagas d' = sagas d @ new" using assms(1,2) by (auto simp: appends_def)
  have "distinct (map saga_ID (sagas d @ new))" using assms(3) new by (simp add: db_ok_def sagas_ok_def)
  then have "saga_ID g \<noteq> j" if "g \<in> set new" for g
    using that assms(4) by (auto simp: saga_at_def)
  then show ?thesis using assms(4) new by (auto simp: saga_at_def saga_in_def)
qed

lemma appends_knows:
  assumes "appends E d d'" "uuid_column E" "db_ok d'"
  shows "reply_knows E rp d \<Longrightarrow> reply_knows E rp d'" "sweep_knows E sp d \<Longrightarrow> sweep_knows E sp d'"
proof -
  show "reply_knows E rp d \<Longrightarrow> reply_knows E rp d'" using appends_at [OF assms] by (cases rp) auto
  show "sweep_knows E sp d \<Longrightarrow> sweep_knows E sp d'"
    using appends_at [OF assms] by (cases sp) (auto simp: swept_at_def)
qed

text \<open>A saga that was read.\<close>

lemma loaded_at:
  assumes "g \<in> set (sagas d)" "db_ok d" "saga_ids_canonical E d" "saga_State g \<in> sts"
  shows "saga_at E (saga_ID g) sts d"
proof -
  have "saga_State x \<in> sts" if "x \<in> set (sagas d)" "saga_ID x = saga_ID g" for x
  proof -
    have "x = g" using that assms(1,2) by (auto simp: db_ok_def sagas_ok_def distinct_map inj_on_def)
    then show ?thesis using assms(4) by simp
  qed
  then show ?thesis using assms(1,3) by (auto simp: saga_at_def saga_in_def saga_ids_canonical_def)
qed

section \<open>One statement of each\<close>

lemma reply_load_step:
  assumes run: "reply_next E (AtLoad rep) w = (rp', w')"
    and ok: "db_ok (db w)" "saga_ids_canonical E (db w)"
  shows "db w' = db w \<and> reply_knows E rp' (db w)"
proof -
  obtain q w1 where get: "GetByID E (rep_SagaID rep) w = (q, w1)" by (cases "GetByID E (rep_SagaID rep) w")
  have d: "db w1 = db w" using GetByID_db [OF get] .
  have w': "w' = w1" using run get by (auto split: sum.splits option.splits)
  have "reply_knows E rp' (db w1)"
  proof (cases "\<exists>sg. q = Inr (Some sg)")
    case True
    then obtain sg where q: "q = Inr (Some sg)" ..
    then have "sg \<in> set (sagas (db w))" using GetByID_Inr [OF get [unfolded q]] by (metis lookup_by_SomeD)
    note at = loaded_at [OF this ok]
    have "rp' = after_load rep sg" using run get q by simp
    then show ?thesis using at d by (auto simp: after_load_def undone_def)
  next
    case False
    then show ?thesis using run get by (auto split: sum.splits option.splits)
  qed
  then show ?thesis using w' d by simp
qed

lemma reply_step:
  assumes run: "reply_next E rp w = (rp', w')" and uuid: "uuid_column E"
    and ok: "db_ok (db w)" "saga_ids_canonical E (db w)" and kn: "reply_knows E rp (db w)" "sweep_knows E sp (db w)"
  shows "grows (db w) (db w') \<and> saga_ids_canonical E (db w') \<and> reply_knows E rp' (db w') \<and> sweep_knows E sp (db w') \<and>
     tables_decided (sagas (db w)) (sagas (db w'))"
proof (cases rp)
  case (AtLoad rep)
  then show ?thesis using reply_load_step [OF _ ok, of rep rp' w'] run ok kn by simp
next
  case (AtComplete i)
  obtain q w1 where up: "UpdateState E i StateCompleted [] w = (q, w1)" by (cases "UpdateState E i StateCompleted [] w")
  have at: "saga_at E i {StateSubscriptionCreated} (db w)" using kn AtComplete by simp
  have w': "w' = w1" "reply_knows E rp' (db w1)" using run AtComplete up by (auto split: sum.splits)
  have mv: "moves_to i StateCompleted (db w) (db w1)" using UpdateState_moves_to [OF up] at by (simp add: saga_at_def)
  show ?thesis using w' kn moved_once [OF mv at ok(2)] by simp
next
  case (AtCompensate i n)
  let ?up = "UpdateState E i StateCompensating ''confirmation email failed'' w"
  obtain q w1 where up: "?up = (q, w1)" by (cases ?up)
  have at: "saga_at E i (insert StateSubscriptionCreated undone) (db w)" using kn AtCompensate by simp
  have mv: "moves_to i StateCompensating (db w) (db w1)" using UpdateState_moves_to [OF up] at by (simp add: saga_at_def)
  have w': "w' = w1" using run AtCompensate up by (auto split: sum.splits)
  have "saga_at E i undone (db w1)" if "q = Inr x" for x
    using UpdateState_saga_in [OF up [unfolded that]] at moves_to_at [OF mv at at]
    by (auto simp: saga_at_def saga_in_def undone_def)
  then have "reply_knows E rp' (db w1)" using run AtCompensate up by (auto split: sum.splits)
  then show ?thesis using w' kn moved_once [OF mv at ok(2)] by simp
next
  case (AtMark i n)
  obtain q w1 where mk: "MarkFailed E n w = (q, w1)" by (cases "MarkFailed E n w")
  have w': "w' = w1" and rp': "rp' = AtFail i \<or> (\<exists>x. rp' = ReplyDone x)"
    using run AtMark mk by (auto split: sum.splits)
  have same: "sagas (db w1) = sagas (db w)" using store_compensator.mark_sagas [OF mk] .
  show ?thesis
    using rp' kn AtMark ok store_compensator.mark_grows [OF mk] unfolding w' by (auto simp: knows_same [OF same] same)
next
  case (AtFail i)
  let ?up = "UpdateState E i StateFailed ''confirmation email failed'' w"
  obtain q w1 where up: "?up = (q, w1)" by (cases ?up)
  have at: "saga_at E i undone (db w)" using kn AtFail by simp
  have mv: "moves_to i StateFailed (db w) (db w1)" using UpdateState_moves_to [OF up] at by (simp add: saga_at_def)
  have w': "w' = w1" "reply_knows E rp' (db w1)" using run AtFail up by (auto split: sum.splits)
  show ?thesis using w' kn moved_once [OF mv at ok(2)] by simp
next
  case (ReplyDone r)
  then show ?thesis using run ok kn by simp
qed

lemma sweep_step:
  assumes run: "sweep_next E sp w = (sp', w')"
    and ok: "db_ok (db w)" "saga_ids_canonical E (db w)" and kn: "reply_knows E rp (db w)" "sweep_knows E sp (db w)"
  shows "grows (db w) (db w') \<and> saga_ids_canonical E (db w') \<and> reply_knows E rp (db w') \<and> sweep_knows E sp' (db w') \<and>
     tables_decided (sagas (db w)) (sagas (db w'))"
proof -
  have frame: ?thesis if "grows (db w) (db w')" "sagas (db w') = sagas (db w)" "sweep_knows E sp' (db w)"
    using that ok kn by (simp add: knows_same [OF that(2)])
  show ?thesis
  proof (cases sp)
    case (AtFind t)
    obtain q w1 where f: "FindResumable E t w = (q, w1)" by (cases "FindResumable E t w")
    have d: "db w1 = db w" using FindResumable_db [OF f] .
    have "w' = w1" using run AtFind f by (auto split: sum.splits)
    moreover have "sweep_knows E sp' (db w)"
    proof (cases q)
      case (Inr gs)
      then have "set gs \<subseteq> set (sagas (db w))" using FindResumable_Inr [OF f [unfolded Inr]] by auto
      then have "\<forall>sg\<in>set gs. swept_at E (db w) sg" using loaded_at [OF _ ok] by (auto simp: swept_at_def undone_def)
      then show ?thesis using run AtFind f Inr by auto
    qed (use run AtFind f in auto)
    ultimately show ?thesis using frame d by simp
  next
    case (AtSagas gs)
    show ?thesis
    proof (cases gs)
      case Nil
      then show ?thesis using run AtSagas by (intro frame) auto
    next
      case (Cons sg rest)
      obtain q w1 where rq: "Requeue E (saga_ID sg) w = (q, w1)" by (cases "Requeue E (saga_ID sg) w")
      obtain m w2 where mk: "MarkFailed E (saga_SubscriptionID sg) w = (m, w2)"
        by (cases "MarkFailed E (saga_SubscriptionID sg) w")
      have eff: "sagas (db w1) = sagas (db w)" "sagas (db w2) = sagas (db w)" "grows (db w) (db w1)" "grows (db w) (db w2)"
        using Requeue_effect [OF rq] store_compensator.mark_sagas [OF mk] Requeue_grows [OF rq]
          store_compensator.mark_grows [OF mk] by auto
      show ?thesis
        using run AtSagas Cons kn eff rq mk
        by (intro frame) (auto simp: swept_at_def split: saga_state.splits sum.splits)
    qed
  next
    case (AtSettle sg gs)
    let ?up = "UpdateState E (saga_ID sg) StateFailed ''compensation finished by sweeper'' w"
    obtain q w1 where up: "?up = (q, w1)" by (cases ?up)
    have at: "saga_at E (saga_ID sg) undone (db w)" using kn AtSettle by simp
    have mv: "moves_to (saga_ID sg) StateFailed (db w) (db w1)" using UpdateState_moves_to [OF up] at by (simp add: saga_at_def)
    have w': "w' = w1" "sp' = AtSagas gs" using run AtSettle up by auto
    have "sweep_knows E (AtSagas gs) (db w)" using kn AtSettle by simp
    then show ?thesis using w' kn moved_once [OF mv at ok(2)] moves_to_reply [OF mv at] by blast
  qed (use run ok kn in simp)
qed

text \<open>Which saga a statement can change.\<close>

fun reply_ids :: "env \<Rightarrow> reply_pc \<Rightarrow> string set" where
  "reply_ids E (AtLoad rep) = set_option (pg_uuid E (rep_SagaID rep))"
| "reply_ids E (AtComplete i) = {i}"
| "reply_ids E (AtCompensate i n) = {i}"
| "reply_ids E (AtMark i n) = {i}"
| "reply_ids E (AtFail i) = {i}"
| "reply_ids E (ReplyDone r) = {}"

lemma reply_effect:
  assumes "reply_next E rp w = (rp', w')" "reply_knows E rp (db w)"
  shows "reply_ids E rp' \<subseteq> reply_ids E rp \<and>
     (sagas (db w') = sagas (db w) \<or> (\<exists>i\<in>reply_ids E rp. \<exists>st. moves_to i st (db w) (db w')))"
proof (cases rp)
  case (AtLoad rep)
  obtain q w1 where get: "GetByID E (rep_SagaID rep) w = (q, w1)" by (cases "GetByID E (rep_SagaID rep) w")
  have d: "db w1 = db w" using GetByID_db [OF get] .
  have "reply_ids E rp' \<subseteq> reply_ids E rp"
  proof (cases "\<exists>sg. q = Inr (Some sg)")
    case True
    then obtain sg where q: "q = Inr (Some sg)" ..
    have "pg_uuid E (rep_SagaID rep) = Some (saga_ID sg)"
      using GetByID_Inr [OF get [unfolded q]] by (metis lookup_by_SomeD)
    moreover have "rp' = after_load rep sg" using assms(1) AtLoad get q by simp
    ultimately show ?thesis using AtLoad by (auto simp: after_load_def)
  next
    case False
    then show ?thesis using assms(1) AtLoad get by (auto split: sum.splits option.splits)
  qed
  moreover have "db w' = db w" using assms(1) AtLoad get d by (auto split: sum.splits option.splits)
  ultimately show ?thesis by simp
next
  case (AtMark i n)
  obtain q w1 where mk: "MarkFailed E n w = (q, w1)" by (cases "MarkFailed E n w")
  then show ?thesis using assms(1) AtMark store_compensator.mark_sagas [OF mk] by (auto split: sum.splits)
qed (use assms in \<open>auto simp: saga_at_def split: sum.splits prod.splits dest!: UpdateState_moves_to\<close>)

lemma sweep_effect:
  assumes "sweep_next E sp w = (sp', w')" "sweep_knows E sp (db w)"
  shows "sagas (db w') = sagas (db w) \<or> (\<exists>i. saga_at E i undone (db w) \<and> moves_to i StateFailed (db w) (db w'))"
proof (cases sp)
  case (AtFind t)
  then show ?thesis using assms(1) by (auto split: sum.splits prod.splits dest: FindResumable_db)
next
  case (AtSagas gs)
  show ?thesis
  proof (cases gs)
    case (Cons sg rest)
    obtain q w1 where rq: "Requeue E (saga_ID sg) w = (q, w1)" by (cases "Requeue E (saga_ID sg) w")
    obtain m w2 where mk: "MarkFailed E (saga_SubscriptionID sg) w = (m, w2)"
      by (cases "MarkFailed E (saga_SubscriptionID sg) w")
    have "sagas (db w1) = sagas (db w)" "sagas (db w2) = sagas (db w)"
      using Requeue_effect [OF rq] store_compensator.mark_sagas [OF mk] by auto
    then show ?thesis using assms(1) AtSagas Cons rq mk by (auto split: saga_state.splits sum.splits)
  qed (use assms(1) AtSagas in simp)
next
  case (AtSettle sg gs)
  let ?up = "UpdateState E (saga_ID sg) StateFailed ''compensation finished by sweeper'' w"
  obtain q w1 where up: "?up = (q, w1)" by (cases ?up)
  have at: "saga_at E (saga_ID sg) undone (db w)" using assms(2) AtSettle by simp
  then have "moves_to (saga_ID sg) StateFailed (db w) (db w1)" using UpdateState_moves_to [OF up] by (simp add: saga_at_def)
  then show ?thesis using assms(1) AtSettle up at by auto
qed (use assms in simp)

lemma tables_decided_lookup:
  assumes "tables_decided gs gs'" "lookup_by saga_ID u gs = Some g"
  shows "\<exists>g'. lookup_by saga_ID u gs' = Some g' \<and> decided g g'"
proof -
  obtain us new where us: "gs' = us @ new" "list_all2 decided gs us" using assms(1) by (auto simp: tables_decided_def)
  from us(2) assms(2) have "\<exists>g'. lookup_by saga_ID u us = Some g' \<and> decided g g'"
    by (induction rule: list_all2_induct) (auto simp: decided_def split: if_splits)
  then show ?thesis using us(1) by (auto simp: lookup_by_append)
qed

end
