(* ===== verification/Sync_Threads.thy ===== *)
theory Sync_Threads
  imports Saga_Threads
begin

text \<open>
  All the goroutines that write saga states, interleaved statement by statement: the reply consumer,
  the sweeper, and on the synchronous transport any number of request handlers, each between the
  commit of its step T1 and the end of \<open>dispatchSync\<close>. Everything else the processes do to the
  database happens in between.
\<close>

section \<open>A handler of the synchronous transport\<close>

datatype sync_pc =
    AtSend string nat string string string
  | SyncComplete string
  | SyncCompensate string nat
  | SyncMark string nat
  | SyncFail string
  | SyncDone "gerr + unit"

definition grpc_reason :: string where
  "grpc_reason = ''confirmation email failed (grpc)''"

fun sync_next :: "env \<Rightarrow> notifier_addr \<Rightarrow> sync_pc \<Rightarrow> world \<Rightarrow> sync_pc \<times> world" where
  "sync_next E na (AtSend i n email repo url) w =
     (case grpc_sender E (na_smtp na) (na_ttl na) email repo url w of
        (Inl _, w1) \<Rightarrow> (SyncCompensate i n, w1)
      | (Inr _, w1) \<Rightarrow> (SyncComplete i, w1))"
| "sync_next E na (SyncComplete i) w =
     (case UpdateState E i StateCompleted [] w of
        (Inl e, w1) \<Rightarrow> (SyncDone (Inl (Errorf (''complete saga '' @ i) e)), w1)
      | (Inr _, w1) \<Rightarrow> (SyncDone (Inr ()), w1))"
| "sync_next E na (SyncCompensate i n) w =
     (case UpdateState E i StateCompensating grpc_reason w of
        (Inl e, w1) \<Rightarrow> (SyncDone (Inl (Errorf (''mark saga '' @ i @ '' compensating'') e)), w1)
      | (Inr _, w1) \<Rightarrow> (SyncMark i n, w1))"
| "sync_next E na (SyncMark i n) w =
     (case MarkFailed E n w of
        (Inl e, w1) \<Rightarrow> (SyncDone (Inl (Errorf (''compensate saga '' @ i) e)), w1)
      | (Inr _, w1) \<Rightarrow> (SyncFail i, w1))"
| "sync_next E na (SyncFail i) w =
     (case UpdateState E i StateFailed grpc_reason w of
        (Inl e, w1) \<Rightarrow> (SyncDone (Inl (Errorf (''fail saga '' @ i) e)), w1)
      | (Inr _, w1) \<Rightarrow> (SyncDone (Inr ()), w1))"
| "sync_next E na (SyncDone r) w = (SyncDone r, w)"

text \<open>Alone it is \<open>dispatchSync\<close>.\<close>

lemma sync_alone:
  "((\<lambda>(p, v). sync_next E na p v) ^^ 4) (AtSend i n email repo url, w) =
     (case dispatchSync E (grpc_sender E (na_smtp na) (na_ttl na)) i n email repo url w of (r, w') \<Rightarrow> (SyncDone r, w'))"
  by (simp add: numeral_eq_Suc funpow_Suc_right dispatchSync_def compensateSync_def compensate_def grpc_reason_def
      del: funpow.simps split: sum.split prod.split)

section \<open>Interleaving\<close>

record threads =
  th_sync :: "sync_pc list"
  th_reply :: reply_pc
  th_sweep :: sweep_pc
  th_world :: world

abbreviation th_db :: "threads \<Rightarrow> db" where
  "th_db s \<equiv> db (th_world s)"

text \<open>
  \<open>C\<close> is the set of saga ids a reply can carry. A saga of the synchronous transport has no command
  in the outbox, so nobody replies to it and its id is outside \<open>C\<close>; on the broker transport \<open>C\<close> may
  be everything. A handler is added when the transaction of its step T1 has committed and the
  acknowledgement arrived.
\<close>

inductive thread_step :: "env \<Rightarrow> notifier_addr \<Rightarrow> string set \<Rightarrow> threads \<Rightarrow> threads \<Rightarrow> bool" for E na C where
  reply: "reply_next E (th_reply s) (th_world s) = (rp, w) \<Longrightarrow> thread_step E na C s (s\<lparr>th_reply := rp, th_world := w\<rparr>)"
| reply_begins: "th_reply s = ReplyDone r \<Longrightarrow> reply_ids E (reply_start body) \<subseteq> C \<Longrightarrow>
     thread_step E na C s (s\<lparr>th_reply := reply_start body\<rparr>)"
| sweep: "sweep_next E (th_sweep s) (th_world s) = (sp, w) \<Longrightarrow> thread_step E na C s (s\<lparr>th_sweep := sp, th_world := w\<rparr>)"
| sweep_begins: "th_sweep s = SweepDone r \<Longrightarrow>
     thread_step E na C s (s\<lparr>th_sweep := AtFind t, th_world := logged TimeNow (th_world s)\<rparr>)"
| sync: "k < length (th_sync s) \<Longrightarrow> sync_next E na (th_sync s ! k) (th_world s) = (h, w) \<Longrightarrow>
     thread_step E na C s (s\<lparr>th_sync := (th_sync s)[k := h], th_world := w\<rparr>)"
| sync_begins: "createSubscriptionAndSaga E email repo token rid (th_world s) = (Inr (n, i), w) \<Longrightarrow>
     pg_uuid E i \<notin> Some ` C \<Longrightarrow>
     thread_step E na C s (s\<lparr>th_sync := th_sync s @ [AtSend i n email repo url], th_world := w\<rparr>)"
| others: "appends E (th_db s) (db w) \<Longrightarrow> thread_step E na C s (s\<lparr>th_world := w\<rparr>)"

inductive_cases thread_stepE: "thread_step E na C s s'"

section \<open>The invariant\<close>

text \<open>The saga a handler still works on, and the states that saga can be in.\<close>

fun sync_id :: "sync_pc \<Rightarrow> string option" where
  "sync_id (AtSend i n email repo url) = Some i"
| "sync_id (SyncComplete i) = Some i"
| "sync_id (SyncCompensate i n) = Some i"
| "sync_id (SyncMark i n) = Some i"
| "sync_id (SyncFail i) = Some i"
| "sync_id (SyncDone r) = None"

fun sync_states :: "sync_pc \<Rightarrow> saga_state set" where
  "sync_states (SyncMark i n) = undone"
| "sync_states (SyncFail i) = undone"
| "sync_states _ = {StateSubscriptionCreated}"

definition owns :: "env \<Rightarrow> sync_pc \<Rightarrow> string set" where
  "owns E h = (case sync_id h of None \<Rightarrow> {} | Some i \<Rightarrow> set_option (pg_uuid E i))"

definition sync_knows :: "env \<Rightarrow> sync_pc \<Rightarrow> db \<Rightarrow> bool" where
  "sync_knows E h d \<longleftrightarrow> (\<forall>u\<in>owns E h. saga_at E u (sync_states h) d)"

definition apart :: "env \<Rightarrow> sync_pc list \<Rightarrow> bool" where
  "apart E hs \<longleftrightarrow> (\<forall>j k. j < length hs \<and> k < length hs \<and> j \<noteq> k \<longrightarrow> owns E (hs ! j) \<inter> owns E (hs ! k) = {})"

definition thread_inv :: "env \<Rightarrow> string set \<Rightarrow> threads \<Rightarrow> bool" where
  "thread_inv E C s \<longleftrightarrow> db_ok (th_db s) \<and> saga_ids_canonical E (th_db s) \<and>
     reply_knows E (th_reply s) (th_db s) \<and> reply_ids E (th_reply s) \<subseteq> C \<and>
     sweep_knows E (th_sweep s) (th_db s) \<and>
     (\<forall>h\<in>set (th_sync s). sync_knows E h (th_db s) \<and> owns E h \<inter> C = {}) \<and> apart E (th_sync s)"

section \<open>What a statement of one goroutine means for another\<close>

lemma saga_at_mono: "saga_at E u T d \<Longrightarrow> T \<subseteq> T' \<Longrightarrow> saga_at E u T' d"
  by (auto simp: saga_at_def saga_in_def)

lemma sync_knows_same:
  assumes "sagas d' = sagas d"
  shows "sync_knows E h d' = sync_knows E h d"
  by (simp add: sync_knows_def knows_same(1) [OF assms])

lemma sync_knows_other: "moves_to i st d d' \<Longrightarrow> i \<notin> owns E h \<Longrightarrow> sync_knows E h d \<Longrightarrow> sync_knows E h d'"
  unfolding sync_knows_def using moves_to_other by metis

lemma sync_knows_sweep:
  assumes "moves_to i StateFailed d d'" "saga_at E i undone d" "sync_knows E h d"
  shows "sync_knows E h d'"
proof -
  have "StateFailed \<in> sync_states h \<or> undone \<inter> sync_states h = {}" by (cases h) (auto simp: undone_def)
  then show ?thesis using assms(3) moves_to_at [OF assms(1) _ assms(2)] by (auto simp: sync_knows_def)
qed

lemma sync_knows_appends:
  "appends E d d' \<Longrightarrow> uuid_column E \<Longrightarrow> db_ok d' \<Longrightarrow> sync_knows E h d \<Longrightarrow> sync_knows E h d'"
  unfolding sync_knows_def using appends_at by metis

lemma reply_knows_other:
  "moves_to i st d d' \<Longrightarrow> i \<notin> reply_ids E rp \<Longrightarrow> reply_knows E rp d \<Longrightarrow> reply_knows E rp d'"
  using moves_to_other by (cases rp) auto

text \<open>The updates of a handler.\<close>

lemma sync_update:
  assumes up: "UpdateState E i st le w = (q, w1)" and can: "saga_ids_canonical E (db w)"
    and at: "\<And>u. pg_uuid E i = Some u \<Longrightarrow> saga_at E u sts (db w)"
    and edge: "(st, sts) \<in> {(StateCompleted, {StateSubscriptionCreated}),
       (StateCompensating, insert StateSubscriptionCreated undone), (StateFailed, undone)}"
  shows "grows (db w) (db w1) \<and> saga_ids_canonical E (db w1) \<and> (\<forall>sp. sweep_knows E sp (db w) \<longrightarrow> sweep_knows E sp (db w1)) \<and>
     tables_decided (sagas (db w)) (sagas (db w1)) \<and>
     (sagas (db w1) = sagas (db w) \<or> (\<exists>u. pg_uuid E i = Some u \<and> moves_to u st (db w) (db w1)))"
proof (cases "pg_uuid E i")
  case None
  then have same: "sagas (db w1) = sagas (db w)" using UpdateState_sagas [OF up] by auto
  then show ?thesis using can UpdateState_grows [OF up] by (simp add: knows_same [OF same])
next
  case (Some u)
  then have mv: "moves_to u st (db w) (db w1)" using UpdateState_moves_to [OF up] by simp
  then show ?thesis using moved_once [OF mv at [OF Some] can edge] Some by blast
qed

lemma owns_simps [simp]:
  "owns E (AtSend i n email repo url) = set_option (pg_uuid E i)" "owns E (SyncComplete i) = set_option (pg_uuid E i)"
  "owns E (SyncCompensate i n) = set_option (pg_uuid E i)" "owns E (SyncMark i n) = set_option (pg_uuid E i)"
  "owns E (SyncFail i) = set_option (pg_uuid E i)" "owns E (SyncDone r) = {}"
  by (simp_all add: owns_def)

lemma sync_step:
  assumes run: "sync_next E na h w = (h', w')" and can: "saga_ids_canonical E (db w)" and kn: "sync_knows E h (db w)"
  shows "grows (db w) (db w') \<and> saga_ids_canonical E (db w') \<and> (\<forall>sp. sweep_knows E sp (db w) \<longrightarrow> sweep_knows E sp (db w')) \<and>
     tables_decided (sagas (db w)) (sagas (db w')) \<and> owns E h' \<subseteq> owns E h \<and> sync_knows E h' (db w') \<and>
     (sagas (db w') = sagas (db w) \<or> (\<exists>u\<in>owns E h. \<exists>st. moves_to u st (db w) (db w')))"
proof (cases h)
  case (AtSend i n email repo url)
  obtain q w1 where sd: "grpc_sender E (na_smtp na) (na_ttl na) email repo url w = (q, w1)"
    by (cases "grpc_sender E (na_smtp na) (na_ttl na) email repo url w")
  have "db w' = db w" using run AtSend sd grpc.send_db [OF sd] by (cases q) auto
  moreover have "h' = SyncCompensate i n \<or> h' = SyncComplete i" using run AtSend sd by (cases q) auto
  ultimately show ?thesis using can kn AtSend by (auto simp: sync_knows_def)
next
  case (SyncComplete i)
  obtain q w1 where up: "UpdateState E i StateCompleted [] w = (q, w1)" by (cases "UpdateState E i StateCompleted [] w")
  have "w' = w1" "owns E h' = {}" using run SyncComplete up by (cases q; auto)+
  then show ?thesis
    using sync_update [OF up can, of "{StateSubscriptionCreated}"] kn SyncComplete by (auto simp: sync_knows_def)
next
  case (SyncCompensate i n)
  let ?up = "UpdateState E i StateCompensating grpc_reason w"
  obtain q w1 where up: "?up = (q, w1)" by (cases ?up)
  have at: "saga_at E u (insert StateSubscriptionCreated undone) (db w)" if "pg_uuid E i = Some u" for u
    using kn SyncCompensate that by (auto simp: sync_knows_def intro: saga_at_mono)
  have w': "w' = w1" "h' = SyncMark i n \<and> (\<exists>x. q = Inr x) \<or> owns E h' = {}" using run SyncCompensate up by (cases q; auto)+
  have "saga_at E u undone (db w1)" if "q = Inr x" "pg_uuid E i = Some u" for x u
  proof -
    have "saga_at E u (insert StateSubscriptionCreated undone) (db w1)"
      using moves_to_at [OF UpdateState_moves_to [OF up that(2)] at [OF that(2)] at [OF that(2)]] by (simp add: undone_def)
    then show ?thesis
      using UpdateState_saga_in [OF up [unfolded that(1)] that(2)] by (auto simp: saga_at_def saga_in_def undone_def)
  qed
  then show ?thesis
    using w' sync_update [OF up can at] SyncCompensate by (auto simp: sync_knows_def)
next
  case (SyncMark i n)
  obtain q w1 where mk: "MarkFailed E n w = (q, w1)" by (cases "MarkFailed E n w")
  have same: "sagas (db w1) = sagas (db w)" using store_compensator.mark_sagas [OF mk] .
  have "w' = w1" "h' = SyncFail i \<or> owns E h' = {}" using run SyncMark mk by (cases q; auto)+
  then show ?thesis
    using kn SyncMark can store_compensator.mark_grows [OF mk] same by (auto simp: sync_knows_def knows_same [OF same])
next
  case (SyncFail i)
  let ?up = "UpdateState E i StateFailed grpc_reason w"
  obtain q w1 where up: "?up = (q, w1)" by (cases ?up)
  have "w' = w1" "owns E h' = {}" using run SyncFail up by (cases q; auto)+
  then show ?thesis
    using sync_update [OF up can, of undone] kn SyncFail by (auto simp: sync_knows_def)
next
  case (SyncDone r)
  then show ?thesis using run can kn by auto
qed

section \<open>Every interleaving\<close>

text \<open>The row a committed step T1 of the synchronous transport adds.\<close>

lemma sync_t1:
  assumes "createSubscriptionAndSaga E email repo token rid w = (Inr (n, i), w')"
  obtains u g where "pg_uuid E i = Some u" "u \<notin> saga_ID ` set (sagas (db w))" "sagas (db w') = sagas (db w) @ [g]"
    "saga_ID g = u" "saga_State g = StateSubscriptionCreated" "grows (db w) (db w')"
  using createSubscriptionAndSaga_T1 [OF assms] createSubscriptionAndSaga_grows [OF assms]
  by (auto simp: new_saga_def)

lemma sync_t1_appends:
  assumes "createSubscriptionAndSaga E email repo token rid w = (Inr (n, i), w')"
  shows "appends E (db w) (db w')"
  using assms by (rule sync_t1) (auto simp: appends_def uuid_column_def)

lemma apart_update:
  assumes "apart E hs" "k < length hs" "owns E h \<subseteq> owns E (hs ! k)"
  shows "apart E (hs[k := h])"
proof -
  have "owns E (hs[k := h] ! j) \<subseteq> owns E (hs ! j)" if "j < length hs" for j
    using assms(2,3) that by (cases "j = k") simp_all
  then show ?thesis using assms(1) unfolding apart_def length_list_update by blast
qed

lemma apart_snoc:
  assumes "apart E hs" "\<And>h. h \<in> set hs \<Longrightarrow> owns E h \<inter> owns E h' = {}"
  shows "apart E (hs @ [h'])"
proof -
  have "owns E ((hs @ [h']) ! j) \<inter> owns E ((hs @ [h']) ! k) = {}" if "j < Suc (length hs)" "k < Suc (length hs)" "j \<noteq> k" for j k
  proof -
    consider "j < length hs" "k < length hs" | "j = length hs" "k < length hs" | "j < length hs" "k = length hs"
      using \<open>j < Suc (length hs)\<close> \<open>k < Suc (length hs)\<close> \<open>j \<noteq> k\<close> by linarith
    then show ?thesis
      using assms(1) \<open>j \<noteq> k\<close> assms(2) [OF nth_mem, of j] assms(2) [OF nth_mem, of k]
      by cases (auto simp: apart_def nth_append)
  qed
  then show ?thesis by (simp add: apart_def)
qed

lemma apart_other:
  assumes "apart E hs" "k < length hs" "h \<in> set (hs[k := x])" "h \<noteq> x"
  shows "h \<in> set hs \<and> owns E h \<inter> owns E (hs ! k) = {}"
proof -
  obtain j where j: "j < length hs" "(hs[k := x]) ! j = h" using assms(3) by (auto simp: in_set_conv_nth)
  then have "j \<noteq> k" using assms(2,4) by auto
  then show ?thesis using j assms(1,2) by (auto simp: apart_def)
qed

lemma sync_thread_step:
  assumes inv: "thread_inv E C s" and k: "k < length (th_sync s)"
    and run: "sync_next E na (th_sync s ! k) (th_world s) = (h, w)"
  shows "thread_inv E C (s\<lparr>th_sync := (th_sync s)[k := h], th_world := w\<rparr>) \<and> tables_decided (sagas (th_db s)) (sagas (db w))"
proof -
  let ?h = "th_sync s ! k"
  have h: "?h \<in> set (th_sync s)" using k by simp
  then have kn: "sync_knows E ?h (th_db s)" "owns E ?h \<inter> C = {}" and can: "saga_ids_canonical E (th_db s)"
    using inv by (auto simp: thread_inv_def)
  note st = sync_step [OF run can kn(1)]
  have eff: "sagas (db w) = sagas (th_db s) \<or> (\<exists>u\<in>owns E ?h. \<exists>st. moves_to u st (th_db s) (db w))" using st by blast
  have "reply_knows E (th_reply s) (db w)"
    using eff inv kn(2) reply_knows_other knows_same(3) unfolding thread_inv_def by blast
  moreover have "sync_knows E x (db w) \<and> owns E x \<inter> C = {}" if x: "x \<in> set ((th_sync s)[k := h])" for x
  proof (cases "x = h")
    case True
    then show ?thesis using st kn(2) by blast
  next
    case False
    then have "x \<in> set (th_sync s)" "owns E x \<inter> owns E ?h = {}"
      using apart_other [OF _ k x] inv by (auto simp: thread_inv_def)
    then show ?thesis
      using eff inv sync_knows_other sync_knows_same unfolding thread_inv_def by blast
  qed
  moreover have "apart E ((th_sync s)[k := h])" using apart_update [OF _ k] st inv by (simp add: thread_inv_def)
  ultimately show ?thesis using st inv grows_ok by (auto simp: thread_inv_def)
qed

lemma appends_thread_step:
  assumes inv: "thread_inv E C s" and uuid: "uuid_column E" and app: "appends E (th_db s) (db w)"
  shows "thread_inv E C (s\<lparr>th_world := w\<rparr>) \<and> tables_decided (sagas (th_db s)) (sagas (db w))"
proof -
  obtain new where new: "sagas (db w) = sagas (th_db s) @ new" "\<forall>g\<in>set new. pg_uuid E (saga_ID g) = Some (saga_ID g)"
    and g: "grows (th_db s) (db w)" using app uuid by (auto simp: appends_def)
  have ok: "db_ok (db w)" using grows_ok [OF g] inv by (simp add: thread_inv_def)
  have "saga_ids_canonical E (db w)" using inv new by (auto simp: thread_inv_def saga_ids_canonical_def)
  then show ?thesis
    using appends_knows [OF app uuid ok] sync_knows_appends [OF app uuid ok] ok inv tables_decided_append new(1)
    by (simp add: thread_inv_def)
qed

lemma thread_step_inv:
  assumes "thread_step E na C s s'" "thread_inv E C s" "uuid_column E"
  shows "thread_inv E C s' \<and> tables_decided (sagas (th_db s)) (sagas (th_db s'))"
  using assms(1)
proof cases
  case (reply rp w)
  have kn: "db_ok (th_db s)" "saga_ids_canonical E (th_db s)" "reply_knows E (th_reply s) (th_db s)"
    "sweep_knows E (th_sweep s) (th_db s)" using assms(2) by (simp_all add: thread_inv_def)
  note st = reply_step [OF reply(2) assms(3) kn] and ef = reply_effect [OF reply(2) kn(3)]
  have "sync_knows E h (db w)" if "h \<in> set (th_sync s)" for h
    using ef that assms(2) sync_knows_other sync_knows_same unfolding thread_inv_def by blast
  then show ?thesis using reply(1) st ef assms(2) grows_ok by (auto simp: thread_inv_def)
next
  case (reply_begins r body)
  have "reply_knows E (reply_start body) d" for d by (simp add: reply_start_def split: sum.split)
  then show ?thesis using reply_begins assms(2) by (simp add: thread_inv_def)
next
  case (sweep sp w)
  have kn: "db_ok (th_db s)" "saga_ids_canonical E (th_db s)" "reply_knows E (th_reply s) (th_db s)"
    "sweep_knows E (th_sweep s) (th_db s)" using assms(2) by (simp_all add: thread_inv_def)
  note st = sweep_step [OF sweep(2) kn] and ef = sweep_effect [OF sweep(2) kn(4)]
  have "sync_knows E h (db w)" if "h \<in> set (th_sync s)" for h
    using ef that assms(2) sync_knows_sweep sync_knows_same unfolding thread_inv_def by blast
  then show ?thesis using sweep(1) st assms(2) grows_ok by (auto simp: thread_inv_def)
next
  case (sweep_begins r t)
  then show ?thesis using assms(2) by (simp add: thread_inv_def)
next
  case (sync k h w)
  then show ?thesis using sync_thread_step [OF assms(2)] by simp
next
  case (sync_begins email repo token rid n i w url)
  let ?h = "AtSend i n email repo url" and ?s = "s\<lparr>th_world := w\<rparr>"
  obtain u g where u: "pg_uuid E i = Some u" "u \<notin> saga_ID ` set (sagas (th_db s))" "sagas (db w) = sagas (th_db s) @ [g]"
    "saga_ID g = u" "saga_State g = StateSubscriptionCreated" using sync_begins(2) by (rule sync_t1)
  note ap = appends_thread_step [OF assms(2,3) sync_t1_appends [OF sync_begins(2)]]
  have old: "owns E h \<inter> owns E ?h = {}" if "h \<in> set (th_sync s)" for h
    using that assms(2) u(1,2) by (auto simp: thread_inv_def sync_knows_def saga_at_def)
  have "saga_ID x \<noteq> u" if "x \<in> set (sagas (th_db s))" for x using u(2) that by blast
  then have "saga_at E u {StateSubscriptionCreated} (db w)"
    using u(1,3-5) assms(3) by (auto simp: saga_at_def saga_in_def uuid_column_def)
  then have "sync_knows E ?h (db w)" "owns E ?h \<inter> C = {}" using u(1) sync_begins(3) by (auto simp: sync_knows_def)
  moreover have "apart E (th_sync s @ [?h])" using apart_snoc old assms(2) by (simp add: thread_inv_def)
  ultimately show ?thesis using ap sync_begins(1) by (auto simp: thread_inv_def)
next
  case (others w)
  then show ?thesis using appends_thread_step [OF assms(2,3)] by simp
qed

lemma thread_steps_inv:
  assumes "(thread_step E na C)\<^sup>*\<^sup>* s s'" "thread_inv E C s" "uuid_column E"
  shows "thread_inv E C s' \<and> tables_decided (sagas (th_db s)) (sagas (th_db s'))"
  using assms(1)
proof (induction rule: rtranclp_induct)
  case (step y z)
  then show ?case using thread_step_inv [OF step(2) _ assms(3)] tables_decided_trans by blast
qed (use assms(2) in simp)

section \<open>The steps of the synchronous transport\<close>

definition two_threads :: "reply_pc \<Rightarrow> sweep_pc \<Rightarrow> world \<Rightarrow> threads" where
  "two_threads rp sp w = \<lparr>th_sync = [], th_reply = rp, th_sweep = sp, th_world = w\<rparr>"

lemma two_threads_simps [simp]: "th_world (two_threads rp sp w) = w"
  by (simp add: two_threads_def)

lemma two_threads_reply:
  "reply_next E rp w = (rp', w') \<Longrightarrow> thread_step E na C (two_threads rp sp w) (two_threads rp' sp w')"
  using thread_step.reply [of E "two_threads rp sp w" rp' w'] by (simp add: two_threads_def)

lemma two_threads_sweep:
  "sweep_next E sp w = (sp', w') \<Longrightarrow> thread_step E na C (two_threads rp sp w) (two_threads rp sp' w')"
  using thread_step.sweep [of E "two_threads rp sp w" sp' w'] by (simp add: two_threads_def)

definition idle_threads :: "world \<Rightarrow> threads" where
  "idle_threads w = \<lparr>th_sync = [], th_reply = ReplyDone (Inr ()), th_sweep = SweepDone (Inr ()), th_world = w\<rparr>"

lemma create_appends:
  assumes "createSubscriptionAndSaga E email repo token rid w = (r, w')"
  shows "appends E (db w) (db w')"
  using createSubscriptionAndSaga_T1 [OF assms] createSubscriptionAndSaga_grows [OF assms]
  by (auto simp: appends_def tables_same_def uuid_column_def new_saga_def)

text \<open>
  An uninterrupted \<open>startConfirmationSync\<close> or \<open>reactivateConfirmationSync\<close> is a run of these steps, when
  nobody replies.
\<close>

lemma handler_runs:
  assumes "((\<lambda>(p, v). sync_next E na p v) ^^ m) (h, w) = (h', w')"
  shows "(thread_step E na C)\<^sup>*\<^sup>* (s\<lparr>th_sync := hs @ [h], th_world := w\<rparr>) (s\<lparr>th_sync := hs @ [h'], th_world := w'\<rparr>)"
  using assms
proof (induction m arbitrary: h' w')
  case 0
  then show ?case by simp
next
  case (Suc m)
  obtain g v where gv: "((\<lambda>(p, v). sync_next E na p v) ^^ m) (h, w) = (g, v)"
    by (cases "((\<lambda>(p, v). sync_next E na p v) ^^ m) (h, w)")
  then have "sync_next E na g v = (h', w')" using Suc.prems by simp
  then have "thread_step E na C (s\<lparr>th_sync := hs @ [g], th_world := v\<rparr>) (s\<lparr>th_sync := hs @ [h'], th_world := w'\<rparr>)"
    using thread_step.sync [of "length hs" "s\<lparr>th_sync := hs @ [g], th_world := v\<rparr>" E na h' w' C] by simp
  then show ?case using Suc.IH [OF gv] by (rule rtranclp.rtrancl_into_rtrancl [rotated])
qed

lemma create_dispatch_run:
  assumes "createSubscriptionAndSaga E email repo token rid (th_world s) = (Inr (n, i), w1)"
    "dispatchSync E (grpc_sender E (na_smtp na) (na_ttl na)) i n email repo url w1 = (r, w')"
  shows "(thread_step E na {})\<^sup>*\<^sup>* s (s\<lparr>th_sync := th_sync s @ [SyncDone r], th_world := w'\<rparr>)"
proof -
  let ?h = "AtSend i n email repo url"
  have "thread_step E na {} s (s\<lparr>th_sync := th_sync s @ [?h], th_world := w1\<rparr>)"
    by (rule thread_step.sync_begins [OF assms(1)]) simp
  moreover have "((\<lambda>(p, v). sync_next E na p v) ^^ 4) (?h, w1) = (SyncDone r, w')"
    using sync_alone [of E na i n email repo url w1] assms(2) by simp
  from handler_runs [OF this, where C = "{}" and s = s and hs = "th_sync s"]
  have "(thread_step E na {})\<^sup>*\<^sup>* (s\<lparr>th_sync := th_sync s @ [?h], th_world := w1\<rparr>)
      (s\<lparr>th_sync := th_sync s @ [SyncDone r], th_world := w'\<rparr>)" .
  ultimately show ?thesis by (rule converse_rtranclp_into_rtranclp)
qed

lemma start_sync_run:
  assumes "StartConfirmation E (sender_of E (Some na)) email repo token url (th_world s) = (r, w')"
  shows "\<exists>hs. (thread_step E na {})\<^sup>*\<^sup>* s (s\<lparr>th_sync := hs, th_world := w'\<rparr>)"
proof -
  obtain q w1 where cr: "createSubscriptionAndSaga E email repo token 0 (th_world s) = (q, w1)"
    by (cases "createSubscriptionAndSaga E email repo token 0 (th_world s)")
  show ?thesis
  proof (cases q)
    case (Inl e)
    then have "w' = w1" using assms cr by (simp add: StartConfirmation_def startConfirmationSync_def sender_of_def)
    then have "thread_step E na {} s (s\<lparr>th_sync := th_sync s, th_world := w'\<rparr>)"
      using thread_step.others [OF create_appends [OF cr]] by simp
    then show ?thesis by blast
  next
    case (Inr x)
    obtain n i where "q = Inr (n, i)" using Inr by (cases x) simp
    then show ?thesis
      using create_dispatch_run [of E email repo token 0 s n i w1 na url r w'] cr assms
      by (auto simp: StartConfirmation_def startConfirmationSync_def sender_of_def)
  qed
qed

end
