(* ===== verification/Request_Threads.thy ===== *)
theory Request_Threads
  imports Saga_System
begin

text \<open>
  Concurrent subscriptions on the broker transport, statement by statement: any number of requests
  run \<open>Subscribe\<close> at the same time, each between its checks, its look-up of the pair of address and
  repository, and the transaction of its step T1 (\<open>internal/subscription/service.go\<close>). A transaction
  is one step: PostgreSQL makes its writes visible at once. The look-up and the transaction are
  separate, so what a request looked up may no longer hold when it writes.
\<close>

section \<open>Subscribe, statement by statement\<close>

datatype sub_pc =
    AtCheck string string
  | AtLookup string string
  | AtStart string string string
  | AtRevive nat string string string
  | SubDone "gerr + unit"

fun sub_next :: "env \<Rightarrow> Service \<Rightarrow> sub_pc \<Rightarrow> world \<Rightarrow> sub_pc \<times> world" where
  "sub_next E s (AtCheck email repoStr) w =
     (if \<not> ValidateEmail email then (SubDone (Inl (Domain ErrInvalidEmail)), w)
      else (case ParseRepoSpec repoStr of
              Inl err \<Rightarrow> (SubDone (Inl (Errorf2 (Domain ErrInvalidRepoFormat) err)), w)
            | Inr spec \<Rightarrow>
                (case svc_CheckRepoExists s (Owner spec) (Name spec) w of
                   (Inl e, w1) \<Rightarrow> (SubDone (Inl (Errorf ''failed to check repository'' e)), w1)
                 | (Inr exists, w1) \<Rightarrow>
                     (if \<not> exists then (SubDone (Inl (Domain ErrRepoNotFound)), w1) else (AtLookup email repoStr, w1)))))"
| "sub_next E s (AtLookup email repoStr) w =
     (case svc_GetSubscriptionByEmailAndRepo s email repoStr w of
        (Inl e, w1) \<Rightarrow> (SubDone (Inl (Errorf ''database error'' e)), w1)
      | (Inr existing, w1) \<Rightarrow>
          (case new_uuid E w1 of (token, w2) \<Rightarrow>
             (case existing of
                Some sub \<Rightarrow>
                  (if sub_Status sub \<noteq> StatusFailed then (SubDone (Inl (Domain ErrAlreadySubscribed)), w2)
                   else (AtRevive (sub_ID sub) email repoStr token, w2))
              | None \<Rightarrow> (AtStart email repoStr token, w2))))"
| "sub_next E s (AtStart email repoStr token) w =
     (case svc_StartConfirmation s email repoStr token (confirm_url (svc_baseURL s) token) w of
        (Inl e, w1) \<Rightarrow> (SubDone (Inl (Errorf ''failed to start subscription saga'' e)), w1)
      | (Inr _, w1) \<Rightarrow> (SubDone (Inr ()), w1))"
| "sub_next E s (AtRevive sid email repoStr token) w =
     (case svc_ReactivateConfirmation s sid email repoStr token (confirm_url (svc_baseURL s) token) w of
        (Inl e, w1) \<Rightarrow> (SubDone (Inl (Errorf ''failed to reactivate subscription saga'' e)), w1)
      | (Inr _, w1) \<Rightarrow> (SubDone (Inr ()), w1))"
| "sub_next E s (SubDone r) w = (SubDone r, w)"

text \<open>Alone it is \<open>Subscribe\<close>.\<close>

lemma sub_alone:
  "((\<lambda>(p, v). sub_next E s p v) ^^ 3) (AtCheck email repo, w) =
     (case Subscribe E s email repo w of (r, w') \<Rightarrow> (SubDone r, w'))"
  by (simp add: numeral_eq_Suc funpow_Suc_right Subscribe_def subscribe_known_def Let_def
      del: funpow.simps split: sum.split prod.split option.split)

section \<open>Interleaving\<close>

text \<open>A pair is live when it has a row that is not marked failed.\<close>

definition live :: "string \<times> string \<Rightarrow> db \<Rightarrow> bool" where
  "live p d \<longleftrightarrow> (\<exists>s\<in>set (subscriptions d). email_repo s = p \<and> sub_Status s \<noteq> StatusFailed)"

text \<open>
  What may happen to the database in between: the constraints are kept, a live pair \<open>p\<close> stays live,
  and an id once given out never names another pair. Everything the processes do is of this kind but
  an unsubscription and a compensation of the pair \<open>p\<close> itself, after which it is free again.
\<close>

definition undisturbed :: "string \<times> string \<Rightarrow> db \<Rightarrow> db \<Rightarrow> bool" where
  "undisturbed p d d' \<longleftrightarrow> grows d d' \<and> (live p d \<longrightarrow> live p d') \<and>
     (\<forall>s'\<in>set (subscriptions d'). sub_ID s' \<le> sub_seq d \<longrightarrow>
        (\<exists>s\<in>set (subscriptions d). sub_ID s = sub_ID s' \<and> email_repo s = email_repo s'))"

record requests =
  rq_handlers :: "((string \<times> string) \<times> sub_pc) list"
  rq_world :: world

abbreviation rq_db :: "requests \<Rightarrow> db" where
  "rq_db s \<equiv> db (rq_world s)"

inductive request_step :: "env \<Rightarrow> Service \<Rightarrow> string \<times> string \<Rightarrow> requests \<Rightarrow> requests \<Rightarrow> bool" for E svc p where
  begins: "request_step E svc p s (s\<lparr>rq_handlers := rq_handlers s @ [((email, repo), AtCheck email repo)]\<rparr>)"
| moves: "k < length (rq_handlers s) \<Longrightarrow> rq_handlers s ! k = (q, pc) \<Longrightarrow> sub_next E svc pc (rq_world s) = (pc', w) \<Longrightarrow>
     request_step E svc p s (s\<lparr>rq_handlers := (rq_handlers s)[k := (q, pc')], rq_world := w\<rparr>)"
| others: "undisturbed p (rq_db s) (db w) \<Longrightarrow> request_step E svc p s (s\<lparr>rq_world := w\<rparr>)"

definition wins :: "string \<times> string \<Rightarrow> ((string \<times> string) \<times> sub_pc) list \<Rightarrow> nat" where
  "wins p hs = length (filter (\<lambda>h. h = (p, SubDone (Inr ()))) hs)"

lemma wins_simps [simp]:
  "wins p [] = 0" "wins p (h # hs) = of_bool (h = (p, SubDone (Inr ()))) + wins p hs" "wins p (hs @ hs') = wins p hs + wins p hs'"
  by (simp_all add: wins_def)

lemma wins_update:
  "k < length hs \<Longrightarrow> hs ! k = h \<Longrightarrow> h \<noteq> (p, SubDone (Inr ())) \<Longrightarrow>
   wins p (hs[k := h']) = of_bool (h' = (p, SubDone (Inr ()))) + wins p hs"
  by (induction hs arbitrary: k) (auto split: nat.split)

section \<open>What a request does to a pair\<close>

lemma undisturbed_refl [simp]: "undisturbed p d d"
  by (auto simp: undisturbed_def)

lemma undisturbed_same: "grows d d' \<Longrightarrow> subscriptions d' = subscriptions d \<Longrightarrow> undisturbed p d d'"
  by (auto simp: undisturbed_def live_def)

text \<open>An update that keeps ids and pairs and does not fail a live row of the pair.\<close>

lemma updated_undisturbed:
  assumes g: "grows d d'" and rows: "subscriptions d' = upd_rows P f (subscriptions d)"
    and f: "\<And>s. sub_ID (f s) = sub_ID s \<and> email_repo (f s) = email_repo s"
    and kept: "\<And>s. s \<in> set (subscriptions d) \<Longrightarrow> P s \<Longrightarrow> email_repo s = p \<Longrightarrow> sub_Status s \<noteq> StatusFailed \<Longrightarrow> sub_Status (f s) \<noteq> StatusFailed"
  shows "undisturbed p d d'"
proof -
  have "live p d'" if l: "live p d"
  proof -
    obtain x where x: "x \<in> set (subscriptions d)" "email_repo x = p" "sub_Status x \<noteq> StatusFailed"
      using l unfolding live_def by blast
    then have "(if P x then f x else x) \<in> set (subscriptions d')" using rows by (simp add: set_upd_rows)
    then show ?thesis unfolding live_def using x f kept by (metis (full_types))
  qed
  moreover have "\<exists>s\<in>set (subscriptions d). sub_ID s = sub_ID x \<and> email_repo s = email_repo x" if "x \<in> set (subscriptions d')" for x
    using that [unfolded rows] f by (elim in_upd_rowsE) metis+
  ultimately show ?thesis using g by (simp add: undisturbed_def)
qed

text \<open>A new row: its id is fresh and, by the constraint, its pair had none.\<close>

lemma inserted_pair:
  assumes ok: "db_ok d" and g: "grows d d'"
    and rows: "subscriptions d' = subscriptions d @ [new_sub (Suc (sub_seq d)) email repo token t]"
  shows "undisturbed p d d' \<and> \<not> live (email, repo) d \<and> live (email, repo) d'"
proof -
  have "distinct (map email_repo (subscriptions d'))" using grows_ok [OF g ok] by (simp add: db_ok_def subs_ok_def)
  then have "(email, repo) \<notin> email_repo ` set (subscriptions d)" using rows by (auto simp: new_sub_def)
  then have "\<not> live (email, repo) d" by (auto simp: live_def image_iff)
  moreover have "undisturbed p d d'" using g rows by (auto simp: undisturbed_def live_def new_sub_def)
  moreover have "live (email, repo) d'" using rows by (auto simp: live_def new_sub_def)
  ultimately show ?thesis by simp
qed

text \<open>A revived row: it was failed, so its pair was not live.\<close>

lemma revived_pair:
  assumes ok: "db_ok d" and g: "grows d d'"
    and s: "s \<in> set (subscriptions d)" "sub_ID s = n" "sub_Status s = StatusFailed" "email_repo s = q"
    and rows: "subscriptions d' = upd_rows (\<lambda>s. sub_ID s = n \<and> sub_Status s = StatusFailed) (reactivate_row token) (subscriptions d)"
  shows "undisturbed p d d' \<and> \<not> live q d \<and> live q d'"
proof -
  have "distinct (map email_repo (subscriptions d))" using ok by (simp add: db_ok_def subs_ok_def)
  then have "x = s" if "x \<in> set (subscriptions d)" "email_repo x = q" for x
    using that s by (auto simp: distinct_map inj_on_def)
  then have "\<not> live q d" using s(3) by (auto simp: live_def)
  moreover have "live q d'"
    unfolding live_def
  proof (rule bexI [of _ "reactivate_row token s"])
    show "reactivate_row token s \<in> set (subscriptions d')" using rows s by (simp add: set_upd_rows)
  qed (use s(4) in \<open>simp add: reactivate_row_def\<close>)
  moreover have "undisturbed p d d'" using updated_undisturbed [OF g rows] by (simp add: reactivate_row_def)
  ultimately show ?thesis by simp
qed

text \<open>
  The other writers of the table. A confirmation disturbs no pair; an unsubscription and a
  compensation disturb at most the pair of their row; relay and scanner do not write the table.
\<close>

lemma ConfirmSubscription_undisturbed:
  assumes "ConfirmSubscription E token w = (r, w')"
  shows "undisturbed p (db w) (db w')"
proof (rule run_stmt_keeps [OF assms [unfolded ConfirmSubscription_def]])
  let ?d = "(db w)\<lparr>subscriptions := upd_rows (\<lambda>s. sub_Token s = token)
    (\<lambda>s. s\<lparr>sub_Confirmed := True, sub_Status := StatusConfirmed\<rparr>) (subscriptions (db w))\<rparr>"
  have "grows (db w) ?d" by (simp add: upd_subscriptions_grows)
  then have "undisturbed p (db w) ?d"
    by (rule updated_undisturbed [where P = "\<lambda>s. sub_Token s = token" and f = "\<lambda>s. s\<lparr>sub_Confirmed := True, sub_Status := StatusConfirmed\<rparr>"])
      simp_all
  then show "undisturbed p (db w) (snd (Inr (), ?d))" by simp
qed simp

lemma MarkFailed_undisturbed:
  assumes "MarkFailed E n w = (r, w')" "\<And>s. s \<in> set (subscriptions (db w)) \<Longrightarrow> sub_ID s = n \<Longrightarrow> email_repo s \<noteq> p"
  shows "undisturbed p (db w) (db w')"
  using MarkFailed_effect [OF assms(1)]
proof
  assume rows: "db w' = (db w)\<lparr>subscriptions := upd_rows (\<lambda>s. sub_ID s = n) (\<lambda>s. s\<lparr>sub_Status := StatusFailed\<rparr>) (subscriptions (db w))\<rparr>"
  show ?thesis
  proof (rule updated_undisturbed [OF MarkFailed_grows [OF assms(1)]])
    show "subscriptions (db w') = upd_rows (\<lambda>s. sub_ID s = n) (\<lambda>s. s\<lparr>sub_Status := StatusFailed\<rparr>) (subscriptions (db w))"
      using rows by simp
  qed (use assms(2) in auto)
qed simp

lemma DeleteSubscription_undisturbed:
  assumes "DeleteSubscription E token w = (r, w')" "\<And>s. s \<in> set (subscriptions (db w)) \<Longrightarrow> sub_Token s = token \<Longrightarrow> email_repo s \<noteq> p"
  shows "undisturbed p (db w) (db w')"
proof -
  have "(live p (db w) \<longrightarrow> live p (db w')) \<and> set (subscriptions (db w')) \<subseteq> set (subscriptions (db w))"
    by (rule run_stmt_keeps [OF assms(1) [unfolded DeleteSubscription_def], where P = "\<lambda>d. (live p (db w) \<longrightarrow> live p d) \<and>
        set (subscriptions d) \<subseteq> set (subscriptions (db w))"]) (use assms(2) in \<open>auto simp: live_def del_rows_def\<close>)
  then show ?thesis using DeleteSubscription_grows [OF assms(1)] by (auto simp: undisturbed_def)
qed

section \<open>The invariant\<close>

fun handler_knows :: "db \<Rightarrow> (string \<times> string) \<times> sub_pc \<Rightarrow> bool" where
  "handler_knows d (q, AtCheck email repo) = (q = (email, repo))"
| "handler_knows d (q, AtLookup email repo) = (q = (email, repo))"
| "handler_knows d (q, AtStart email repo token) = (q = (email, repo))"
| "handler_knows d (q, AtRevive n email repo token) =
     (q = (email, repo) \<and> n \<le> sub_seq d \<and> (\<forall>s\<in>set (subscriptions d). sub_ID s = n \<longrightarrow> email_repo s = q))"
| "handler_knows d (q, SubDone r) = True"

lemma handler_knows_undisturbed: "undisturbed p d d' \<Longrightarrow> handler_knows d h \<Longrightarrow> handler_knows d' h"
  by (cases h; cases "snd h") (fastforce simp: undisturbed_def grows_def seq_le_def)+

text \<open>One move: it disturbs no pair, and it succeeds only by making its own pair live.\<close>

definition moved :: "(string \<times> string) \<Rightarrow> string \<times> string \<Rightarrow> sub_pc \<Rightarrow> db \<Rightarrow> db \<Rightarrow> bool" where
  "moved p q pc' d d' \<longleftrightarrow> undisturbed p d d' \<and> handler_knows d' (q, pc') \<and>
     (pc' = SubDone (Inr ()) \<longrightarrow> \<not> live q d \<and> live q d')"

lemma lookup_moved:
  assumes run: "sub_next E (main_service E None c ca base) (AtLookup email repo) w = (pc', w')" and ok: "db_ok (db w)"
  shows "moved p (email, repo) pc' (db w) (db w')"
proof -
  let ?svc = "main_service E None c ca base"
  obtain g w1 where look: "svc_GetSubscriptionByEmailAndRepo ?svc email repo w = (g, w1)"
    by (cases "svc_GetSubscriptionByEmailAndRepo ?svc email repo w")
  note l = main_svc.by_pair [OF look]
  have db: "db w' = db w" using run look l by (auto simp: new_uuid_def Let_def split: sum.splits option.splits if_splits)
  have "handler_knows (db w) ((email, repo), pc') \<and> pc' \<noteq> SubDone (Inr ())"
  proof (cases "\<exists>s. g = Inr (Some s) \<and> sub_Status s = StatusFailed")
    case True
    then obtain s where s: "g = Inr (Some s)" "sub_Status s = StatusFailed" by blast
    then have pc: "pc' = AtRevive (sub_ID s) email repo (fst (new_uuid E w1))"
      using run look by (auto simp: new_uuid_def Let_def)
    have r: "s \<in> set (subscriptions (db w))" "email_repo s = (email, repo)"
      using l s(1) lookup_by_SomeD [of email_repo "(email, repo)" "subscriptions (db w)" s] by auto
    have "sub_ID s \<le> sub_seq (db w)" "distinct (map sub_ID (subscriptions (db w)))"
      using ok r(1) by (auto simp: db_ok_def subs_ok_def)
    then show ?thesis using r pc by (auto simp: distinct_map inj_on_def)
  qed (use run look in \<open>auto simp: new_uuid_def Let_def split: sum.splits option.splits if_splits\<close>)
  then show ?thesis using db by (simp add: moved_def)
qed

lemma start_moved:
  assumes run: "sub_next E (main_service E None c ca base) (AtStart email repo token) w = (pc', w')"
    and ok: "db_ok (db w)" and uuid: "uuid_column E"
  shows "moved p (email, repo) pc' (db w) (db w')"
proof -
  obtain r where st: "StartConfirmation E None email repo token (confirm_url base token) w = (r, w')"
    and pc: "pc' = SubDone (Inr ()) \<longleftrightarrow> r = Inr ()" "\<exists>x. pc' = SubDone x"
    using run by (auto simp: main_service_def sender_of_def split: prod.splits sum.splits)
  have g: "grows (db w) (db w')" using StartConfirmation_broker_grows [OF st] .
  consider (undone) "tables_same (db w) (db w')" "r \<noteq> Inr ()"
    | (written) t where "subscriptions (db w') = subscriptions (db w) @ [new_sub (Suc (sub_seq (db w))) email repo token t]"
    using StartConfirmation_T1 [OF st uuid] by auto
  then show ?thesis
  proof cases
    case undone
    then show ?thesis using undisturbed_same [OF g] pc by (auto simp: moved_def tables_same_def)
  next
    case written
    then show ?thesis using inserted_pair [OF ok g, of email repo token t p] pc(2) by (auto simp: moved_def)
  qed
qed

lemma revive_moved:
  assumes run: "sub_next E (main_service E None c ca base) (AtRevive n email repo token) w = (pc', w')"
    and ok: "db_ok (db w)" and uuid: "uuid_column E" and known: "handler_knows (db w) (q, AtRevive n email repo token)"
  shows "moved p q pc' (db w) (db w')"
proof -
  obtain r where st: "ReactivateConfirmation E None n email repo token (confirm_url base token) w = (r, w')"
    and pc: "pc' = SubDone (Inr ()) \<longleftrightarrow> r = Inr ()" "\<exists>x. pc' = SubDone x"
    using run by (auto simp: main_service_def sender_of_def split: prod.splits sum.splits)
  have g: "grows (db w) (db w')" using ReactivateConfirmation_broker_grows [OF st] .
  consider (undone) "tables_same (db w) (db w')" "r \<noteq> Inr ()"
    | (written) s where "s \<in> set (subscriptions (db w))" "sub_ID s = n" "sub_Status s = StatusFailed"
      "subscriptions (db w') = upd_rows (\<lambda>s. sub_ID s = n \<and> sub_Status s = StatusFailed) (reactivate_row token) (subscriptions (db w))"
    using ReactivateConfirmation_T1 [OF st uuid] by auto
  then show ?thesis
  proof cases
    case undone
    then show ?thesis using undisturbed_same [OF g] pc by (auto simp: moved_def tables_same_def)
  next
    case written
    moreover have "email_repo s = q" using known written by simp
    ultimately show ?thesis using revived_pair [OF ok g, of s n q token p] pc(2) by (auto simp: moved_def)
  qed
qed

lemma check_moved:
  assumes "sub_next E (main_service E None c ca base) (AtCheck email repo) w = (pc', w')"
  shows "moved p (email, repo) pc' (db w) (db w')"
proof -
  have "db w' = db w" "pc' = AtLookup email repo \<or> (\<exists>e. pc' = SubDone (Inl e))"
    using assms main_svc.github by (auto split: sum.splits prod.splits if_splits)
  then show ?thesis by (auto simp: moved_def)
qed

lemma sub_next_moved:
  assumes "sub_next E (main_service E None c ca base) pc w = (pc', w')" "db_ok (db w)" "uuid_column E"
    "handler_knows (db w) (q, pc)" "\<nexists>r. pc = SubDone r"
  shows "moved p q pc' (db w) (db w')"
proof (cases pc)
  case (AtCheck email repo)
  then show ?thesis using assms(1,4) check_moved by auto
next
  case (AtLookup email repo)
  then show ?thesis using assms(1,2,4) lookup_moved by auto
next
  case (AtStart email repo token)
  then show ?thesis using assms(1-4) start_moved by auto
next
  case (AtRevive n email repo token)
  then show ?thesis using assms(1-4) revive_moved by blast
qed (use assms(5) in simp)

definition request_inv :: "string \<times> string \<Rightarrow> bool \<Rightarrow> requests \<Rightarrow> bool" where
  "request_inv p b s \<longleftrightarrow> db_ok (rq_db s) \<and> (\<forall>h\<in>set (rq_handlers s). handler_knows (rq_db s) h) \<and>
     wins p (rq_handlers s) + of_bool b \<le> 1 \<and> (b \<or> wins p (rq_handlers s) = 1 \<longrightarrow> live p (rq_db s))"

lemma request_inv_undisturbed:
  assumes "request_inv p b s" "undisturbed p (rq_db s) (db w)"
  shows "request_inv p b (s\<lparr>rq_world := w\<rparr>)"
  using assms handler_knows_undisturbed [OF assms(2)] by (auto simp: request_inv_def undisturbed_def intro: grows_ok)

lemma request_step_inv:
  assumes "request_step E (main_service E None c ca base) p s s'" "request_inv p b s" "uuid_column E"
  shows "request_inv p b s'"
  using assms(1)
proof (cases rule: request_step.cases)
  case (begins email repo)
  then show ?thesis using assms(2) by (auto simp: request_inv_def)
next
  case (moves k q pc pc' w)
  let ?hs = "rq_handlers s"
  have known: "handler_knows (rq_db s) (q, pc)" using moves(2,3) assms(2) nth_mem by (fastforce simp: request_inv_def)
  show ?thesis
  proof (cases "\<exists>r. pc = SubDone r")
    case True
    then have "pc' = pc" "w = rq_world s" using moves(4) by auto
    then have "s' = s" using moves(1-3) list_update_id [of ?hs k] by simp
    then show ?thesis using assms(2) by simp
  next
    case False
    then have m: "moved p q pc' (rq_db s) (db w)"
      using sub_next_moved [OF moves(4) _ assms(3) known] assms(2) by (simp add: request_inv_def)
    then have u: "undisturbed p (rq_db s) (db w)" by (simp add: moved_def)
    have w: "wins p (?hs[k := (q, pc')]) = of_bool ((q, pc') = (p, SubDone (Inr ()))) + wins p ?hs"
      using wins_update [OF moves(2,3)] False by auto
    have "\<forall>h\<in>set (?hs[k := (q, pc')]). handler_knows (db w) h"
      using assms(2) m handler_knows_undisturbed [OF u] set_update_subset_insert [of ?hs k "(q, pc')"]
      by (auto simp: request_inv_def moved_def)
    then show ?thesis
      using request_inv_undisturbed [OF assms(2) u] assms(2) m w moves(1) by (auto simp: request_inv_def moved_def of_bool_def split: if_splits)
  qed
next
  case (others w)
  then show ?thesis using request_inv_undisturbed assms(2) by blast
qed

lemma request_steps_inv:
  assumes "(request_step E (main_service E None c ca base) p)\<^sup>*\<^sup>* s s'" "request_inv p b s" "uuid_column E"
  shows "request_inv p b s'"
  using assms(1)
proof (induction rule: rtranclp_induct)
  case (step y z)
  then show ?case using request_step_inv assms(3) by blast
qed (rule assms(2))

text \<open>A request that runs undisturbed.\<close>

lemma handler_runs_alone:
  assumes "((\<lambda>(pc, v). sub_next E svc pc v) ^^ m) (pc, w) = (pc', w')"
  shows "(request_step E svc p)\<^sup>*\<^sup>* \<lparr>rq_handlers = hs @ [(q, pc)], rq_world = w\<rparr> \<lparr>rq_handlers = hs @ [(q, pc')], rq_world = w'\<rparr>"
  using assms
proof (induction m arbitrary: pc' w')
  case (Suc m)
  obtain pc1 w1 where one: "((\<lambda>(pc, v). sub_next E svc pc v) ^^ m) (pc, w) = (pc1, w1)" by fastforce
  then have "sub_next E svc pc1 w1 = (pc', w')" using Suc.prems by simp
  then have "request_step E svc p \<lparr>rq_handlers = hs @ [(q, pc1)], rq_world = w1\<rparr> \<lparr>rq_handlers = hs @ [(q, pc')], rq_world = w'\<rparr>"
    using request_step.moves [of "length hs" "\<lparr>rq_handlers = hs @ [(q, pc1)], rq_world = w1\<rparr>" q pc1 E svc pc' w' p] by simp
  then show ?case using Suc.IH [OF one] by (rule rtranclp.rtrancl_into_rtrancl [rotated])
qed simp

text \<open>The loser of a race: the row appeared between its look-up and its transaction.\<close>

lemma late_start_fails:
  assumes "StartConfirmation E None email repo token url w = (r, w')" "uuid_column E" "db_ok (db w)"
    and "(email, repo) \<in> email_repo ` set (subscriptions (db w))"
  shows "tables_same (db w) (db w') \<and> (\<exists>e. r = Inl e \<and> infra e)"
proof -
  have "distinct (map email_repo (subscriptions (db w')))"
    using grows_ok [OF StartConfirmation_broker_grows [OF assms(1)] assms(3)] by (simp add: db_ok_def subs_ok_def)
  then have "subscriptions (db w') \<noteq> subscriptions (db w) @ [new_sub n email repo token t]" for n t
    using assms(4) by (auto simp: new_sub_def)
  then show ?thesis using StartConfirmation_T1 [OF assms(1,2)] by auto
qed

end
