(* ===== verification/Float64.thy ===== *)
theory Float64
  imports Complex_Main Prelude "HOL-Library.Log_Nat"
begin

text \<open>
  The floating-point arithmetic the benchmark's report needs (\<open>cmd/confirmbench/main.go\<close>):
  non-negative \<open>float64\<close> values, the rounding to 53 bits (to nearest, ties to even) of conversions,
  products and quotients, truncation to an integer, and the decimal rounding of \<open>fmt\<close>'s \<open>%f\<close>. The
  values stay far from the ends of the exponent range, so exponents are unbounded here.
\<close>

section \<open>Rounding\<close>

text \<open>The integer nearest to \<open>a / b\<close>, ties to even.\<close>

definition rne :: "nat \<Rightarrow> nat \<Rightarrow> nat" where
  "rne a b = (let q = a div b; r = a mod b in if b < 2 * r \<or> 2 * r = b \<and> odd q then q + 1 else q)"

text \<open>A value \<open>FP m s\<close> is \<open>m / 2 ^ s\<close>, where \<open>s\<close> may be negative.\<close>

datatype float64 = FP nat int

definition pow2_mult :: "nat \<Rightarrow> int \<Rightarrow> nat" where
  "pow2_mult a s = a * 2 ^ nat s"

text \<open>The exponent that brings \<open>a / b\<close> between \<open>2 ^ 52\<close> and \<open>2 ^ 53\<close>.\<close>

definition scale_of :: "nat \<Rightarrow> nat \<Rightarrow> int" where
  "scale_of a b =
     (let s = 53 + int (floorlog 2 b) - int (floorlog 2 a) in
      if 2 ^ 53 * pow2_mult b (- s) \<le> pow2_mult a s then s - 1 else s)"

definition round_ratio :: "nat \<Rightarrow> nat \<Rightarrow> float64" where
  "round_ratio a b =
     (if a = 0 then FP 0 0 else let s = scale_of a b in FP (rne (pow2_mult a s) (pow2_mult b (- s))) s)"

definition float_of :: "nat \<Rightarrow> float64" where
  "float_of n = round_ratio n 1"

fun fmul :: "float64 \<Rightarrow> float64 \<Rightarrow> float64" where
  "fmul (FP m s) (FP n t) = round_ratio (pow2_mult (m * n) (- (s + t))) (pow2_mult 1 (s + t))"

fun fdiv :: "float64 \<Rightarrow> float64 \<Rightarrow> float64" where
  "fdiv (FP m s) (FP n t) = round_ratio (pow2_mult m (t - s)) (pow2_mult n (s - t))"

fun trunc :: "float64 \<Rightarrow> nat" where
  "trunc (FP m s) = pow2_mult m (- s) div pow2_mult 1 s"

text \<open>\<open>%.kf\<close> without the padding: the value times \<open>10 ^ k\<close>, rounded to an integer.\<close>

fun decimals :: "nat \<Rightarrow> float64 \<Rightarrow> nat" where
  "decimals k (FP m s) = rne (10 ^ k * pow2_mult m (- s)) (pow2_mult 1 s)"

section \<open>Values\<close>

fun val :: "float64 \<Rightarrow> real" where
  "val (FP m s) = real m * 2 powi (- s)"

lemma powi_nonneg: "0 \<le> k \<Longrightarrow> (2 :: real) powi k = 2 ^ nat k"
  by (simp add: power_int_def)

lemma real_pow2_mult: "real (pow2_mult a s) = real a * 2 ^ nat s"
  by (simp add: pow2_mult_def)

lemma pow2_mult_ratio: "real (pow2_mult a s) / real (pow2_mult b (- s)) = real a / real b * 2 powi s"
  by (cases "0 \<le> s") (auto simp: real_pow2_mult power_int_def field_simps power_inverse)

lemma pow2_mult_pos [simp]: "0 < pow2_mult a s \<longleftrightarrow> 0 < a"
  by (simp add: pow2_mult_def)

section \<open>Rounding to an integer\<close>

lemma rne_le:
  assumes "0 < b" "real a / real b \<le> real n"
  shows "rne a b \<le> n"
proof -
  have a: "a \<le> n * b" using assms by (simp add: field_simps flip: of_nat_mult)
  show ?thesis
  proof (cases "a mod b = 0")
    case True
    then have "rne a b = a div b" using assms(1) by (auto simp: rne_def Let_def)
    then show ?thesis using a assms(1) by (metis div_le_mono nonzero_mult_div_cancel_right less_numeral_extra(3))
  next
    case False
    then have "a \<noteq> n * b" by auto
    then have "a < n * b" using a by simp
    then have "a div b < n" using assms(1) by (simp add: less_mult_imp_div_less)
    then show ?thesis by (simp add: rne_def Let_def)
  qed
qed

lemma rne_ge:
  assumes "0 < b" "real n \<le> real a / real b"
  shows "n \<le> rne a b"
proof -
  have "n * b \<le> a" using assms by (simp add: field_simps flip: of_nat_mult)
  then have "n \<le> a div b" using assms(1) by (simp add: less_eq_div_iff_mult_less_eq)
  then show ?thesis by (auto simp: rne_def Let_def)
qed

lemma rne_exact [simp]: "0 < b \<Longrightarrow> rne (n * b) b = n"
  using rne_le [of b "n * b" n] rne_ge [of b n "n * b"] by simp

lemma nat_div_bounds: "0 < b \<Longrightarrow> real (a div b) \<le> real a / real b \<and> real a / real b < real (a div b) + 1"
  using floor_divide_of_nat_eq [where 'a = real, of a b] floor_correct [of "real a / real b"] by simp

text \<open>Rounding up means to be at least half way, and exactly half way only from an odd number.\<close>

lemma rne_up_iff:
  assumes "0 < b"
  shows "rne a b = a div b + 1 \<longleftrightarrow> real (a div b) + 1 / 2 < real a / real b \<or>
     real a / real b = real (a div b) + 1 / 2 \<and> odd (a div b)"
proof -
  have "real a / real b = real (a div b) + real (a mod b) / real b"
    using assms
    by (simp add: field_simps) (metis add.commute mult.commute of_nat_add of_nat_mult mod_mult_div_eq)
  then have "real (a div b) + 1 / 2 < real a / real b \<longleftrightarrow> b < 2 * (a mod b)"
    "real a / real b = real (a div b) + 1 / 2 \<longleftrightarrow> 2 * (a mod b) = b"
    using assms by (auto simp: field_simps)
  then show ?thesis by (auto simp: rne_def Let_def)
qed

lemma rne_cases: "rne a b = a div b \<or> rne a b = a div b + 1"
  by (simp add: rne_def Let_def)

lemma rne_mono:
  assumes "0 < b" "0 < d" "real a / real b \<le> real c / real d"
  shows "rne a b \<le> rne c d"
proof (cases "rne a b = a div b + 1")
  case False
  then have "rne a b = a div b" using rne_cases by blast
  moreover have "real (a div b) \<le> real c / real d" using nat_div_bounds [OF assms(1), of a] assms(3) by linarith
  ultimately show ?thesis using rne_ge [OF assms(2)] by simp
next
  case up: True
  let ?q = "a div b"
  have half: "real ?q + 1 / 2 \<le> real c / real d" using up rne_up_iff [OF assms(1), of a] assms(3) by auto
  show ?thesis
  proof (cases "real (?q + 1) \<le> real c / real d")
    case True
    then show ?thesis using rne_ge [OF assms(2) True] up by simp
  next
    case False
    have "c div d = ?q"
    proof (rule antisym)
      have "real (c div d) < real (?q + 1)" using False nat_div_bounds [OF assms(2), of c] by linarith
      then show "c div d \<le> ?q" by simp
      have "real ?q < real (c div d) + 1"
        using half nat_div_bounds [OF assms(2), of c] by linarith
      then show "?q \<le> c div d" by simp
    qed
    then have "rne c d = c div d + 1"
      using half up rne_up_iff [OF assms(1), of a] rne_up_iff [OF assms(2), of c] assms(3) by auto
    then show ?thesis using up \<open>c div d = ?q\<close> by simp
  qed
qed

section \<open>Rounding to 53 bits\<close>

lemma floorlog_bounds: "0 < a \<Longrightarrow> 2 ^ (floorlog 2 a - 1) \<le> a \<and> a < 2 ^ floorlog 2 a \<and> 0 < floorlog 2 a"
  using floorlog_bounds [of a 2] floorlog_eq_zero_iff [of 2 a] by auto

text \<open>The scaled value lies in the binade of the 53-bit integers.\<close>

lemma scale_bounds:
  assumes "0 < a" "0 < b"
  shows "2 ^ 52 \<le> real a / real b * 2 powi scale_of a b \<and> real a / real b * 2 powi scale_of a b < 2 ^ 53"
proof -
  let ?x = "real a / real b" and ?la = "floorlog 2 a" and ?lb = "floorlog 2 b"
  define s where "s = 53 + int ?lb - int ?la"
  have pos: "0 < ?x" using assms by simp
  obtain la where la: "?la = Suc la" "2 ^ la \<le> a" "a < 2 ^ Suc la"
    using floorlog_bounds [OF assms(1)] by (metis Suc_pred diff_Suc_1)
  obtain lb where lb: "?lb = Suc lb" "2 ^ lb \<le> b" "b < 2 ^ Suc lb"
    using floorlog_bounds [OF assms(2)] by (metis Suc_pred diff_Suc_1)
  have ra: "(2::real) ^ la \<le> real a" "real a < 2 ^ Suc la" "(2::real) ^ lb \<le> real b" "real b < 2 ^ Suc lb"
    using la lb by (metis of_nat_le_iff of_nat_less_iff of_nat_numeral of_nat_power)+
  have s: "s = 53 + int lb - int la" using la(1) lb(1) by (simp add: s_def)
  have p: "(2::real) powi s = 2 ^ 53 * 2 ^ lb / 2 ^ la"
    unfolding s by (simp add: power_int_diff power_int_add)
  have lo: "2 ^ 52 < ?x * 2 powi s"
  proof -
    have "2 ^ la * real b < real a * 2 ^ Suc lb"
      using ra assms by (intro mult_le_less_imp_less) auto
    then show ?thesis using assms(2) by (simp add: p field_simps)
  qed
  have hi: "?x * 2 powi s < 2 ^ 54"
  proof -
    have "real a * 2 ^ lb < 2 ^ Suc la * real b"
      using ra assms by (intro mult_less_le_imp_less) auto
    then show ?thesis using assms(2) by (simp add: p field_simps)
  qed
  have test: "2 ^ 53 * pow2_mult b (- s) \<le> pow2_mult a s \<longleftrightarrow> 2 ^ 53 \<le> ?x * 2 powi s"
  proof -
    have "2 ^ 53 * pow2_mult b (- s) \<le> pow2_mult a s \<longleftrightarrow> 2 ^ 53 * real (pow2_mult b (- s)) \<le> real (pow2_mult a s)"
      by (metis of_nat_le_iff of_nat_mult of_nat_numeral of_nat_power)
    also have "\<dots> \<longleftrightarrow> 2 ^ 53 \<le> real (pow2_mult a s) / real (pow2_mult b (- s))"
      using assms(2) by (simp add: pos_le_divide_eq)
    finally show ?thesis by (simp add: pow2_mult_ratio)
  qed
  show ?thesis
  proof (cases "2 ^ 53 \<le> ?x * 2 powi s")
    case True
    then have "scale_of a b = s - 1" using test by (simp add: scale_of_def s_def Let_def)
    moreover have "?x * 2 powi (s - 1) = ?x * 2 powi s / 2" by (simp add: power_int_diff)
    moreover have "y / 2 \<ge> 2 ^ 52 \<and> y / 2 < 2 ^ 53" if "2 ^ 53 \<le> y" "y < 2 ^ 54" for y :: real
      using that by simp
    ultimately show ?thesis using True hi by metis
  next
    case False
    then have "scale_of a b = s" using test by (simp add: scale_of_def s_def Let_def)
    then show ?thesis using False lo by simp
  qed
qed

lemma round_ratioE:
  assumes "0 < a" "0 < b"
  obtains A B s where "round_ratio a b = FP (rne A B) s" "0 < B" "real A / real B = real a / real b * 2 powi s"
    "2 ^ 52 \<le> real A / real B" "real A / real B < 2 ^ 53" "s = scale_of a b"
proof -
  let ?s = "scale_of a b"
  show thesis
    by (rule that [of "pow2_mult a ?s" "pow2_mult b (- ?s)" ?s])
      (use assms scale_bounds [OF assms] in \<open>simp_all add: round_ratio_def Let_def pow2_mult_ratio\<close>)
qed

text \<open>
  Rounding does not cross a representable value, an integer of at most 53 bits times a power of
  two, from either side.
\<close>

lemma powi_split: "x \<le> real m * 2 powi e \<longleftrightarrow> x * 2 powi s \<le> real m * 2 powi (e + s)"
  by (simp add: power_int_add mult_ac)

lemma powi_split': "real m * 2 powi e \<le> x \<longleftrightarrow> real m * 2 powi (e + s) \<le> x * 2 powi s"
  by (simp add: power_int_add mult_ac)

lemma small_powi: "e < 0 \<Longrightarrow> m \<le> 2 ^ 53 \<Longrightarrow> real m * 2 powi e \<le> 2 ^ 52"
proof -
  assume *: "e < 0" "m \<le> 2 ^ 53"
  have "(2::real) powi e \<le> 2 powi (- 1)" using *(1) by (intro power_int_increasing) auto
  moreover have "real m \<le> 2 ^ 53" using *(2) by (metis of_nat_le_iff of_nat_numeral of_nat_power)
  ultimately have "real m * 2 powi e \<le> 2 ^ 53 * 2 powi (- 1)" by (intro mult_mono) auto
  then show ?thesis by simp
qed

lemma round_ratio_le:
  assumes "0 < b" "m \<le> 2 ^ 53" "real a / real b \<le> real m * 2 powi e"
  shows "val (round_ratio a b) \<le> real m * 2 powi e"
proof (cases "a = 0")
  case False
  then obtain A B s where R: "round_ratio a b = FP (rne A B) s" "0 < B" "real A / real B = real a / real b * 2 powi s"
    "2 ^ 52 \<le> real A / real B" "real A / real B < 2 ^ 53" using round_ratioE [of a b] assms(1) by blast
  have le: "real A / real B \<le> real m * 2 powi (e + s)" unfolding R(3) by (rule powi_split [THEN iffD1, OF assms(3)])
  have "real (rne A B) \<le> real m * 2 powi (e + s)"
  proof (cases "0 \<le> e + s")
    case True
    then have "real A / real B \<le> real (m * 2 ^ nat (e + s))" using le by (simp add: powi_nonneg)
    then have "rne A B \<le> m * 2 ^ nat (e + s)" using R(2) rne_le by blast
    from of_nat_mono [OF this, where 'a = real] show ?thesis using True by (simp add: powi_nonneg)
  next
    case neg: False
    then have "real m * 2 powi (e + s) \<le> 2 ^ 52" using assms(2) by (intro small_powi) auto
    then have "real m * 2 powi (e + s) = 2 ^ 52" "real A / real B = real (2 ^ 52)" using le R(4) by auto
    then show ?thesis using rne_le [OF R(2), of A "2 ^ 52"] by (simp flip: of_nat_le_iff)
  qed
  then have "real (rne A B) * 2 powi (- s) \<le> real m * 2 powi (e + s) * 2 powi (- s)" by (intro mult_right_mono) auto
  then show ?thesis using R(1) by (simp add: mult.assoc flip: power_int_add)
qed (simp add: round_ratio_def)

lemma round_ratio_ge:
  assumes "0 < b" "0 < a" "m \<le> 2 ^ 53" "real m * 2 powi e \<le> real a / real b"
  shows "real m * 2 powi e \<le> val (round_ratio a b)"
proof -
  obtain A B s where R: "round_ratio a b = FP (rne A B) s" "0 < B" "real A / real B = real a / real b * 2 powi s"
    "2 ^ 52 \<le> real A / real B" "real A / real B < 2 ^ 53" using round_ratioE [OF assms(2,1)] by blast
  have le: "real m * 2 powi (e + s) \<le> real A / real B" unfolding R(3) by (rule powi_split' [THEN iffD1, OF assms(4)])
  have "real m * 2 powi (e + s) \<le> real (rne A B)"
  proof (cases "0 \<le> e + s")
    case True
    then have "real (m * 2 ^ nat (e + s)) \<le> real A / real B" using le by (simp add: powi_nonneg)
    then have "m * 2 ^ nat (e + s) \<le> rne A B" using R(2) rne_ge by blast
    from of_nat_mono [OF this, where 'a = real] show ?thesis using True by (simp add: powi_nonneg)
  next
    case False
    then have "real m * 2 powi (e + s) \<le> 2 ^ 52" using assms(3) by (intro small_powi) auto
    moreover have "2 ^ 52 \<le> rne A B" using R(4) by (intro rne_ge [OF R(2)]) simp
    then have "2 ^ 52 \<le> real (rne A B)" by (simp flip: of_nat_le_iff)
    ultimately show ?thesis by linarith
  qed
  then have "real m * 2 powi (e + s) * 2 powi (- s) \<le> real (rne A B) * 2 powi (- s)" by (intro mult_right_mono) auto
  then show ?thesis using R(1) by (simp add: mult.assoc flip: power_int_add)
qed

lemma round_ratio_exact:
  assumes "0 < b" "m \<le> 2 ^ 53" "real a / real b = real m * 2 powi e"
  shows "val (round_ratio a b) = real a / real b"
proof (cases "a = 0")
  case False
  then show ?thesis using round_ratio_le [OF assms(1,2), of a e] round_ratio_ge [OF assms(1) _ assms(2), of a e] assms(3) by simp
qed (simp add: round_ratio_def)

lemma float_of_exact: "n \<le> 2 ^ 53 \<Longrightarrow> val (float_of n) = real n"
  using round_ratio_exact [of 1 n n 0] by (simp add: float_of_def)

text \<open>Rounding is monotonic.\<close>

lemma round_ratio_mono:
  assumes "0 < b" "0 < d" "0 < a" "real a / real b \<le> real c / real d"
  shows "val (round_ratio a b) \<le> val (round_ratio c d)"
proof -
  have "0 < real c / real d" using assms by (smt (verit) divide_pos_pos of_nat_0_less_iff)
  then have c: "0 < c" using assms(2) by (simp add: zero_less_divide_iff)
  obtain A B s where R: "round_ratio a b = FP (rne A B) s" "0 < B" "real A / real B = real a / real b * 2 powi s"
    "2 ^ 52 \<le> real A / real B" "real A / real B < 2 ^ 53" using round_ratioE [OF assms(3,1)] by blast
  obtain C D t where T: "round_ratio c d = FP (rne C D) t" "0 < D" "real C / real D = real c / real d * 2 powi t"
    "2 ^ 52 \<le> real C / real D" "real C / real D < 2 ^ 53" using round_ratioE [OF c assms(2)] by blast
  have le: "real A / real B \<le> real c / real d * 2 powi s" unfolding R(3) using assms(4) by (intro mult_right_mono) auto
  consider "s = t" | "s < t" | "t < s" by linarith
  then show ?thesis
  proof cases
    case 1
    then have "rne A B \<le> rne C D" using le T(3) by (intro rne_mono [OF R(2) T(2)]) simp
    then show ?thesis using R(1) T(1) 1 by simp
  next
    case 2
    have "(2::real) powi (t - 1) \<ge> 2 powi s" using 2 by (intro power_int_increasing) auto
    then have "real A / real B \<le> real c / real d * 2 powi (t - 1)"
      using le \<open>0 < real c / real d\<close> by (meson less_imp_le mult_left_mono order_trans)
    also have "\<dots> = real C / real D / 2" unfolding T(3) by (simp add: power_int_diff)
    also have "\<dots> < 2 ^ 52" using T(5) by simp
    finally show ?thesis using R(4) by simp
  next
    case 3
    let ?v = "real (2 ^ 52) * 2 powi (- t)"
    have "real a / real b = real A / real B * 2 powi (- s)"
      unfolding R(3) by (simp add: mult.assoc flip: power_int_add)
    also have "\<dots> \<le> 2 ^ 53 * 2 powi (- t - 1)"
      using R(5) 3 by (intro mult_mono power_int_increasing) auto
    also have "\<dots> = ?v" by (simp add: power_int_diff)
    finally have "val (round_ratio a b) \<le> ?v" by (intro round_ratio_le [OF assms(1)]) simp_all
    also have "?v \<le> val (round_ratio c d)"
    proof (rule round_ratio_ge [OF assms(2) c])
      have "?v \<le> real C / real D * 2 powi (- t)" using T(4) by (intro mult_right_mono) auto
      also have "\<dots> = real c / real d" unfolding T(3) by (simp add: mult.assoc flip: power_int_add)
      finally show "?v \<le> real c / real d" .
    qed simp
    finally show ?thesis .
  qed
qed

section \<open>Products and truncation\<close>

lemma fmul_ratio:
  "\<exists>a b. fmul x y = round_ratio a b \<and> 0 < b \<and> real a / real b = val x * val y"
proof (cases x; cases y)
  fix m s n t
  assume xy: "x = FP m s" "y = FP n t"
  have "real (pow2_mult (m * n) (- (s + t))) / real (pow2_mult 1 (s + t)) = real (m * n) * 2 powi (- s + - t)"
    using pow2_mult_ratio [of "m * n" "- (s + t)" 1] by (simp add: add.commute)
  also have "\<dots> = val x * val y" unfolding power_int_add [of "2 :: real" "- s" "- t", OF disjI1, OF zero_neq_numeral [symmetric]] by (simp add: xy)
  finally have "real (pow2_mult (m * n) (- (s + t))) / real (pow2_mult 1 (s + t)) = val x * val y" .
  then show ?thesis using xy by (intro exI conjI) auto
qed

lemma fmul_le:
  assumes "val x * val y \<le> real m * 2 powi e" "m \<le> 2 ^ 53"
  shows "val (fmul x y) \<le> real m * 2 powi e"
  using fmul_ratio [of x y] round_ratio_le assms by metis

lemma val_nonneg: "0 \<le> val x"
  by (cases x) simp

lemma round_ratio_zero: "val (round_ratio a b) = 0" if "a = 0"
  using that by (simp add: round_ratio_def)

lemma fmul_mono:
  assumes "val x * val y \<le> val x' * val y'"
  shows "val (fmul x y) \<le> val (fmul x' y')"
proof -
  obtain a b where A: "fmul x y = round_ratio a b" "0 < b" "real a / real b = val x * val y" using fmul_ratio by blast
  obtain c d where C: "fmul x' y' = round_ratio c d" "0 < d" "real c / real d = val x' * val y'" using fmul_ratio by blast
  show ?thesis
  proof (cases "a = 0")
    case True
    then show ?thesis using A(1) val_nonneg [of "fmul x' y'"] by (simp add: round_ratio_def)
  next
    case False
    then show ?thesis using A C assms round_ratio_mono [of b d a c] by simp
  qed
qed

lemma trunc_floor: "int (trunc x) = \<lfloor>val x\<rfloor>"
proof (cases x)
  case (FP m s)
  have "val x = real (pow2_mult m (- s)) / real (pow2_mult 1 s)"
    using pow2_mult_ratio [of m "- s" 1] by (simp add: FP)
  then show ?thesis by (simp add: FP floor_divide_of_nat_eq)
qed

lemma trunc_mono: "val x \<le> val y \<Longrightarrow> trunc x \<le> trunc y"
  using trunc_floor [of x] trunc_floor [of y] floor_mono [of "val x" "val y"] by simp

lemma trunc_le: "val x \<le> real n \<Longrightarrow> trunc x \<le> n"
  using trunc_floor [of x] floor_mono [of "val x" "real n"] by simp

lemma fdiv_ratio:
  assumes "val y \<noteq> 0"
  shows "\<exists>a b. fdiv x y = round_ratio a b \<and> 0 < b \<and> real a / real b = val x / val y"
proof (cases x; cases y)
  fix m s n t
  assume xy: "x = FP m s" "y = FP n t"
  have n: "0 < n" using assms xy by auto
  have "real (pow2_mult m (t - s)) / real (pow2_mult n (s - t)) = real m / real n * 2 powi (t - s)"
    using pow2_mult_ratio [of m "t - s" n] by simp
  also have "\<dots> = val x / val y" by (simp add: xy power_int_diff power_int_minus divide_inverse mult_ac)
  finally have "real (pow2_mult m (t - s)) / real (pow2_mult n (s - t)) = val x / val y" .
  then show ?thesis using xy n by (intro exI conjI) auto
qed

text \<open>A quotient that is an integer of at most 53 bits is exact and printed as it is.\<close>

lemma fdiv_exact:
  assumes "val y \<noteq> 0" "val x = real n * val y" "n \<le> 2 ^ 53"
  shows "val (fdiv x y) = real n"
proof -
  obtain a b where R: "fdiv x y = round_ratio a b" "0 < b" "real a / real b = val x / val y"
    using fdiv_ratio [OF assms(1)] by blast
  have "real a / real b = real n * 2 powi 0" using R(3) assms(1,2) by simp
  from round_ratio_exact [OF R(2) assms(3) this] show ?thesis using R(1) \<open>real a / real b = real n * 2 powi 0\<close> by simp
qed

lemma decimals_exact:
  assumes "val x = real n"
  shows "decimals 0 x = n"
proof (cases x)
  case (FP m s)
  have "real (pow2_mult m (- s)) / real (pow2_mult 1 s) = real n"
    using pow2_mult_ratio [of m "- s" 1] assms by (simp add: FP)
  then have "rne (pow2_mult m (- s)) (pow2_mult 1 s) = n" by (intro antisym rne_le rne_ge) simp_all
  then show ?thesis by (simp add: FP)
qed

section \<open>Evaluation\<close>

lemma floorlog_eval: "floorlog 2 (numeral n) = floorlog 2 (numeral n div 2) + 1" "floorlog 2 (Suc 0) = 1"
  using compute_floorlog [of 2 "numeral n"] compute_floorlog [of 2 1] compute_floorlog [of 2 0] by simp_all

lemmas float_eval = floorlog_eval pow2_mult_def scale_of_def round_ratio_def rne_def float_of_def

end
