(* ===== verification/Bench_Report.thy ===== *)
theory Bench_Report
  imports Load_Driver Float64
begin

text \<open>
  The rest of the transport benchmark (\<open>cmd/confirmbench/main.go\<close>): the byte-counting connections,
  the no-op servers, one cell of the table from the reset of the counters to the printed row, and the
  numbers in the row with the floating-point arithmetic they are computed in. What goes over the wire
  and how long a call takes are the environment's; \<open>proto.Marshal\<close> is a parameter. The bytes of a row
  include those of the warm-up calls.
\<close>

section \<open>Byte counters\<close>

text \<open>A connection of the counting listener: the two counters grow by what \<open>Read\<close> and \<open>Write\<close> return.\<close>

datatype conn_event = ConnRead nat | ConnWrite nat

record counters =
  bytes_in :: "64 word"
  bytes_out :: "64 word"

definition reset_counters :: counters where
  "reset_counters = \<lparr>bytes_in = 0, bytes_out = 0\<rparr>"

fun count_conn :: "conn_event \<Rightarrow> counters \<Rightarrow> counters" where
  "count_conn (ConnRead n) c = c\<lparr>bytes_in := bytes_in c + of_nat n\<rparr>"
| "count_conn (ConnWrite n) c = c\<lparr>bytes_out := bytes_out c + of_nat n\<rparr>"

section \<open>The no-op servers\<close>

definition noop_SendConfirmation :: "'req \<Rightarrow> gerr + unit" where
  "noop_SendConfirmation req = Inr ()"

text \<open>The REST handler ignores what it decodes; the mux answers any other path with 404.\<close>

definition rest_confirm :: "string \<Rightarrow> string \<Rightarrow> int \<times> string" where
  "rest_confirm path body = (if path = ''/confirm'' then (200, ''{}'') else (404, ''404 page not found'' @ [CHR 0x0A]))"

section \<open>Text\<close>

definition padl :: "nat \<Rightarrow> string \<Rightarrow> string" where
  "padl n s = replicate (n - char_count s) (CHR '' '') @ s"

definition padr :: "nat \<Rightarrow> string \<Rightarrow> string" where
  "padr n s = s @ replicate (n - char_count s) (CHR '' '')"

definition dec_int :: "int \<Rightarrow> string" where
  "dec_int i = (if i < 0 then CHR ''-'' # dec (nat (- i)) else dec (nat i))"

text \<open>\<open>%.kf\<close>: the digits of the rounded value with the point \<open>k\<close> places from the right.\<close>

definition fixed :: "nat \<Rightarrow> float64 \<Rightarrow> string" where
  "fixed k x =
     (let n = decimals k x; frac = dec (n mod 10 ^ k) in
      if k = 0 then dec n
      else dec (n div 10 ^ k) @ ''.'' @ replicate (k - length frac) (CHR ''0'') @ frac)"

text \<open>A printed quotient of two integers: \<open>%.kf\<close> of \<open>float64(a)/float64(b)\<close> with \<open>b\<close> not negative.\<close>

definition quotient_text :: "nat \<Rightarrow> int \<Rightarrow> nat \<Rightarrow> string" where
  "quotient_text k a b =
     (if b = 0 then (if a = 0 then ''NaN'' else if a < 0 then ''-Inf'' else ''+Inf'')
      else (if a < 0 then ''-'' else []) @ fixed k (fdiv (float_of (nat \<bar>a\<bar>)) (float_of b)))"

section \<open>The row\<close>

text \<open>\<open>pct\<close>: \<open>None\<close> is the panic of an index outside the slice.\<close>

definition pct :: "duration list \<Rightarrow> float64 \<Rightarrow> duration option" where
  "pct lat p =
     (if lat = [] then Some 0
      else (let i = trunc (fmul p (float_of (length lat - 1))) in
            if i < length lat then Some (lat ! i) else None))"

text \<open>The constants \<open>0.50\<close>, \<open>0.95\<close>, \<open>0.99\<close> as the compiler converts them.\<close>

definition p50 :: float64 where "p50 = round_ratio 50 100"
definition p95 :: float64 where "p95 = round_ratio 95 100"
definition p99 :: float64 where "p99 = round_ratio 99 100"

text \<open>The two letters of the unit are preceded by the micro sign, two bytes in UTF-8.\<close>

definition dur :: "duration \<Rightarrow> string" where
  "dur d =
     (if sint d < sint time_Millisecond then dec_int (Microseconds d) @ [CHR 0xC2, CHR 0xB5] @ ''s''
      else quotient_text 2 (Microseconds d) 1000 @ ''ms'')"

text \<open>\<open>Duration.Seconds\<close> of an elapsed time, which the monotonic clock keeps non-negative.\<close>

fun fadd :: "float64 \<Rightarrow> float64 \<Rightarrow> float64" where
  "fadd (FP m s) (FP n t) =
     (let k = max s t in round_ratio (pow2_mult (pow2_mult m (k - s) + pow2_mult n (k - t)) (- k)) (pow2_mult 1 k))"

definition Seconds :: "nat \<Rightarrow> float64" where
  "Seconds d = fadd (float_of (d div 1000000000)) (fdiv (float_of (d mod 1000000000)) (float_of 1000000000))"

record bench_result =
  reqs :: nat
  elapsed :: nat
  latencies :: "duration list"

definition rps :: "bench_result \<Rightarrow> string" where
  "rps r = (if elapsed r = 0 then (if reqs r = 0 then ''NaN'' else ''+Inf'')
     else fixed 0 (fdiv (float_of (reqs r)) (Seconds (elapsed r))))"

text \<open>\<open>sort.Slice\<close> by the signed values; equal latencies are the same value, so the order is unique.\<close>

definition sort_latencies :: "duration list \<Rightarrow> duration list" where
  "sort_latencies = sort_key sint"

text \<open>The line has the six cells of speed on the left and the two cells of bytes on the right.\<close>

definition row_left :: "string \<Rightarrow> nat \<Rightarrow> bench_result \<Rightarrow> duration \<Rightarrow> duration \<Rightarrow> duration \<Rightarrow> string" where
  "row_left name conc r a b c =
     padr 6 name @ '' '' @ padr 6 (dec conc) @ '' '' @ padl 12 (rps r) @ '' '' @
     padl 10 (dur a) @ '' '' @ padl 10 (dur b) @ '' '' @ padl 10 (dur c) @ '' ''"

definition printRow :: "string \<Rightarrow> nat \<Rightarrow> bench_result \<Rightarrow> 64 word \<Rightarrow> 64 word \<Rightarrow> string option" where
  "printRow name conc r bytesIn bytesOut =
     (let lat = sort_latencies (latencies r) in
      case (pct lat p50, pct lat p95, pct lat p99) of
        (Some a, Some b, Some c) \<Rightarrow>
          Some (row_left name conc r a b c @ padl 9 (quotient_text 0 (sint bytesIn) (reqs r)) @ '' '' @
            padl 9 (quotient_text 0 (sint bytesOut) (reqs r)) @ [CHR 0x0A])
      | _ \<Rightarrow> None)"

section \<open>One cell of the table\<close>

definition warmup :: nat where "warmup = 3000"
definition total_requests :: nat where "total_requests = 30000"
definition concurrencies :: "nat list" where "concurrencies = [1, 8, 64]"

text \<open>A finished call of \<open>drive\<close>.\<close>

definition drives :: "nat \<Rightarrow> nat \<Rightarrow> drive_state \<Rightarrow> bool" where
  "drives concurrency cnt s \<longleftrightarrow> (drive_step cnt)\<^sup>*\<^sup>* (drive_init concurrency cnt) s \<and> all_returned s"

text \<open>
  \<open>benchGRPC\<close> and \<open>benchHTTP\<close>: the warm-up calls, whose result is dropped, then the measured calls,
  which take \<open>t\<close> nanoseconds in all.
\<close>

definition bench_run :: "nat \<Rightarrow> drive_state \<Rightarrow> bench_result \<Rightarrow> bool" where
  "bench_run c s res \<longleftrightarrow> (\<exists>s0 t. drives c warmup s0 \<and> drives c total_requests s \<and>
     res = \<lparr>reqs = total_requests, elapsed = t, latencies = dr_lat s\<rparr>)"

text \<open>
  A cell of the table, from the reset of the counters to the row; \<open>traffic\<close> is everything the
  server's connections read and wrote meanwhile.
\<close>

inductive bench_cell :: "string \<Rightarrow> nat \<Rightarrow> conn_event list \<Rightarrow> drive_state \<Rightarrow> string option \<Rightarrow> bool" where
  "bench_run c s res \<Longrightarrow> cs = fold count_conn traffic reset_counters \<Longrightarrow>
   row = printRow name c res (bytes_in cs) (bytes_out cs) \<Longrightarrow>
   bench_cell name c traffic s row"

inductive_cases bench_cellE: "bench_cell name c traffic s row"

text \<open>\<open>main\<close>: for every concurrency a gRPC and a REST row.\<close>

definition cells :: "(string \<times> nat) list" where
  "cells = concat (map (\<lambda>c. [(''gRPC'', c), (''REST'', c)]) concurrencies)"

definition bench_main :: "string option list \<Rightarrow> bool" where
  "bench_main rows \<longleftrightarrow> list_all2 (\<lambda>(name, c) row. \<exists>traffic s. bench_cell name c traffic s row) cells rows"

section \<open>Payload sizes\<close>

text \<open>
  \<open>json.Marshal\<close> of the request struct. The strings are ASCII literals; besides quotes, backslashes
  and control characters the encoder escapes the three characters that matter in HTML.
\<close>

record jsonReq =
  jr_Email :: string
  jr_Repo :: string
  jr_ConfirmURL :: string

definition hex_digit :: "nat \<Rightarrow> char" where
  "hex_digit n = ''0123456789abcdef'' ! n"

definition json_char :: "char \<Rightarrow> string" where
  "json_char c =
     (if c = CHR 0x22 \<or> c = CHR 0x5C then [CHR 0x5C, c]
      else if c = CHR 0x0A then [CHR 0x5C, CHR ''n''] else if c = CHR 0x0D then [CHR 0x5C, CHR ''r'']
      else if c = CHR 0x09 then [CHR 0x5C, CHR ''t''] else if c = CHR 0x08 then [CHR 0x5C, CHR ''b'']
      else if c = CHR 0x0C then [CHR 0x5C, CHR ''f'']
      else if (of_char c :: nat) < 32 \<or> c \<in> {CHR ''<'', CHR ''>'', CHR ''&''}
      then [CHR 0x5C, CHR ''u'', CHR ''0'', CHR ''0'', hex_digit (of_char c div 16), hex_digit (of_char c mod 16)]
      else [c])"

definition json_text :: "string \<Rightarrow> string" where
  "json_text s = [CHR 0x22] @ concat (map json_char s) @ [CHR 0x22]"

definition marshal_jsonReq :: "jsonReq \<Rightarrow> string" where
  "marshal_jsonReq r =
     ''{'' @ json_text ''email'' @ '':'' @ json_text (jr_Email r) @ '','' @ json_text ''repo'' @ '':'' @ json_text (jr_Repo r) @
     '','' @ json_text ''confirm_url'' @ '':'' @ json_text (jr_ConfirmURL r) @ ''}''"

definition payload_samples :: "(string \<times> jsonReq) list" where
  "payload_samples =
     [(''small'', \<lparr>jr_Email = ''user@example.com'', jr_Repo = ''golang/go'',
        jr_ConfirmURL = ''http://localhost:8080/api/confirm/8b1e6a3c-0f4d-4c2a-9b7e-1d2c3f4a5b6c''\<rparr>),
      (''large'', \<lparr>jr_Email = ''some.longer.name+release-tag@mail.subdomain.example.co.uk'', jr_Repo = ''kubernetes/kubernetes'',
        jr_ConfirmURL = ''https://notifications.example.com/api/v1/confirm/8b1e6a3c-0f4d-4c2a-9b7e-1d2c3f4a5b6c?src=email&campaign=weekly''\<rparr>)]"

definition payload_line :: "(jsonReq \<Rightarrow> string) \<Rightarrow> string \<times> jsonReq \<Rightarrow> string" where
  "payload_line proto_Marshal s =
     (let pb = proto_Marshal (snd s); js = marshal_jsonReq (snd s) in
      padr 8 (fst s) @ '' '' @ padl 9 (dec (length pb)) @ ''B '' @ padl 9 (dec (length js)) @ ''B '' @
      padl 7 (quotient_text 2 (int (length js)) (length pb)) @ ''x'' @ [CHR 0x0A])"

definition newline :: string where "newline = [CHR 0x0A]"

definition printPayloadSizes :: "(jsonReq \<Rightarrow> string) \<Rightarrow> string" where
  "printPayloadSizes proto_Marshal =
     newline @ ''payload size (serialization only, one request):'' @ newline @
     padr 8 ''size'' @ '' '' @ padl 10 ''Protobuf'' @ '' '' @ padl 10 ''JSON'' @ '' '' @ padl 8 ''ratio'' @ newline @
     replicate 44 (CHR ''-'') @ newline @
     concat (map (payload_line proto_Marshal) payload_samples) @
     newline @ ''(req B/w and resp B/w above are total bytes on the wire per request,'' @ newline @
     '' including HTTP framing + headers: HTTP/2 HPACK vs HTTP/1.1 plain text.)'' @ newline"

section \<open>The output\<close>

text \<open>
  What \<open>main\<close> prints before the rows: the dash of the first line is three bytes in UTF-8, and \<open>%q\<close> puts
  the payload's strings, printable ASCII without quotes or backslashes, between quotes.
\<close>

definition bench_payload :: jsonReq where
  "bench_payload = \<lparr>jr_Email = ''user@example.com'', jr_Repo = ''golang/go'',
     jr_ConfirmURL = ''http://localhost:8080/api/confirm/8b1e6a3c-0f4d-4c2a-9b7e-1d2c3f4a5b6c''\<rparr>"

definition quoted :: "string \<Rightarrow> string" where
  "quoted s = [CHR 0x22] @ s @ [CHR 0x22]"

definition table_heading :: string where
  "table_heading =
     ''confirmbench '' @ [CHR 0xE2, CHR 0x80, CHR 0x94] @ '' '' @ dec total_requests @ '' measured requests per cell, warmup '' @
       dec warmup @ newline @
     ''payload: email='' @ quoted (jr_Email bench_payload) @ '' repo='' @ quoted (jr_Repo bench_payload) @
       '' confirm_url='' @ quoted (jr_ConfirmURL bench_payload) @ newline @ newline @
     padr 6 ''proto'' @ '' '' @ padr 6 ''conc'' @ '' '' @ padl 12 ''req/s'' @ '' '' @ padl 10 ''p50'' @ '' '' @
       padl 10 ''p95'' @ '' '' @ padl 10 ''p99'' @ '' '' @ padl 10 ''req B/w'' @ '' '' @ padl 10 ''resp B/w'' @ newline @
     replicate 85 (CHR ''-'') @ newline"

text \<open>The whole output; no value where a row panics.\<close>

definition bench_output :: "(jsonReq \<Rightarrow> string) \<Rightarrow> string option list \<Rightarrow> string option" where
  "bench_output proto_Marshal rows =
     (if None \<in> set rows then None
      else Some (table_heading @ concat (map the rows) @ printPayloadSizes proto_Marshal))"

text \<open>The ampersand of the larger sample takes six bytes.\<close>

lemma payload_json_sizes: "map (\<lambda>s. length (marshal_jsonReq (snd s))) payload_samples = [134, 233]"
  by code_simp

section \<open>Percentiles\<close>

lemma constants_eval: "p50 = FP 4503599627370496 53" "p95 = FP 8556839292003942 53" "p99 = FP 8917127262193582 53"
  by (simp_all add: p50_def p95_def p99_def float_eval Let_def)

lemma constants_le: "val p50 \<le> val p95" "val p95 \<le> val p99" "val p99 \<le> 1"
  by (simp_all add: constants_eval power_int_minus)

lemma pct_index_le:
  assumes "val p \<le> 1" "n \<le> 2 ^ 53"
  shows "trunc (fmul p (float_of n)) \<le> n"
proof (rule trunc_le)
  have "val p * val (float_of n) \<le> 1 * real n" using assms val_nonneg by (intro mult_mono) (simp_all add: float_of_exact)
  then show "val (fmul p (float_of n)) \<le> real n" using fmul_le [of p "float_of n" n 0] assms(2) by simp
qed

lemma pct_index_mono: "val p \<le> val q \<Longrightarrow> trunc (fmul p (float_of n)) \<le> trunc (fmul q (float_of n))"
  using val_nonneg by (intro trunc_mono fmul_mono mult_right_mono) simp_all

text \<open>At the size of the benchmark.\<close>

lemma pct_index_total:
  "trunc (fmul p50 (float_of 29999)) = 14999" "trunc (fmul p95 (float_of 29999)) = 28499"
  "trunc (fmul p99 (float_of 29999)) = 29699"
  by (simp_all add: constants_eval float_eval Let_def)

lemma length_sort_latencies [simp]: "length (sort_latencies xs) = length xs"
  by (simp add: sort_latencies_def)

lemma sort_latencies_mono:
  "i \<le> j \<Longrightarrow> j < length xs \<Longrightarrow> sint (sort_latencies xs ! i) \<le> sint (sort_latencies xs ! j)"
  using sorted_nth_mono [of "map sint (sort_latencies xs)" i j] by (simp add: sort_latencies_def)

text \<open>The element at index \<open>i\<close> has at least \<open>i + 1\<close> elements no larger than itself.\<close>

lemma sort_latencies_rank:
  assumes "i < length xs"
  shows "Suc i \<le> length (filter (\<lambda>x. sint x \<le> sint (sort_latencies xs ! i)) xs)"
proof -
  let ?P = "\<lambda>x. sint x \<le> sint (sort_latencies xs ! i)" and ?s = "sort_latencies xs"
  have "mset ?s = mset xs" by (simp add: sort_latencies_def)
  then have "length (filter ?P xs) = length (filter ?P ?s)" by (metis mset_filter size_mset)
  also have "\<dots> = length (filter ?P (take (Suc i) ?s)) + length (filter ?P (drop (Suc i) ?s))"
    by (metis append_take_drop_id filter_append length_append)
  also have "filter ?P (take (Suc i) ?s) = take (Suc i) ?s"
    using assms by (intro filter_True) (auto simp: in_set_conv_nth intro!: sort_latencies_mono)
  finally show ?thesis using assms by simp
qed

lemma pct_in_range:
  assumes "xs \<noteq> []" "length xs \<le> 2 ^ 53" "val p \<le> 1"
  shows "pct (sort_latencies xs) p = Some (sort_latencies xs ! trunc (fmul p (float_of (length xs - 1))))"
    "trunc (fmul p (float_of (length xs - 1))) < length xs"
proof -
  have "trunc (fmul p (float_of (length xs - 1))) \<le> length xs - 1" using assms by (intro pct_index_le) auto
  then show i: "trunc (fmul p (float_of (length xs - 1))) < length xs" using assms(1) by (cases xs) auto
  have "sort_latencies xs \<noteq> []" using assms(1) length_sort_latencies [of xs] by (metis length_0_conv)
  then show "pct (sort_latencies xs) p = Some (sort_latencies xs ! trunc (fmul p (float_of (length xs - 1))))"
    using i by (simp add: pct_def)
qed

section \<open>Finished runs\<close>

lemma drives_inv:
  assumes "drives n cnt s" "0 < n" "int n + int cnt < 2 ^ 63"
  shows "drive_inv n cnt s" "mset (map snd (dr_log s)) = mset (dr_lat s)" "length (dr_lat s) = cnt"
proof -
  from assms(1) obtain k where "(drive_step cnt ^^ k) (drive_init n cnt) s"
    unfolding drives_def using rtranclp_imp_relpowp by fast
  then show inv: "drive_inv n cnt s" using drive_run_inv assms(3) by blast
  have "all_returned s" using assms(1) by (simp add: drives_def)
  note f = drive_finished [OF inv this assms(2)]
  then show len: "length (dr_lat s) = cnt" by blast
  have "map snd (dr_log s) = map (\<lambda>i. dr_lat s ! nat i) (map fst (dr_log s))" using f by auto
  then have "mset (map snd (dr_log s)) = image_mset (\<lambda>i. dr_lat s ! nat i) (mset (map int [0..<cnt]))"
    using f by (metis mset_map)
  also have "\<dots> = mset (map (\<lambda>i. dr_lat s ! i) [0..<cnt])" by (simp add: multiset.map_comp comp_def flip: mset_map)
  also have "\<dots> = mset (dr_lat s)" using len map_nth [of "dr_lat s"] by simp
  finally show "mset (map snd (dr_log s)) = mset (dr_lat s)" .
qed

text \<open>A run can always be finished.\<close>

lemma drive_can_finish:
  assumes "0 < n" "int n + int cnt < 2 ^ 63"
  shows "\<exists>s. drives n cnt s"
proof -
  have "\<exists>s. drives n cnt s" if "drive_inv n cnt t" "(drive_step cnt)\<^sup>*\<^sup>* (drive_init n cnt) t" for t
    using that
  proof (induction "drive_left cnt t" arbitrary: t)
    case 0
    then show ?case using all_returned_left assms(1) unfolding drives_def by auto
  next
    case (Suc k)
    then have "\<not> all_returned t" using all_returned_left [OF Suc.prems(1) assms(1)] by simp
    then obtain t' where step: "drive_step cnt t t'" using drive_progress [OF Suc.prems(1)] by blast
    have "drive_inv n cnt t'" using drive_step_inv [OF Suc.prems(1) step assms(2)] .
    moreover have "k = drive_left cnt t'" using drive_left_step [OF Suc.prems(1) calculation step] Suc.hyps(2) by simp
    moreover have "(drive_step cnt)\<^sup>*\<^sup>* (drive_init n cnt) t'" using Suc.prems(2) step by (rule rtranclp.rtrancl_into_rtrancl)
    ultimately show ?case using Suc.hyps(1) by blast
  qed
  then show ?thesis using drive_init_inv by blast
qed

lemma bench_cell_exists:
  assumes "0 < c" "c \<le> 2 ^ 62"
  shows "\<exists>s row. bench_cell name c traffic s row"
proof -
  have "int c + int warmup < 2 ^ 63" "int c + int total_requests < 2 ^ 63" using assms(2) by (simp_all add: warmup_def total_requests_def)
  then obtain s0 s where "drives c warmup s0" "drives c total_requests s" using drive_can_finish [OF assms(1)] by blast
  then have "bench_run c s \<lparr>reqs = total_requests, elapsed = 0, latencies = dr_lat s\<rparr>" unfolding bench_run_def by blast
  from bench_cell.intros [OF this refl refl] show ?thesis by blast
qed

lemma bench_cell_run:
  assumes "bench_cell name c traffic s row" "0 < c" "c \<le> 2 ^ 62"
  shows "mset (map snd (dr_log s)) = mset (dr_lat s)" "length (dr_lat s) = 30000"
proof -
  have "drives c total_requests s" using assms(1) by (auto simp: bench_run_def elim!: bench_cellE)
  moreover have "int c + int total_requests < 2 ^ 63" using assms(3) by (simp add: total_requests_def)
  ultimately show "mset (map snd (dr_log s)) = mset (dr_lat s)" "length (dr_lat s) = 30000"
    using drives_inv [of c total_requests s] assms(2) by (simp_all add: total_requests_def)
qed

lemma cell_percentiles:
  assumes "bench_cell name c traffic s row" "0 < c" "c \<le> 2 ^ 62"
  shows "pct (sort_latencies (dr_lat s)) p50 = Some (sort_latencies (dr_lat s) ! 14999)"
    "pct (sort_latencies (dr_lat s)) p95 = Some (sort_latencies (dr_lat s) ! 28499)"
    "pct (sort_latencies (dr_lat s)) p99 = Some (sort_latencies (dr_lat s) ! 29699)"
proof -
  note len = bench_cell_run(2) [OF assms]
  then have "dr_lat s \<noteq> []" by auto
  from pct_in_range [OF this] show "pct (sort_latencies (dr_lat s)) p50 = Some (sort_latencies (dr_lat s) ! 14999)"
    "pct (sort_latencies (dr_lat s)) p95 = Some (sort_latencies (dr_lat s) ! 28499)"
    "pct (sort_latencies (dr_lat s)) p99 = Some (sort_latencies (dr_lat s) ! 29699)"
    using len constants_le pct_index_total by simp_all
qed

lemma row_printed:
  assumes "bench_cell name c traffic s row" "0 < c" "c \<le> 2 ^ 62"
  shows "row \<noteq> None"
  using assms(1) by (rule bench_cellE) (auto simp: bench_run_def printRow_def Let_def cell_percentiles [OF assms])

text \<open>The value at an index of the sorted latencies, seen from the calls.\<close>

lemma order_statistic:
  assumes "mset (map snd l) = mset xs" "i < length xs" "v = sort_latencies xs ! i"
  shows "v \<in> snd ` set l" "Suc i \<le> length (filter (\<lambda>(j, x). sint x \<le> sint v) l)"
proof -
  have "v \<in> set (sort_latencies xs)" using assms(2,3) by simp
  then have "v \<in> set xs" by (simp add: sort_latencies_def)
  then show "v \<in> snd ` set l" using mset_eq_setD [OF assms(1)] by simp
  have "length (filter (\<lambda>(j, x). sint x \<le> sint v) l) = length (filter (\<lambda>x. sint x \<le> sint v) (map snd l))"
    by (simp add: filter_map comp_def case_prod_unfold)
  also have "\<dots> = length (filter (\<lambda>x. sint x \<le> sint v) xs)" using assms(1) by (metis mset_filter size_mset)
  finally show "Suc i \<le> length (filter (\<lambda>(j, x). sint x \<le> sint v) l)" using sort_latencies_rank [OF assms(2)] assms(3) by simp
qed

text \<open>The whole table is printed.\<close>

lemma table_printed: "bench_main rows \<Longrightarrow> length rows = 6 \<and> None \<notin> set rows"
  using row_printed
  by (fastforce simp: bench_main_def cells_def concurrencies_def list_all2_Cons1)

lemma output_printed: "bench_main rows \<Longrightarrow> \<exists>t. bench_output proto_Marshal rows = Some t"
  using table_printed by (auto simp: bench_output_def)

section \<open>Properties\<close>

text \<open>
  C39: However the goroutines interleave, a row of the table is printed (no index leaves the slice,
  although it is computed in floating point), its three percentiles are latencies of measured calls in
  ascending order, and at least 50, 95 and 99 percent of the 30000 measured calls were no slower.
\<close>

theorem percentiles_sound:
  assumes "bench_cell name c traffic s row" and "0 < c" and "c \<le> 2 ^ 62"
  shows "\<exists>a b d. pct (sort_latencies (dr_lat s)) p50 = Some a \<and> pct (sort_latencies (dr_lat s)) p95 = Some b \<and>
     pct (sort_latencies (dr_lat s)) p99 = Some d \<and> row \<noteq> None \<and> sint a \<le> sint b \<and> sint b \<le> sint d \<and>
     {a, b, d} \<subseteq> snd ` set (dr_log s) \<and>
     15000 \<le> length (filter (\<lambda>(i, x). sint x \<le> sint a) (dr_log s)) \<and>
     28500 \<le> length (filter (\<lambda>(i, x). sint x \<le> sint b) (dr_log s)) \<and>
     29700 \<le> length (filter (\<lambda>(i, x). sint x \<le> sint d) (dr_log s))"
proof -
  note run = bench_cell_run [OF assms] and p = cell_percentiles [OF assms]
  let ?lat = "sort_latencies (dr_lat s)"
  have "row \<noteq> None" by (rule row_printed [OF assms])
  moreover have "sint (?lat ! 14999) \<le> sint (?lat ! 28499)" "sint (?lat ! 28499) \<le> sint (?lat ! 29699)"
    using run(2) by (simp_all add: sort_latencies_mono)
  ultimately show ?thesis
    using p order_statistic [OF run(1) _ refl, of 14999] order_statistic [OF run(1) _ refl, of 28499]
      order_statistic [OF run(1) _ refl, of 29699] run(2) by simp
qed

theorem percentiles_sound_witness:
  "\<exists>s row a. bench_cell ''gRPC'' 8 [] s row \<and> pct (sort_latencies (dr_lat s)) p95 = Some a \<and>
     28500 \<le> length (filter (\<lambda>(i, x). sint x \<le> sint a) (dr_log s))"
proof -
  obtain s row where cell: "bench_cell ''gRPC'' 8 [] s row" using bench_cell_exists [of 8 "''gRPC''" "[]"] by auto
  then show ?thesis using percentiles_sound [OF cell] by fastforce
qed

lemma count_conn_in:
  "bytes_in (fold count_conn es c) = bytes_in c + of_nat (sum_list (map (\<lambda>e. case e of ConnRead n \<Rightarrow> n | _ \<Rightarrow> 0) es))"
proof (induction es arbitrary: c)
  case (Cons e es)
  then show ?case by (cases e) (simp_all add: add.assoc)
qed simp

lemma quotient_text_exact:
  assumes "a = int (n * b)" "0 < b" "n * b \<le> 2 ^ 53" "n \<le> 2 ^ 53" "b \<le> 2 ^ 53"
  shows "quotient_text 0 a b = dec n"
proof -
  have "val (fdiv (float_of (n * b)) (float_of b)) = real n"
    using assms by (intro fdiv_exact) (simp_all add: float_of_exact)
  moreover have "\<not> a < 0" "nat \<bar>a\<bar> = n * b" using assms(1) by (simp_all add: nat_int del: of_nat_mult)
  ultimately show ?thesis using assms(2) by (simp add: quotient_text_def fixed_def Let_def decimals_exact)
qed

text \<open>
  C40: The bytes per request of a row count the warm-up: when each of the 33000 requests of a cell puts
  \<open>10 k\<close> bytes on the wire towards the server, the row prints \<open>11 k\<close> bytes per request.
\<close>

theorem wire_bytes_inflated:
  assumes "bench_cell name c traffic s row" and "0 < c" and "c \<le> 2 ^ 62" and "k \<le> 2 ^ 20"
    and "sum_list (map (\<lambda>e. case e of ConnRead n \<Rightarrow> n | _ \<Rightarrow> 0) traffic) = (warmup + total_requests) * (10 * k)"
  shows "\<exists>t a b d. row = Some (row_left name c \<lparr>reqs = total_requests, elapsed = t, latencies = dr_lat s\<rparr> a b d @
     padl 9 (dec (11 * k)) @ '' '' @
     padl 9 (quotient_text 0 (sint (bytes_out (fold count_conn traffic reset_counters))) total_requests) @ [CHR 0x0A])"
proof -
  let ?b = "bytes_in (fold count_conn traffic reset_counters)"
  have "?b = word_of_int (int (11 * k * 30000))"
    using count_conn_in [of traffic reset_counters] assms(5)
    by (simp add: reset_counters_def warmup_def total_requests_def)
  then have "sint ?b = int (11 * k * 30000)"
    using assms(4) sint_word_of_int_range [of "int (11 * k * 30000)"] by simp
  then have q: "quotient_text 0 (sint ?b) total_requests = dec (11 * k)"
    using assms(4) by (intro quotient_text_exact) (simp_all add: total_requests_def)
  obtain t where row: "row = printRow name c \<lparr>reqs = total_requests, elapsed = t, latencies = dr_lat s\<rparr> ?b
      (bytes_out (fold count_conn traffic reset_counters))"
    using assms(1) by (auto simp: bench_run_def elim!: bench_cellE)
  then show ?thesis
    using cell_percentiles [OF assms(1-3)] q
    by (simp add: printRow_def Let_def) blast
qed

theorem wire_bytes_inflated_witness:
  "\<exists>s row left right. bench_cell ''REST'' 1 (replicate 33000 (ConnRead 400)) s row \<and>
     row = Some (left @ padl 9 (dec 440) @ '' '' @ right)"
proof -
  let ?tr = "replicate 33000 (ConnRead 400)"
  obtain s row where cell: "bench_cell ''REST'' 1 ?tr s row" using bench_cell_exists [of 1 "''REST''" ?tr] by auto
  have "sum_list (map (\<lambda>e. case e of ConnRead n \<Rightarrow> n | _ \<Rightarrow> 0) ?tr) = (warmup + total_requests) * (10 * 40)"
    by (simp add: warmup_def total_requests_def sum_list_replicate)
  from wire_bytes_inflated [OF cell _ _ _ this] show ?thesis using cell by fastforce
qed

end
