(* ===== verification/Spec2Isabelle.thy ===== *)
theory Spec2Isabelle
  imports Saga_Properties Notifier_Properties Api_Properties Progress Load_Driver Startup System_Loops Sessions Registry Recovery Sync_Threads Request_Threads Bench_Report
begin

text \<open>
  \<^bold>\<open>The program.\<close> A service that mails people about new GitHub releases. Two processes share a
  RabbitMQ broker. The \<^emph>\<open>monolith\<close> (\<open>main.go\<close>, \<open>internal/\<close>) serves an HTTP API, keeps
  subscriptions, sagas, an outbox and the tracked repositories in PostgreSQL, caches GitHub's
  answers in Redis and runs four background jobs: the release scanner, the outbox relay, the saga
  sweeper and the consumer of saga replies. The \<^emph>\<open>notifier\<close> (\<open>cmd/notifier\<close>) consumes commands,
  sends the mails, remembers in Redis what it handled and answers with saga replies. A new
  subscription runs as a saga: step T1 writes subscription, saga and command in one transaction,
  the relay publishes the command, the notifier mails the confirmation link and replies, and the
  reply completes the saga or compensates it by marking the subscription failed. With
  \<open>CONFIRMATION_TRANSPORT=grpc\<close> the same is done by one synchronous call.

  \<^bold>\<open>The state and the outside.\<close> A \<open>world\<close> (theory \<open>World\<close>) is the history of all outside calls, the
  database, the metrics and the last-run gauge; an operation takes a world and returns a result \<open>gerr + 'a\<close> and a
  world, one definition per Go function with the function's branches and early returns. The
  database (theory \<open>Schema\<close>) has one list of rows per table, its sequences and, as \<open>db_ok\<close>, the
  constraints of the migrations. PostgreSQL, Redis, GitHub, RabbitMQ, SMTP, the clock and the UUID
  generator are not part of the repository: they are the fields of \<open>env\<close>, functions of the whole
  history so far, so each call may fail or answer differently every time, and a statement may be
  executed although its answer is lost. Unless a theorem names a hypothesis it holds for every
  such \<open>env\<close>. The hypotheses used are \<open>uuid_column\<close> (what PostgreSQL says of UUID input), \<open>pg_up\<close>,
  \<open>amqp_up\<close> and \<open>mail_up\<close> (the service works), \<open>redis_up\<close> (Redis works, its clock does not run backwards
  and a key exists from its last SET until its lifetime is over), \<open>uuids_fresh\<close> (fresh identifiers),
  \<open>redis_sound\<close> (a cached value is one that was stored), \<open>amqp_routing\<close> (how AMQP
  routes and dead-letters) and \<open>codec_ok\<close> (a message is decoded as it was encoded); \<open>Sample_Env\<close> and the witnesses instantiate them.

  \<^bold>\<open>Foundations.\<close> \<open>Prelude\<close>: rows of tables (look-up, update, deletion), text functions, the
  collections of simplification rules. \<open>Go_Errors\<close> (\<open>internal/subscription/errors.go\<close>): error
  values, wrapping, kinds. \<open>Go_Stdlib\<close>: what is used of Go's library. \<open>Repo_Spec\<close>
  (\<open>internal/repospec\<close>). \<open>Logging\<close> (\<open>internal/logging\<close>): the configured level and the level of a
  request line. \<open>Float64\<close>: the floating-point operations the benchmark uses, with round-to-nearest-even
  written out, and that rounding never crosses a representable number.

  \<^bold>\<open>Stores.\<close> \<open>Subscription_Store\<close>, \<open>Saga_Store\<close>, \<open>Outbox_Store\<close>, \<open>Tracking_Store\<close> (the \<open>store.go\<close>
  files): every SQL statement as a function on the database with its constraint violations, every
  store method around it, what each changes and that it keeps the constraints.

  \<^bold>\<open>The saga.\<close> \<open>Compensation\<close>, \<open>Orchestrator\<close>, \<open>Reply_Consumer\<close>, \<open>Sweeper\<close>
  (\<open>internal/orchestrator\<close>): step T1 on both transports with commit and rollback, replies with
  their retry loop, the recovery pass; the state machine \<open>saga_edge\<close> and the interfaces
  \<open>compensator\<close> and \<open>sync_sender\<close>. \<open>Outbox_Relay\<close> (\<open>internal/outbox/relay.go\<close>) against the
  interface \<open>relay_io\<close>. \<open>Saga_Properties\<close>: atomicity of T1, outcome and idempotence of replies,
  what a sweep and a drain achieve, and the states a sweep does not leave.

  \<^bold>\<open>The notifier.\<close> \<open>Notification\<close> (\<open>internal/notification\<close>: wire formats, publisher), \<open>Notifier\<close>
  (\<open>cmd/notifier\<close>: mails, deduplication, consumer, gRPC server; interface \<open>dedup_io\<close>),
  \<open>Grpc_Stub\<close> (the generated code of \<open>gen/notifier/v1\<close> and its use on both sides of a call, shown to
  refine the direct call the rest of the development uses) and \<open>Notifier_Properties\<close>: the exact mails
  and replies of one delivery, no second mail, the faithfulness of the gRPC transport, round trips.

  \<^bold>\<open>Subscriptions, GitHub and releases.\<close> \<open>Email_Pattern\<close> (the address pattern as a regular
  expression, matched by derivatives), \<open>Subscription_Service\<close> (\<open>internal/subscription/service.go\<close>
  against \<open>service_backend\<close>), \<open>Github_Gateway\<close> (\<open>internal/githubgateway\<close>, \<open>internal/cache\<close>;
  interfaces \<open>cacher\<close> and \<open>cached_gateway\<close>), \<open>Scanner\<close> (\<open>internal/releasetracking/scanner.go\<close>
  against \<open>scanner_io\<close>), \<open>Config\<close> (\<open>internal/config\<close>), \<open>Http_Api\<close> (\<open>internal/handler\<close>,
  \<open>internal/app\<close>, \<open>internal/middleware\<close>, \<open>internal/metrics\<close>: a request passes the request log, the
  metrics, the API key and its endpoint), \<open>Monolith\<close> (the wiring of \<open>main.go\<close>, where the interfaces
  are interpreted on the code's own definitions). \<open>Subscribe_Effects\<close>: what beginning a subscription leaves in
  the tables, for both transports and every failure. \<open>Response_Types\<close>: the statuses and JSON types of
  every endpoint. \<open>Accounting\<close>: which metrics the service and the scanner move (interfaces
  \<open>service_counts\<close> and \<open>scanner_counts\<close>). \<open>Api_Properties\<close>: the contracts of the API, the gateway
  and the scanner.

  \<^bold>\<open>Processes.\<close> \<open>Amqp_Session\<close>: dialling, topologies, sessions and the supervised reply consumer.
  \<open>Sessions\<close>: what the two consumers acknowledge and reject, and how their sessions end.
  \<open>Startup\<close>: the two \<open>run\<close> functions with the migrations, their deferred closes and the exit status. \<open>Load_Driver\<close>:
  the concurrent driver of \<open>cmd/confirmbench\<close> as an interleaving of workers over a 64-bit atomic
  counter. \<open>Bench_Report\<close>: the rest of that program, from the byte counters to the printed table.

  \<^bold>\<open>The system.\<close> \<open>Saga_System\<close>: the step relation \<open>sys_step\<close>, whose steps are an HTTP request, a
  drain, a sweep, a reply with its retries, a scan and a delivery, in any order; the invariant
  \<open>sys_inv\<close> and the relation \<open>evo\<close> between states. \<open>System_Loops\<close>: the loops of the processes touch the database
  only by its steps. \<open>Registry\<close>: the subscription table refines an abstract registry of guarded events, with the events
  each operation may cause. \<open>Progress\<close> and
  \<open>Recovery\<close>: what is reached when the outside works. \<open>Saga_Threads\<close> and \<open>Sync_Threads\<close>: reply
  consumer, sweeper and the settling half of a synchronous request statement by statement, shown to
  compute the whole operations when run alone. \<open>Request_Threads\<close>: any number of subscriptions
  statement by statement, with what the others may do in between. This theory holds the properties that span components.

  \<^bold>\<open>Granularity.\<close> A step of \<open>sys_step\<close> is a whole operation, so two operations do not interleave
  their statements; within an operation every outside call may fail on its own, and the step
  \<open>outside\<close> lets anything happen that does not touch the database. A property over \<open>sys_step\<close> is therefore one
  of operations that follow one another, and says nothing of goroutines whose statements overlap. Transactions are atomic because
  PostgreSQL makes them so; operations outside a transaction are modelled statement by statement,
  and a crash between two statements appears as a failure of all the calls that follow. The writers
  of saga states are taken apart in \<open>Sync_Threads\<close>: there \<open>HandleReply\<close>, \<open>Sweep\<close> and any number of
  synchronous requests (\<open>dispatchSync\<close> with \<open>compensateSync\<close>) interleave single statements with each
  other and with all other steps (\<open>thread_step\<close>). That keeps the outcome of a saga but not the
  finality of a failed one. In \<open>Request_Threads\<close> concurrent subscriptions interleave, each between its
  look-up and its transaction (\<open>request_step\<close>). The set \<open>C\<close> of \<open>thread_step\<close> holds the saga ids replies may carry; the
  sagas of the synchronous transport, which send no command, are outside of it.

  \<^bold>\<open>Loops and bounds.\<close> Retry loops recurse on the attempts left: three mails, three tries of a
  reply, four GitHub requests, as in the code. Batches hold at most a hundred rows, as in the code.
  The lifetime of a mark in Redis is the code's 24 hours. Ticker and consume loops are functions of the finite list of what their channels yield, for
  every list. No fuel is used. Durations, the driver's counter and the byte counters are 64-bit
  words, the benchmark's quotients have the 53 bits of \<open>float64\<close>, sequences and
  \<open>VARCHAR\<close> columns have PostgreSQL's limits, other numbers are unbounded.

  \<^bold>\<open>Not modelled.\<close> The reflection plumbing of the generated messages under \<open>gen/\<close> (calls of the
  protobuf library). Log lines other than the
  request line, which no other part of the program reads. The libraries behind the code: gin's
  matching of routes, the file server of the start page, the text Prometheus renders and its buckets,
  \<open>proto.Marshal\<close>, what gRPC and HTTP put on the wire; they are parameters or part of what a request
  or the traffic is. Which migrations the library applies (a function of the history; what they do to existing rows is the
  repository's and modelled: the fifth backfills the status, the others change no row). Listening sockets, the delivery of signals and \<open>.env\<close> files. What goroutines
  share beyond the database, the channels, the metrics and the driver's counter: nothing in the code.
\<close>

section \<open>A sample deployment\<close>

definition sample_deployment :: deployment where
  "sample_deployment = \<lparr>dep_transport = None, dep_client = sample_client, dep_cache = None, dep_base = ''http://x'',
     dep_api = sample_cf, dep_stale = seconds 60, dep_consumer = (sample_smtp, seconds 2)\<rparr>"

definition sample_na :: notifier_addr where
  "sample_na = \<lparr>na_smtp = sample_smtp, na_ttl = seconds 2\<rparr>"

definition sample_subscribe :: api_request where
  "sample_subscribe = \<lparr>http_Method = ''POST'', http_Header = (\<lambda>h. if h = ''X-API-Key'' then ''k'' else []),
     http_Body = JObject [(''email'', JString ''a@b.co''), (''repo'', JString ''o/r'')], http_Query = (\<lambda>_. []),
     http_ClientIP = ''127.0.0.1''\<rparr>"

text \<open>An environment that works and whose identifiers fit the columns.\<close>

definition steady_env :: env where
  "steady_env = calm_env\<lparr>uuid_NewString := (\<lambda>_. ''u1'')\<rparr>"

lemma steady_env_ok [simp]: "pg_up steady_env" "uuid_column steady_env"
  by (auto simp: pg_up_def uuid_column_def steady_env_def calm_env_def split: if_splits)

lemma sample_email_ok: "ValidateEmail ''a@b.co''"
proof -
  have "email_shape ''a'' ''b'' ''co''"
    by (simp add: email_shape_def in_class_def local_class_def domain_class_def letters_def)
  then show ?thesis
    unfolding ValidateEmail_shape by (intro exI [of _ "''a''"] exI [of _ "''b''"] exI [of _ "''co''"]) simp
qed

lemma sample_spec: "ParseRepoSpec ''o/r'' = Inr \<lparr>Owner = ''o'', Name = ''r''\<rparr>"
  by (simp add: ParseRepoSpec_def)

lemma steady_github: "fst (github_CheckRepoExists steady_env sample_client None ''o'' ''r'' w) = Inr True"
  by (simp add: github_CheckRepoExists_def Client_CheckRepoExists_def new_request_def url_Parse_ok_def repo_url_def
      doWithRetry_def numeral_3_eq_3 http_call_def steady_env_def calm_env_def StatusOK_def StatusTooManyRequests_def
      ctl_free_def is_hex_def)

lemma steady_room: "db w = empty_db \<Longrightarrow> uuids_fresh steady_env w \<and> has_room ''a@b.co'' ''o/r'' (db w)"
  by (simp add: uuids_fresh_def has_room_def steady_env_def calm_env_def empty_db_def varchar_def char_count_def
      serial_max_def bigserial_max_def)

section \<open>Accepting a subscription\<close>

text \<open>
  C13: When the database works, identifiers are fresh and GitHub knows the repository, a well-formed
  new subscription that fits the columns is accepted on the broker transport: \<open>Subscribe\<close> returns
  success, and the pending row, its saga and the command with the confirmation link are written.
\<close>

theorem subscribe_accepted:
  assumes "pg_up E" and "uuid_column E" and "uuids_fresh E w" and "has_room email repo (db w)"
    and "ValidateEmail email" and "ParseRepoSpec repo = Inr spec"
    and "github_CheckRepoExists E c ca (Owner spec) (Name spec) w = (Inr True, w1)"
    and "(email, repo) \<notin> email_repo ` set (subscriptions (db w))"
  shows "\<exists>w' token n t. Subscribe E (main_service E None c ca base) email repo w = (Inr (), w') \<and>
     subscriptions (db w') = subscriptions (db w) @ [new_sub n email repo token t] \<and>
     t1_written E n email repo token (confirm_url base token) (db w) (db w')"
  by (rule Subscribe_up [OF assms])

theorem subscribe_accepted_witness:
  "\<exists>w'. Subscribe steady_env (main_service steady_env None sample_client None ''http://x'') ''a@b.co'' ''o/r'' init_world = (Inr (), w') \<and>
     length (sagas (db w')) = 1"
proof -
  let ?gh = "github_CheckRepoExists steady_env sample_client None ''o'' ''r'' init_world"
  have db: "db init_world = empty_db" by (simp add: init_world_def)
  have "?gh = (Inr True, snd ?gh)" by (metis prod.collapse steady_github)
  moreover have "(''a@b.co'', ''o/r'') \<notin> email_repo ` set (subscriptions (db init_world))" "sagas (db init_world) = []"
    by (simp_all add: db empty_db_def)
  ultimately show ?thesis
    using subscribe_accepted [OF steady_env_ok _ _ sample_email_ok sample_spec, of init_world sample_client None _ "''http://x''"]
      steady_room [OF db] by (fastforce simp: t1_written_def)
qed

section \<open>Every reachable state\<close>

text \<open>
  C1: In every state the running system can reach from the empty database, by HTTP requests,
  relay drains, sweeper passes, saga replies, scans and notifier deliveries in any order and with
  any failures, the schema's constraints hold and, on the broker transport, every saga has its
  confirmation command in the outbox, addressed to the saga's subscriber: no subscription is ever
  left whose confirmation nobody will send.
\<close>

theorem reachable_invariant:
  assumes "uuid_column E" and "reaches E D init_world w"
  shows "db_ok (db w) \<and> saga_ids_canonical E (db w) \<and>
     (dep_transport D = None \<longrightarrow> (\<forall>g\<in>set (sagas (db w)). \<exists>m\<in>set (outbox (db w)). covers E g m))"
  using reaches_evo [OF assms(2)] assms(1) init_inv [of E "dep_transport D = None"]
  by (simp add: evo_def sys_inv_def covered_def)

lemma sample_bind:
  "ShouldBindJSON (api_IsEmail sample_cf) (http_Body sample_subscribe) = Some \<lparr>sr_Email = ''a@b.co'', sr_Repo = ''o/r''\<rparr>"
  by (simp add: ShouldBindJSON_def sample_cf_def sample_subscribe_def same_field_def fold_name_def lower_def)

lemma sample_subscribe_serve:
  "\<exists>r ep rid resp w. serve steady_env (dep_api sample_deployment) (dep_service steady_env sample_deployment) r ep init_world =
     ((rid, resp), w) \<and> length (sagas (db w)) = 1"
proof -
  let ?svc = "main_service steady_env None sample_client None ''http://x''"
  define w0 where "w0 = snd (request_id steady_env sample_subscribe (logged TimeNow init_world))"
  define w1 where "w1 = logged TimeNow w0"
  have db: "db w1 = empty_db" by (simp add: w1_def w0_def init_world_def)
  let ?gh = "github_CheckRepoExists steady_env sample_client None ''o'' ''r'' w1"
  have "?gh = (Inr True, snd ?gh)" by (metis prod.collapse steady_github)
  moreover have "(''a@b.co'', ''o/r'') \<notin> email_repo ` set (subscriptions (db w1))" "sagas (db w1) = []"
    by (simp_all add: db empty_db_def)
  ultimately obtain w' where run: "Subscribe steady_env ?svc ''a@b.co'' ''o/r'' w1 = (Inr (), w')" and one: "length (sagas (db w')) = 1"
    using Subscribe_up [OF steady_env_ok _ _ sample_email_ok sample_spec, of w1 sample_client None _ "''http://x''"]
      steady_room [OF db] by (fastforce simp: t1_written_def)
  let ?serve = "serve steady_env (dep_api sample_deployment) (dep_service steady_env sample_deployment) sample_subscribe ApiSubscribe init_world"
  have auth: "APIKeyAuth (api_Key sample_cf) sample_subscribe = None"
    by (simp add: APIKeyAuth_def sample_cf_def sample_subscribe_def)
  have svc: "dep_service steady_env sample_deployment = ?svc" "dep_api sample_deployment = sample_cf"
    by (simp_all add: sample_deployment_def)
  obtain rid where "request_id steady_env sample_subscribe (logged TimeNow init_world) = (rid, w0)"
    by (cases "request_id steady_env sample_subscribe (logged TimeNow init_world)") (simp add: w0_def)
  then have "db (snd ?serve) = db w'"
    unfolding serve_def svc
    using run by (simp add: RequestLogger_def GinMiddleware_def now_def route_def metric_path_def Let_def
        w1_def [symmetric] auth handler_Subscribe_def sample_bind)
  then show ?thesis using one by (metis prod.collapse)
qed

lemma sample_subscribe_step:
  "\<exists>w. sys_step steady_env sample_deployment init_world w \<and> length (sagas (db w)) = 1"
  using sample_subscribe_serve sys_step.request [of steady_env sample_deployment] by blast

theorem reachable_invariant_witness:
  "\<exists>w::world. length (sagas (db w)) = 1 \<and> covered steady_env (db w)"
proof -
  obtain w where w: "sys_step steady_env sample_deployment init_world w" "length (sagas (db w)) = 1"
    using sample_subscribe_step by blast
  from reachable_invariant [OF steady_env_ok(2) sys_step_reaches [OF w(1)]] w(2) show ?thesis
    by (intro exI [of _ w]) (simp add: covered_def sample_deployment_def)
qed

text \<open>
  C2: While whole operations follow one another (\<open>sys_step\<close>: a request, a sweep, a reply with its
  retries, each from its first to its last statement, in any order and with any failures), a saga that
  exists at one moment of a run still exists at every later one with the same identity, it has moved
  only along the edges of its state machine, and once it is completed or failed nothing about it
  changes any more. This is the order that the program's own checks protect; it is not a statement
  about goroutines whose statements overlap, where a sweep between the look-up and the update of
  a reply can let a failed saga be reopened.
\<close>

theorem saga_history_legal:
  assumes "uuid_column E" and "reaches E D init_world w" and "reaches E D w w'"
    and "lookup_by saga_ID i (sagas (db w)) = Some g"
  shows "\<exists>g'. lookup_by saga_ID i (sagas (db w')) = Some g' \<and>
     saga_SubscriptionID g' = saga_SubscriptionID g \<and> saga_Email g' = saga_Email g \<and>
     saga_edge\<^sup>*\<^sup>* (saga_State g) (saga_State g') \<and>
     (saga_State g \<in> {StateCompleted, StateFailed} \<longrightarrow> g' = g)"
proof -
  have inv: "sys_inv E (dep_transport D = None) (db w)"
    using reaches_evo [OF assms(2)] assms(1) init_inv by (simp add: evo_def)
  then have "sagas_evolve (sagas (db w)) (sagas (db w'))"
    using reaches_evo [OF assms(3)] assms(1) by (simp add: evo_def)
  then obtain ms new where ms: "sagas (db w') = ms @ new" "sagas_moved (sagas (db w)) ms"
    by (auto simp: sagas_evolve_def)
  then obtain g' where "lookup_by saga_ID i ms = Some g'" "saga_moved g g'"
    using sagas_moved_lookup [OF _ assms(4)] by blast
  then show ?thesis
    using ms(1) by (auto simp: lookup_by_append saga_moved_def legal_iff_edges)
qed

theorem saga_history_legal_witness:
  "\<exists>w g g'. sagas (db w) = [g] \<and> lookup_by saga_ID (saga_ID g) (sagas (db (drain (main_relay steady_env 1) w))) = Some g' \<and>
     saga_SubscriptionID g' = saga_SubscriptionID g"
proof -
  obtain w where w: "sys_step steady_env sample_deployment init_world w" "length (sagas (db w)) = 1"
    using sample_subscribe_step by blast
  then obtain g where g: "sagas (db w) = [g]" by (auto simp: length_Suc_conv)
  then have "lookup_by saga_ID (saga_ID g) (sagas (db w)) = Some g" by simp
  from saga_history_legal [OF steady_env_ok(2) sys_step_reaches [OF w(1)]
      sys_step_reaches [OF sys_step.relay [of steady_env sample_deployment w 1]] this] g
  show ?thesis by blast
qed

section \<open>Interleaved statements\<close>

text \<open>
  C3: The outcome of a saga is never reversed on either transport, even when the reply consumer, the
  sweeper and any number of request handlers of the synchronous transport interleave their single
  statements with each other and with everything else: once a saga is completed it stays completed,
  and once its compensation has begun it is never completed. What it takes is that nobody replies to a
  saga of the synchronous transport, which has no command in the outbox.
\<close>

theorem outcome_never_reversed:
  assumes "uuid_column E"
    and "(thread_step E na C)\<^sup>*\<^sup>* (idle_threads init_world) s" and "(thread_step E na C)\<^sup>*\<^sup>* s s'"
    and "lookup_by saga_ID i (sagas (th_db s)) = Some g"
  shows "\<exists>g'. lookup_by saga_ID i (sagas (th_db s')) = Some g' \<and>
     saga_SubscriptionID g' = saga_SubscriptionID g \<and>
     (saga_State g = StateCompleted \<longrightarrow> saga_State g' = StateCompleted) \<and>
     (saga_State g \<in> {StateCompensating, StateFailed} \<longrightarrow> saga_State g' \<in> {StateCompensating, StateFailed})"
proof -
  have "thread_inv E C (idle_threads init_world)"
    using init_inv [of E False] by (simp add: thread_inv_def idle_threads_def sys_inv_def apart_def)
  then have "thread_inv E C s" using thread_steps_inv [OF assms(2) _ assms(1)] by simp
  then have "tables_decided (sagas (th_db s)) (sagas (th_db s'))"
    using thread_steps_inv [OF assms(3) _ assms(1)] by simp
  then obtain g' where g': "lookup_by saga_ID i (sagas (th_db s')) = Some g'" "decided g g'"
    using tables_decided_lookup assms(4) by blast
  then show ?thesis
    by (cases "saga_State g'") (auto simp: decided_def)
qed

theorem outcome_never_reversed_witness:
  "\<exists>w g g'. sagas (db w) = [g] \<and>
     lookup_by saga_ID (saga_ID g) (sagas (db (snd (reply_next steady_env (AtLoad \<lparr>rep_SagaID = ''u1'', rep_Status = SagaStatusSent\<rparr>) w)))) = Some g' \<and>
     saga_SubscriptionID g' = saga_SubscriptionID g"
proof -
  let ?body = "marshal_SagaReply \<lparr>rep_SagaID = ''u1'', rep_Status = SagaStatusSent\<rparr>"
  let ?load = "AtLoad \<lparr>rep_SagaID = ''u1'', rep_Status = SagaStatusSent\<rparr>"
  obtain r ep rid resp w where req: "serve steady_env (dep_api sample_deployment) (dep_service steady_env sample_deployment) r ep init_world = ((rid, resp), w)"
    and one: "length (sagas (db w)) = 1"
    using sample_subscribe_serve by blast
  let ?step = "thread_step steady_env sample_na UNIV"
  let ?s = "idle_threads w" and ?s1 = "(idle_threads w)\<lparr>th_reply := ?load\<rparr>"
  let ?s2 = "?s1\<lparr>th_reply := fst (reply_next steady_env ?load w), th_world := snd (reply_next steady_env ?load w)\<rparr>"
  have "appends steady_env (db init_world) (db w)"
    using others_append(1) req by (simp add: sample_deployment_def)
  then have "?step (idle_threads init_world) ((idle_threads init_world)\<lparr>th_world := w\<rparr>)"
    by (intro thread_step.others) (simp add: idle_threads_def)
  then have run: "?step\<^sup>*\<^sup>* (idle_threads init_world) ?s" by (simp add: idle_threads_def)
  have "?step ?s ?s1"
    using thread_step.reply_begins [of ?s "Inr ()" steady_env ?body UNIV sample_na] by (simp add: idle_threads_def reply_start_def)
  moreover have "?step ?s1 ?s2" by (rule thread_step.reply) (simp add: idle_threads_def)
  ultimately have go: "?step\<^sup>*\<^sup>* ?s ?s2" by (meson r_into_rtranclp rtranclp.rtrancl_into_rtrancl)
  obtain g where g: "sagas (db w) = [g]" using one by (auto simp: length_Suc_conv)
  then have "lookup_by saga_ID (saga_ID g) (sagas (th_db ?s)) = Some g" by (simp add: idle_threads_def)
  from outcome_never_reversed [OF steady_env_ok(2) run go this] g show ?thesis by (auto simp: idle_threads_def)
qed

lemma UpdateState_only_row:
  assumes "pg_up E" "pg_uuid E i = Some i" "map saga_ID (sagas (db w)) = [i]"
  shows "\<exists>v. UpdateState E i st le w = (Inr (), v) \<and> saga_in i {st} (db v) \<and> map saga_ID (sagas (db v)) = [i]"
proof -
  have "i \<in> set (map saga_ID (sagas (db w)))" using assms(3) by simp
  then obtain v where v: "UpdateState E i st le w = (Inr (), v)" using UpdateState_up [OF assms(1,2), of w st le] by auto
  have "map saga_ID (sagas (db v)) = map saga_ID (sagas (db w))" using UpdateState_sagas [OF v] by (auto simp: row_simps)
  then show ?thesis using v UpdateState_saga_in [OF v assms(2)] assms(3) by simp
qed

text \<open>
  C34: A settled saga can be opened again, since \<open>UpdateState\<close> does not check the state it
  replaces: the reply consumer reads a saga whose compensation was interrupted, the sweeper
  finishes it to failed, and the reply consumer's next statement sets it back to compensating.
\<close>

theorem failed_saga_reopened:
  "\<exists>s1 s2. (thread_step calm_env na {''u1''})\<^sup>*\<^sup>* (idle_threads stuck_world) s1 \<and>
     saga_in ''u1'' {StateFailed} (th_db s1) \<and> thread_step calm_env na {''u1''} s1 s2 \<and>
     sagas (th_db s2) \<noteq> [] \<and> saga_in ''u1'' {StateCompensating} (th_db s2)"
proof -
  let ?E = calm_env and ?rep = "\<lparr>rep_SagaID = ''u1'', rep_Status = SagaStatusFailed\<rparr>"
  let ?sg = "sample_saga\<lparr>saga_State := StateCompensating\<rparr>" and ?rp = "AtCompensate ''u1'' 1"
  define w1 where "w1 = snd (GetByID ?E ''u1'' stuck_world)"
  define w2 where "w2 = snd (FindResumable ?E 10 (logged TimeNow w1))"
  define w3 where "w3 = snd (MarkFailed ?E 1 w2)"
  define w4 where "w4 = snd (UpdateState ?E ''u1'' StateFailed ''compensation finished by sweeper'' w3)"
  define w5 where "w5 = snd (UpdateState ?E ''u1'' StateCompensating ''confirmation email failed'' w4)"
  note up = run_stmt_up [OF calm_pg_up(1)]
  have u: "pg_uuid ?E ''u1'' = Some ''u1''" by (simp add: calm_env_def)
  have stuck: "sagas (db stuck_world) = [?sg]" "subscriptions (db stuck_world) = [sample_sub]"
    by (simp_all add: stuck_world_def sample_world_def)
  have sg: "saga_ID ?sg = ''u1''" "saga_SubscriptionID ?sg = 1" "saga_State ?sg = StateCompensating" "saga_UpdatedAt ?sg = 0"
    by (simp_all add: sample_saga_def new_saga_def)
  have load: "reply_next ?E (AtLoad ?rep) stuck_world = (?rp, w1)" and w1: "db w1 = db stuck_world"
    by (simp_all add: w1_def GetByID_def up select_saga_def u stuck sg after_load_def)
  have find: "sweep_next ?E (AtFind 10) (logged TimeNow w1) = (AtSagas [?sg], w2)" and w2: "db w2 = db stuck_world"
    by (simp_all add: w2_def FindResumable_def up w1 stuck sg)
  obtain v3 where "MarkFailed ?E 1 w2 = (Inr (), v3)" "sagas (db v3) = [?sg]"
    using MarkFailed_up [OF calm_pg_up(1), of 1 w2] by (auto simp: w2 stuck sample_sub_def new_sub_def)
  then have mark: "sweep_next ?E (AtSagas [?sg]) w2 = (AtSettle ?sg [], w3)" and w3: "sagas (db w3) = [?sg]"
    by (simp_all add: w3_def sg)
  have w4: "saga_in ''u1'' {StateFailed} (db w4)" "map saga_ID (sagas (db w4)) = [''u1'']"
    using UpdateState_only_row [OF calm_pg_up(1) u, of w3 StateFailed "''compensation finished by sweeper''"] by (auto simp: w4_def w3 sg)
  have w5: "saga_in ''u1'' {StateCompensating} (db w5)" "sagas (db w5) \<noteq> []"
    and fin: "reply_next ?E ?rp w4 = (AtMark ''u1'' 1, w5)"
    using UpdateState_only_row [OF calm_pg_up(1) u, of w4 StateCompensating "''confirmation email failed''"] by (auto simp: w5_def w4)
  have settle: "sweep_next ?E (AtSettle ?sg []) w3 = (AtSagas [], w4)" by (simp add: w4_def sg)
  let ?step = "thread_step ?E na {''u1''}" and ?idle = "two_threads (ReplyDone (Inr ())) (SweepDone (Inr ())) stuck_world"
  have ids: "reply_ids ?E (reply_start (marshal_SagaReply ?rep)) \<subseteq> {''u1''}" by (simp add: reply_start_def u)
  have "?step ?idle (two_threads (AtLoad ?rep) (SweepDone (Inr ())) stuck_world)"
    using thread_step.reply_begins [OF _ ids, of ?idle "Inr ()" na] by (simp add: two_threads_def reply_start_def)
  moreover have "?step (two_threads ?rp (SweepDone (Inr ())) w1) (two_threads ?rp (AtFind 10) (logged TimeNow w1))"
    using thread_step.sweep_begins [of "two_threads ?rp (SweepDone (Inr ())) w1" "Inr ()" ?E na "{''u1''}" 10]
    by (simp add: two_threads_def)
  ultimately have "?step\<^sup>*\<^sup>* ?idle (two_threads ?rp (AtSagas []) w4)"
    using two_threads_reply [OF load] two_threads_sweep [OF find] two_threads_sweep [OF mark] two_threads_sweep [OF settle]
    by (meson r_into_rtranclp rtranclp_trans)
  moreover have "idle_threads stuck_world = ?idle" by (simp add: idle_threads_def two_threads_def)
  ultimately show ?thesis
    using w4 w5 two_threads_reply [OF fin]
    by (intro exI [of _ "two_threads ?rp (AtSagas []) w4"] exI [of _ "two_threads (AtMark ''u1'' 1) (AtSagas []) w5"]) simp
qed

section \<open>Concurrent subscriptions\<close>

text \<open>
  C14: On the broker transport, of any number of concurrent subscriptions for the same address and
  repository at most one is accepted, however their statements interleave with each other, with
  subscriptions for other pairs and with anything else that leaves the pair's row alone, and whatever the
  database answers: if one succeeded, the pair was free at the start and is taken now; a pair that was
  taken at the start is given to nobody. (On the gRPC transport a request whose mail cannot be sent
  marks the row failed and reports success, so that the next one may be accepted, too.)
\<close>

theorem one_winner:
  assumes "uuid_column E" and "db_ok (db w)"
    and "(request_step E (main_service E None c ca base) p)\<^sup>*\<^sup>* \<lparr>rq_handlers = [], rq_world = w\<rparr> s"
  shows "db_ok (rq_db s) \<and> wins p (rq_handlers s) \<le> 1 \<and>
     (wins p (rq_handlers s) = 1 \<longrightarrow> \<not> live p (db w) \<and> live p (rq_db s))"
proof -
  have "request_inv p (live p (db w)) \<lparr>rq_handlers = [], rq_world = w\<rparr>" using assms(2) by (simp add: request_inv_def)
  then have "request_inv p (live p (db w)) s" by (rule request_steps_inv [OF assms(3) _ assms(1)])
  then show ?thesis by (cases "live p (db w)") (auto simp: request_inv_def)
qed

lemma sample_request_wins:
  "\<exists>w. (request_step steady_env (main_service steady_env None sample_client None ''http://x'') (''a@b.co'', ''o/r''))\<^sup>*\<^sup>*
     \<lparr>rq_handlers = [], rq_world = init_world\<rparr>
     \<lparr>rq_handlers = [((''a@b.co'', ''o/r''), SubDone (Inr ()))], rq_world = w\<rparr>"
proof -
  let ?svc = "main_service steady_env None sample_client None ''http://x''" and ?p = "(''a@b.co'', ''o/r'')"
  let ?gh = "github_CheckRepoExists steady_env sample_client None ''o'' ''r'' init_world"
  have db: "db init_world = empty_db" by (simp add: init_world_def)
  have "?gh = (Inr True, snd ?gh)" by (metis prod.collapse steady_github)
  moreover have "?p \<notin> email_repo ` set (subscriptions (db init_world))" by (simp add: db empty_db_def)
  ultimately obtain w where "Subscribe steady_env ?svc ''a@b.co'' ''o/r'' init_world = (Inr (), w)"
    using Subscribe_up [OF steady_env_ok _ _ sample_email_ok sample_spec, of init_world sample_client None _ "''http://x''"]
      steady_room [OF db] by fastforce
  then have "((\<lambda>(pc, v). sub_next steady_env ?svc pc v) ^^ 3) (AtCheck ''a@b.co'' ''o/r'', init_world) = (SubDone (Inr ()), w)"
    by (simp only: sub_alone prod.case)
  from handler_runs_alone [OF this, of ?p "[]" ?p]
    request_step.begins [of steady_env ?svc ?p "\<lparr>rq_handlers = [], rq_world = init_world\<rparr>" "''a@b.co''" "''o/r''"]
  show ?thesis by (intro exI [of _ w]) (simp add: converse_rtranclp_into_rtranclp)
qed

theorem one_winner_witness:
  "\<exists>s. (request_step steady_env (main_service steady_env None sample_client None ''http://x'') (''a@b.co'', ''o/r''))\<^sup>*\<^sup>*
       \<lparr>rq_handlers = [], rq_world = init_world\<rparr> s \<and>
     wins (''a@b.co'', ''o/r'') (rq_handlers s) = 1 \<and> live (''a@b.co'', ''o/r'') (rq_db s) \<and> db_ok (rq_db s)"
proof -
  obtain w where run: "(request_step steady_env (main_service steady_env None sample_client None ''http://x'') (''a@b.co'', ''o/r''))\<^sup>*\<^sup>*
     \<lparr>rq_handlers = [], rq_world = init_world\<rparr>
     \<lparr>rq_handlers = [((''a@b.co'', ''o/r''), SubDone (Inr ()))], rq_world = w\<rparr>"
    using sample_request_wins by blast
  have ok: "db_ok (db init_world)" by (simp add: init_world_def empty_db_ok)
  from one_winner [OF steady_env_ok(2) ok run] run show ?thesis
    by (intro exI [of _ "\<lparr>rq_handlers = [((''a@b.co'', ''o/r''), SubDone (Inr ()))], rq_world = w\<rparr>"]) simp
qed

text \<open>
  C32: The loser of such a race is not told that the address is already subscribed: when the pair's row
  appeared between the look-up that found none and the transaction, the request ends with the unique
  violation as an unclassified error, which is answered with status 500 instead of 409; nothing is
  written.
\<close>

theorem race_loser_500:
  assumes "uuid_column E" and "db_ok (db w)" and "(email, repo) \<in> email_repo ` set (subscriptions (db w))"
    and "sub_next E (main_service E None c ca base) (AtStart email repo token) w = (pc, w')"
  shows "tables_same (db w) (db w') \<and>
     (\<exists>e. pc = SubDone (Inl e) \<and> translateError e = (500, ''internal server error'') \<and> KindOf e \<noteq> Kind ErrAlreadySubscribed)"
proof -
  obtain r where st: "StartConfirmation E None email repo token (confirm_url base token) w = (r, w')"
    and pc: "\<And>e. r = Inl e \<Longrightarrow> pc = SubDone (Inl (Errorf ''failed to start subscription saga'' e))"
    using assms(4) by (auto simp: main_service_def sender_of_def split: prod.splits sum.splits)
  from late_start_fails [OF st assms(1,2,3)] obtain e where "r = Inl e" "infra e" "tables_same (db w) (db w')" by blast
  moreover from this have "KindOf (Errorf ''failed to start subscription saga'' e) = KindInternal" by (simp add: KindOf_infra)
  ultimately show ?thesis using pc by (auto simp: translateError_def sentinel_defs)
qed

theorem race_loser_500_witness:
  "\<exists>w e. fst (sub_next steady_env (main_service steady_env None sample_client None ''http://x'') (AtStart ''a@b.co'' ''o/r'' ''tok'') w) =
     SubDone (Inl e) \<and> translateError e = (500, ''internal server error'')"
proof -
  let ?w = "sample_world" and ?svc = "main_service steady_env None sample_client None ''http://x''"
  have "(''a@b.co'', ''o/r'') \<in> email_repo ` set (subscriptions (db ?w))" by (simp add: sample_defs)
  from race_loser_500 [OF steady_env_ok(2) sample_world_ok(1) this prod.collapse [symmetric]] show ?thesis by blast
qed

section \<open>A confirmed subscription that is compensated\<close>

text \<open>
  C33: Compensation does not end a subscription that was confirmed in the meantime: \<open>MarkFailed\<close> sets the
  status and leaves \<open>confirmed\<close>. After a \<open>failed\<close> reply was handled, the row reads failed, the scanner
  still finds its subscriber for every release, and following the confirmation link again reports
  success without changing any subscription, so the row stays failed.
\<close>

theorem failed_still_served:
  assumes "HandleReply E (MarkFailed E) body w = (Inr x, w1)" and "uuid_column E" and "db_ok (db w)"
    and "unmarshal_SagaReply body = Inr rep" and "reply_saga E rep (db w) = Some sg"
    and "saga_State sg = StateSubscriptionCreated" and "rep_Status rep = SagaStatusFailed"
    and "s \<in> set (subscriptions (db w))" and "sub_ID s = saga_SubscriptionID sg" and "sub_Confirmed s"
  shows "\<exists>s'\<in>set (subscriptions (db w1)). email_repo s' = email_repo s \<and> sub_Status s' = StatusFailed \<and>
     (\<forall>xs w2. sc_SubscribersForRepo (main_scanner E tr c ca base i) (sub_Repo s) w1 = (Inr xs, w2) \<longrightarrow> slim s' \<in> set xs) \<and>
     (\<forall>y w2. Confirm (main_service E tr c ca base) (sub_Token s) w1 = (Inr y, w2) \<longrightarrow>
        subscriptions (db w2) = subscriptions (db w1))"
proof -
  let ?s = "s\<lparr>sub_Status := StatusFailed\<rparr>"
  have "subscriptions (db w1) = fail_rows (saga_SubscriptionID sg) (subscriptions (db w))"
    using reply_outcome [OF assms(1-6)] assms(7) by simp
  then have s': "?s \<in> set (subscriptions (db w1))" using assms(8,9) by (auto simp: fail_rows_def set_upd_rows)
  have "db_ok (db w1)"
    using grows_ok [OF store_compensator.HandleReply_grows [OF assms(1)] assms(3)] .
  then have tok: "x = ?s" if "x \<in> set (subscriptions (db w1))" "sub_Token x = sub_Token s" for x
    using that s' by (auto simp: db_ok_def subs_ok_def distinct_map inj_on_def)
  have "slim ?s \<in> set xs" if "sc_SubscribersForRepo (main_scanner E tr c ca base i) (sub_Repo s) w1 = (Inr xs, w2)" for xs w2
    using main_scan.subscribers [OF that] s' assms(10) by auto
  moreover have "subscriptions (db w2) = subscriptions (db w1)"
    if run: "Confirm (main_service E tr c ca base) (sub_Token s) w1 = (Inr y, w2)" for y w2
  proof -
    from main_svc.Confirm_spec [OF run] obtain s2 where s2: "lookup_by sub_Token (sub_Token s) (subscriptions (db w1)) = Some s2"
      "subscriptions (db w2) = (if sub_Confirmed s2 then subscriptions (db w1)
         else upd_rows (\<lambda>r. sub_Token r = sub_Token s) confirm_row (subscriptions (db w1)))" by auto
    then have "s2 = ?s" using tok lookup_by_SomeD by metis
    then show ?thesis using s2(2) assms(10) by simp
  qed
  ultimately show ?thesis using s' by (intro bexI [of _ ?s]) auto
qed

theorem failed_still_served_witness:
  "\<exists>s'\<in>set (subscriptions (db (snd (HandleReply calm_env (MarkFailed calm_env) (sample_reply SagaStatusFailed)
      (sample_world\<lparr>db := (db sample_world)\<lparr>subscriptions := [sample_sub\<lparr>sub_Confirmed := True, sub_Status := StatusConfirmed\<rparr>]\<rparr>\<rparr>))))).
     sub_Status s' = StatusFailed"
proof -
  let ?s = "sample_sub\<lparr>sub_Confirmed := True, sub_Status := StatusConfirmed\<rparr>"
  let ?w = "sample_world\<lparr>db := (db sample_world)\<lparr>subscriptions := [?s]\<rparr>\<rparr>"
  let ?h = "HandleReply calm_env (MarkFailed calm_env) (sample_reply SagaStatusFailed)"
  have "fst (?h ?w) = Inr ()" by (simp add: reply_defs tx_defs env_defs sample_defs)
  then have run: "?h ?w = (Inr (), snd (?h ?w))" by (metis prod.collapse)
  have ok: "db_ok (db ?w)" using sample_world_ok(1) by (simp add: db_ok_def subs_ok_def sample_defs)
  have "unmarshal_SagaReply (sample_reply SagaStatusFailed) = Inr \<lparr>rep_SagaID = ''u1'', rep_Status = SagaStatusFailed\<rparr>"
    "reply_saga calm_env \<lparr>rep_SagaID = ''u1'', rep_Status = SagaStatusFailed\<rparr> (db ?w) = Some sample_saga"
    "saga_State sample_saga = StateSubscriptionCreated"
    "rep_Status \<lparr>rep_SagaID = ''u1'', rep_Status = SagaStatusFailed\<rparr> = SagaStatusFailed"
    "?s \<in> set (subscriptions (db ?w))" "sub_ID ?s = saga_SubscriptionID sample_saga" "sub_Confirmed ?s"
    by (simp_all add: sample_reply_def reply_saga_def calm_env_def sample_defs)
  from failed_still_served [OF run calm_uuid_column(1) ok this] show ?thesis by blast
qed

section \<open>Recovery from end to end\<close>

text \<open>
  C5: A confirmation that got stuck is delivered in the end, wherever its command was lost. While
  database, broker and mail server work, with at most a hundred stale sagas and at most a hundred
  unpublished messages after the sweep (the batches of the code), a sweep, a drain of the relay, the delivery of the
  saga's command to the notifier and the delivery of the reply lead from any state of the
  invariant with a stale saga that waits for its confirmation to that saga's completion: the relay hands its command to the
  broker again, the notifier acknowledges it and publishes a \<open>sent\<close> reply whatever Redis
  answers, and the reply completes the saga.
\<close>

theorem stuck_confirmation_completes:
  assumes "pg_up E" and "uuid_column E" and "amqp_up E" and "mail_up E" and "line_ok (smtp_from s)"
    and "sys_inv E True (db w)"
    and "g \<in> set (sagas (db w))" and "saga_State g = StateSubscriptionCreated" and "line_ok (saga_Email g)"
    and "resumable (time_Now E (hist w) - sint stale) g"
    and "length (filter (resumable (time_Now E (hist w) - sint stale)) (sagas (db w))) \<le> 100"
    and "Sweep E (MarkFailed E) stale w = (r, w1)" and "length (pending_msgs w1) \<le> 100"
  shows "\<exists>m sid w3 w4. covers E g m \<and>
     (\<exists>ms. sent_msgs (drain (main_relay E i) w1) = sent_msgs w1 @ ms \<and>
        (msg_RoutingKey m, msg_MessageID m, msg_Payload m) \<in> set ms) \<and>
     handle E (NewConsumer s (redisDeduper E t)) (delivery_of m) (drain (main_relay E i) w1) = (Inr (), w3) \<and>
     reports sid (drain (main_relay E i) w1) w3 \<and>
     handleWithRetry E (MarkFailed E) (pub_Body (saga_reply sid SagaStatusSent)) w3 = (Inr (), w4) \<and>
     saga_in (saga_ID g) {StateCompleted} (db w4)"
  by (rule stuck_saga_recovers [OF assms])

text \<open>A command that was published and got lost.\<close>

definition lost_world :: world where
  "lost_world = sample_world\<lparr>hist := [TimeNow, TimeNow],
     db := (db sample_world)\<lparr>outbox := [sample_msg\<lparr>msg_PublishedAt := Some 1\<rparr>]\<rparr>\<rparr>"

lemma lost_world_inv: "sys_inv calm_env True (db lost_world)"
proof -
  have "covers calm_env sample_saga (sample_msg\<lparr>msg_PublishedAt := Some 1\<rparr>)"
    by (simp add: covers_def sample_saga_def sample_msg_def new_saga_def confirm_msg_def calm_env_def)
  moreover have "db_ok (db lost_world)" "saga_ids_canonical calm_env (db lost_world)"
    by (simp_all add: lost_world_def sample_defs init_world_def empty_db_def db_ok_def subs_ok_def sagas_ok_def
        outbox_ok_def repos_ok_def saga_ids_canonical_def calm_env_def)
  ultimately show ?thesis by (simp add: sys_inv_def covered_def) (simp add: lost_world_def sample_world_def)
qed

theorem stuck_confirmation_completes_witness:
  "\<exists>w3 sid w4. handleWithRetry calm_env (MarkFailed calm_env) (pub_Body (saga_reply sid SagaStatusSent)) w3 = (Inr (), w4) \<and>
     saga_in ''u1'' {StateCompleted} (db w4)"
proof -
  let ?sw = "Sweep calm_env (MarkFailed calm_env) 1 lost_world"
  have up: "amqp_up calm_env" "mail_up calm_env" "line_ok (smtp_from sample_smtp)"
    by (simp_all add: amqp_up_def mail_up_def calm_env_def line_ok_def sample_smtp_def)
  have g: "sample_saga \<in> set (sagas (db lost_world))" "saga_State sample_saga = StateSubscriptionCreated"
    "line_ok (saga_Email sample_saga)" "resumable (time_Now calm_env (hist lost_world) - sint (1 :: duration)) sample_saga"
    "length (filter (resumable (time_Now calm_env (hist lost_world) - sint (1 :: duration))) (sagas (db lost_world))) \<le> 100"
    by (simp_all add: lost_world_def sample_world_def resumable_def calm_env_def sample_saga_def new_saga_def line_ok_def)
  have "length (outbox (db (snd ?sw))) = 1"
    by (simp add: Sweep_def now_def FindResumable_def run_stmt_def Requeue_def requeue_stmt_def sweep_saga_def
        lost_world_def sample_defs env_defs Let_def)
  then have "length (pending_msgs (snd ?sw)) \<le> 100"
    using length_filter_le [of "\<lambda>m. msg_PublishedAt m = None" "outbox (db (snd ?sw))"] by (simp add: pending_msgs_def)
  from stuck_confirmation_completes [OF calm_pg_up(1) calm_uuid_column(1) up lost_world_inv g prod.collapse [symmetric] this]
  show ?thesis by (fastforce simp: sample_saga_def new_saga_def)
qed

section \<open>The sessions of the consumers\<close>

text \<open>
  C15: What the two consumers acknowledge. A session of the notifier's consumer (\<open>Consumer_Run\<close>) and one of
  the reply consumer (\<open>ReplyConsumer_Run\<close>), whatever they receive and whatever fails in them, either
  end with an error before the first delivery, without a settlement and with the database as it was,
  or they settle every delivery they take exactly once and in order, before they take the next, then
  close the channel and last the connection; they end without error unless the channel of deliveries was
  closed under them. The notifier acknowledges a delivery if and only if Redis says it was processed,
  or the mail it asks for was accepted while it was handled, or, for a command of a saga, the broker
  took the report of the failure; everything else is rejected (and so dead-lettered), and the database
  is never touched. The reply consumer acknowledges only replies it could decode and has acted upon:
  their saga, if there is one, is in no state they would still change.
\<close>

theorem sessions_settle:
  assumes "Consumer_Run N (NewConsumer s (redisDeduper N t)) url ds v = (q, v')"
    and "ReplyConsumer_Run E (MarkFailed E) url' bs w = (r, w')" and "uuid_column E" and "db_ok (db w)"
  shows "session_of (answered N s) (taken ds) (cut_off ds) v q v' \<and>
     session_of (reply_done E) (received_bodies bs) (channel_closed bs) w r w'"
  using Consumer_Run_session [OF assms(1)] ReplyConsumer_Run_session [OF assms(2-4)] by blast

text \<open>A message the notifier does not know is rejected, and the session goes on until it is told to stop.\<close>

theorem sessions_settle_witness:
  "settlements (hist (snd (Consumer_Run calm_env (NewConsumer sample_smtp (redisDeduper calm_env one_day)) ''u''
      [Deliver \<lparr>d_RoutingKey = ''other'', d_MessageId = [], d_Body = JNull\<rparr>, ConsumerDone] init_world))) = [False]"
proof -
  let ?d = "\<lparr>d_RoutingKey = ''other'', d_MessageId = [], d_Body = JNull\<rparr>"
  let ?run = "Consumer_Run calm_env (NewConsumer sample_smtp (redisDeduper calm_env one_day)) ''u''
      [Deliver ?d, ConsumerDone] init_world"
  have ok: "fst ?run = Inr ()"
    by (simp add: Consumer_Run_def try_call_def with_defer_def do_setup_def notifier_declareTopology_def bind_keys.simps
        calm_env_def handle_def process_def dispatch_def NewConsumer_def RoutingConfirm_def RoutingRelease_def)
  have "db_ok (db init_world)" by (simp add: init_world_def empty_db_ok)
  have "session_of (answered calm_env sample_smtp) (taken [Deliver ?d, ConsumerDone]) (cut_off [Deliver ?d, ConsumerDone])
      init_world (fst ?run) (snd ?run)"
    by (rule sessions_settle [OF prod.collapse [symmetric] prod.collapse [symmetric] calm_uuid_column(1) \<open>db_ok (db init_world)\<close>, THEN conjunct1])
  then obtain v1 v2 where v: "settles (answered calm_env sample_smtp) [?d] v1 v2" "settlements (hist v1) = []"
    "settlements (hist (snd ?run)) = settlements (hist v2)"
    using ok by (auto simp: session_of_def init_world_def)
  from v(1) obtain u where "settlements (hist u) = settlements (hist v1)"
    "settles (answered calm_env sample_smtp) [] (logged (Settled False) u) v2"
    by (rule settles_ConsE) (auto simp: answered_def entitled_def served_def RoutingConfirm_def RoutingRelease_def)
  then have "settlements (hist v2) = [False]" using v(2) by (auto elim: settles.cases)
  then show ?thesis using v(3) by simp
qed

section \<open>The registry of subscriptions\<close>

text \<open>
  C6: The subscription table refines an abstract registry, a partial map from address and repository to
  status, confirmation flag and token, whose five guarded events are an entry's appearance, the revival
  of a failed entry with a new token, the confirmation of an unconfirmed entry that carries the token, the
  marking of an entry as failed (which keeps flag and token) and its removal. In every state that
  satisfies the schema's constraints, and whatever fails, each operation runs one of the sequences of events listed
  for it (\<open>caused_by\<close>): a subscription enters or revives its own pair, at most once, and only on the gRPC
  transport may mark it failed in the same request; the two links of a mail confirm or remove one
  entry that carries their token; no other request changes an entry. A sweep only marks entries
  failed whose saga was compensating; a reply with its retries only the entry of its own
  unsettled saga, and only if it reports a failure; \<open>ReactivateInTx\<close> by itself, whatever its caller
  looked up, revives nothing but a failed entry; relay, scanner and notifier change none.
\<close>

theorem registry_refined:
  assumes "db_ok (db w)" and "uuid_column E"
  shows "caused_by (request_events (tr \<noteq> None) cf r ep) (db w)
       (db (snd (serve E cf (main_service E tr c ca base) r ep w))) \<and>
     caused_by (sweep_events (db w)) (db w) (db (snd (Sweep E (MarkFailed E) stale w))) \<and>
     caused_by (reply_events E body (db w)) (db w) (db (snd (handleWithRetry E (MarkFailed E) body w))) \<and>
     caused_by (revive_events n token (subscriptions (db w))) (db w) (db (snd (ReactivateInTx E ext n token w))) \<and>
     (\<forall>w'\<in>{drain (main_relay E i) w, scan (main_scanner E tr c ca base i) w,
         snd (handle E (NewConsumer s (redisDeduper E t)) d w)}.
        registry_of (subscriptions (db w')) = registry_of (subscriptions (db w)))"
proof (intro conjI)
  show "caused_by (request_events (tr \<noteq> None) cf r ep) (db w) (db (snd (serve E cf (main_service E tr c ca base) r ep w)))"
    by (rule serve_moves [OF prod.collapse [symmetric] assms])
  show "caused_by (sweep_events (db w)) (db w) (db (snd (Sweep E (MarkFailed E) stale w)))"
    by (rule Sweep_registry [OF prod.collapse [symmetric] assms(1)])
  show "caused_by (reply_events E body (db w)) (db w) (db (snd (handleWithRetry E (MarkFailed E) body w)))"
    by (rule handleWithRetry_registry [OF prod.collapse [symmetric] assms])
  show "caused_by (revive_events n token (subscriptions (db w))) (db w) (db (snd (ReactivateInTx E ext n token w)))"
    by (rule ReactivateInTx_registry [OF prod.collapse [symmetric] assms(1)])
  show "\<forall>w'\<in>{drain (main_relay E i) w, scan (main_scanner E tr c ca base i) w,
         snd (handle E (NewConsumer s (redisDeduper E t)) d w)}.
        registry_of (subscriptions (db w')) = registry_of (subscriptions (db w))"
    using drain_subs main_scan.scan_frame handle_db [OF prod.collapse [symmetric]] by auto
qed

text \<open>Reviving a row that is not failed, as a request that lost a race would: the registry does not move.\<close>

theorem registry_refined_witness:
  "registry_of (subscriptions (db (snd (ReactivateInTx calm_env OnDB 1 ''new'' sample_world)))) (''a@b.co'', ''o/r'') =
     Some (StatusPending, False, ''tok'')"
proof -
  let ?d = "db sample_world" and ?d' = "db (snd (ReactivateInTx calm_env OnDB 1 ''new'' sample_world))"
  have reg: "registry_of (subscriptions ?d) = [(''a@b.co'', ''o/r'') \<mapsto> (StatusPending, False, ''tok'')]"
    by (simp add: registry_of_def entry_of_def sample_defs)
  have "caused_by (revive_events 1 ''new'' (subscriptions ?d)) ?d ?d'"
    by (rule registry_refined [OF sample_world_ok(1) calm_uuid_column(1), THEN conjunct2, THEN conjunct2, THEN conjunct2, THEN conjunct1])
  then obtain es where es: "revive_events 1 ''new'' (subscriptions ?d) es" "reg_run es (registry_of (subscriptions ?d)) = Some (registry_of (subscriptions ?d'))"
    by (auto simp: caused_by_def moves_def)
  then have "es = [] \<or> (\<exists>k. es = [Revived k ''new''])" by (auto simp: revive_events_def)
  then have "registry_of (subscriptions ?d') = registry_of (subscriptions ?d)"
    using es(2) by (elim disjE exE) (auto simp: reg split: option.splits if_splits sub_status.splits)
  then show ?thesis unfolding reg by (simp del: One_nat_def)
qed

section \<open>The AMQP topology\<close>

text \<open>
  C16: With a broker that routes direct and fanout exchanges and dead-letters rejected messages as
  AMQP says, the declarations of the two consumers connect the processes: a confirmation or
  release command published to the shared exchange reaches the notifier's queue, one that is
  rejected there reaches the dead-letter queue, and a saga reply reaches the monolith's queue.
\<close>

theorem topology_delivers:
  assumes "amqp_routing routes dead_letters"
    and "notifier_declareTopology E v = (Inr (), v')" and "reply_declareTopology F w = (Inr (), w')"
    and "declared (hist v') \<union> declared (hist w') \<subseteq> set D" and "only_declared D"
  shows "(\<forall>k\<in>{RoutingConfirm, RoutingRelease}. queueName \<in> routes D ExchangeName k \<and>
       (\<exists>x. dead_letters D queueName = Some x \<and> dlqName \<in> routes D x k)) \<and>
     replyQueueName \<in> routes D ExchangeName RoutingSagaReply"
  using commands_routed [OF assms(1,2) _ assms(5)] replies_routed [OF assms(1,3)] assms(4) by simp

theorem topology_delivers_witness:
  "\<exists>D. queueName \<in> routes_of D ExchangeName RoutingConfirm \<and> replyQueueName \<in> routes_of D ExchangeName RoutingSagaReply"
proof -
  let ?v = "snd (notifier_declareTopology calm_env init_world)" and ?w = "snd (reply_declareTopology calm_env init_world)"
  have runs: "notifier_declareTopology calm_env init_world = (Inr (), ?v)" "reply_declareTopology calm_env init_world = (Inr (), ?w)"
    by (simp_all add: notifier_declareTopology_def reply_declareTopology_def try_call_def do_setup_def calm_env_def)
  define D where "D = [c. Setup c ok \<leftarrow> hist ?v @ hist ?w]"
  have "declared (hist ?v) \<union> declared (hist ?w) \<subseteq> set D" by (force simp: D_def declared_def)
  moreover have "only_declared D"
    by (simp add: D_def only_declared_def notifier_declareTopology_def reply_declareTopology_def try_call_def do_setup_def calm_env_def
        init_world_def declare_exchange_def queueName_def dlqName_def replyQueueName_def)
  ultimately show ?thesis using topology_delivers [OF routes_of_routing runs] by blast
qed

section \<open>Starting and stopping\<close>

text \<open>
  C37: \<open>main.go\<close>'s \<open>run\<close> either does not start, with an unclassified error and a required call that
  failed or an unknown transport as the cause, or it serves with the transport the configuration names
  and closes what it opened in the reverse order. What a start does to the database is the backfill
  of the fifth migration (every confirmed row gets the status confirmed) or nothing, and the backfill
  only if \<open>m.Up()\<close> was called; it keeps the schema's constraints, and it stands even if the start fails
  later. Everything else is done by the started process. When the required calls succeed (Redis is none of
  them), the transport is a known one and it is a signal that stops it, it ends without error. The
  notifier's \<open>run\<close> starts nothing when its Redis address is unusable, closes the Redis client last, and
  ends without error only after a signal, having stopped the gRPC server and then the HTTP server.
\<close>

theorem startup_decides:
  assumes "main_run E ev na jobs stop w = (r, w')"
  shows "(not_started (Load ev) w r w' \<or>
      (\<exists>ca tr w1. db w1 \<in> {db w, migration_up 5 (db w)} \<and> grows (db w) (db w1) \<and>
        db w' = db (jobs (wire E (Load ev) ca tr) w1) \<and> started_as (Load ev) na tr \<and>
        ends_with (closers (wire E (Load ev) ca tr)) (hist w'))) \<and>
     ((\<forall>h c. required c \<longrightarrow> setup_Do E h c = None) \<and> known_transport (Load ev) \<and> stop = Signalled \<longrightarrow>
      exit_status r = 0 \<and> (\<exists>ca tr w1. db w1 \<in> {db w, migration_up 5 (db w)} \<and>
        db w' = db (jobs (wire E (Load ev) ca tr) w1))) \<and>
     notifier_ends E ev njobs nstop v (fst (notifier_run E ev njobs nstop v)) (snd (notifier_run E ev njobs nstop v))"
proof (intro conjI impI)
  show "notifier_ends E ev njobs nstop v (fst (notifier_run E ev njobs nstop v)) (snd (notifier_run E ev njobs nstop v))"
    by (rule notifier_run_ends [OF prod.collapse [symmetric]])
next
  assume up: "(\<forall>h c. required c \<longrightarrow> setup_Do E h c = None) \<and> known_transport (Load ev) \<and> stop = Signalled"
  then obtain w1 ca tr w2 where "main_run E ev na jobs Signalled w = (Inr (), w2)" "db w1 \<in> {db w, migration_up 5 (db w)}"
    "db w2 = db (jobs (wire E (Load ev) ca tr) w1)" using main_run_up [of E ev na jobs w] by blast
  then show "exit_status r = 0" "\<exists>ca tr w1. db w1 \<in> {db w, migration_up 5 (db w)} \<and> db w' = db (jobs (wire E (Load ev) ca tr) w1)"
    using up assms by (auto simp: exit_status_def)
next
  have "grows (db w) d" if "d \<in> {db w, migration_up 5 (db w)}" for d using that migration_up_grows by auto
  then show "not_started (Load ev) w r w' \<or> (\<exists>ca tr w1. db w1 \<in> {db w, migration_up 5 (db w)} \<and> grows (db w) (db w1) \<and>
        db w' = db (jobs (wire E (Load ev) ca tr) w1) \<and> started_as (Load ev) na tr \<and>
        ends_with (closers (wire E (Load ev) ca tr)) (hist w'))"
    using main_run_result [OF assms] by meson
qed

text \<open>A start on the default settings, with the database refusing connections or without Redis.\<close>

definition db_down :: env where
  "db_down = calm_env\<lparr>setup_Do := (\<lambda>_ c. case c of DbConnect _ \<Rightarrow> Some ''refused'' | _ \<Rightarrow> None)\<rparr>"

definition redis_down :: env where
  "redis_down = calm_env\<lparr>setup_Do := (\<lambda>_ c. case c of RedisPing \<Rightarrow> Some ''refused'' | _ \<Rightarrow> None)\<rparr>"

lemma default_transport: "ConfirmationTransport (Load (\<lambda>_. None)) = ''broker''"
  by (simp add: Load_def getEnv_def)

theorem startup_decides_witness:
  "(\<exists>r w'. main_run db_down (\<lambda>_. None) sample_na (\<lambda>_ w. w) Signalled init_world = (r, w') \<and> not_started (Load (\<lambda>_. None)) init_world r w') \<and>
   (\<exists>r w'. main_run redis_down (\<lambda>_. None) sample_na (\<lambda>_ w. w) Signalled init_world = (r, w') \<and> exit_status r = 0)"
proof (rule conjI)
  let ?run = "main_run db_down (\<lambda>_. None) sample_na (\<lambda>_ w. w) Signalled init_world"
  have "hist (snd ?run) = [Setup (DbConnect (DatabaseURL (Load (\<lambda>_. None)))) False]"
    by (simp add: main_run_def Let_def try_call_def do_setup_def db_down_def init_world_def)
  then have "\<not> ends_with (closers m) (hist (snd ?run))" for m
    using ends_with_length [of "closers m" "hist (snd ?run)"] by (auto simp: closers_def)
  moreover obtain r w' where run: "?run = (r, w')" by (cases ?run)
  ultimately show "\<exists>r w'. ?run = (r, w') \<and> not_started (Load (\<lambda>_. None)) init_world r w'"
    using startup_decides [OF run] by auto
next
  let ?run = "main_run redis_down (\<lambda>_. None) sample_na (\<lambda>_ w. w) Signalled init_world"
  have "required c \<Longrightarrow> setup_Do redis_down h c = None" for h c
    by (cases c) (simp_all add: redis_down_def)
  moreover obtain r w' where run: "?run = (r, w')" by (cases ?run)
  ultimately show "\<exists>r w'. ?run = (r, w') \<and> exit_status r = 0"
    using startup_decides [OF run] default_transport by (auto simp: known_transport_def)
qed

section \<open>The background jobs\<close>

text \<open>
  C31: When the background jobs run. The scanner, the relay and the sweeper that \<open>main.go\<close> wires get the
  configured number of seconds or milliseconds, exactly, as long as the product fits 64 bits, and 600 s,
  1000 ms and 60 s when their variable is unset or no integer. Each job runs once at once; then, if its
  number is positive, once for every tick until it is told to stop; if the number is zero or negative, it
  panics after that first run. The product wraps beyond that range: 9223372037 seconds are a negative
  duration, and the scanner and the sweeper panic.
\<close>

theorem interval_starts:
  assumes "m = wire E (Load ev) ca tr"
    and "\<bar>ScanIntervalSecs (Load ev)\<bar> \<le> 9223372036" and "\<bar>SagaSweepIntervalSecs (Load ev)\<bar> \<le> 9223372036"
    and "\<bar>OutboxPollIntervalMs (Load ev)\<bar> \<le> 9223372036854"
  shows "sint (sc_interval (mo_scanner m)) = getEnvInt ev ''SCAN_INTERVAL_SECONDS'' 600 * 1000000000 \<and>
     sint (relay_interval (mo_relay m)) = getEnvInt ev ''OUTBOX_POLL_INTERVAL_MS'' 1000 * 1000000 \<and>
     sint (fst (mo_sweep m)) = getEnvInt ev ''SAGA_SWEEP_INTERVAL_SECONDS'' 60 * 1000000000 \<and>
     Scanner_Start (mo_scanner m) ts w = rounds (getEnvInt ev ''SCAN_INTERVAL_SECONDS'' 600) (scan (mo_scanner m)) ts w \<and>
     Relay_Run (mo_relay m) ts w = rounds (getEnvInt ev ''OUTBOX_POLL_INTERVAL_MS'' 1000) (drain (mo_relay m)) ts w \<and>
     Sweeper_Run E (MarkFailed E) (fst (mo_sweep m)) (snd (mo_sweep m)) ts w =
       rounds (getEnvInt ev ''SAGA_SWEEP_INTERVAL_SECONDS'' 60) (\<lambda>v. snd (Sweep E (MarkFailed E) (snd (mo_sweep m)) v)) ts w \<and>
     (ScanIntervalSecs cfg = 9223372037 \<longrightarrow> fst (Scanner_Start (mo_scanner (wire E cfg ca tr)) ts w) = Panicked) \<and>
     (SagaSweepIntervalSecs cfg = 9223372037 \<longrightarrow> fst (Sweeper_Run E (MarkFailed E) (sweep_interval cfg) st ts w) = Panicked)"
proof -
  have iv: "sc_interval (mo_scanner m) = scan_interval (Load ev)" "relay_interval (mo_relay m) = outbox_interval (Load ev)"
    "fst (mo_sweep m) = sweep_interval (Load ev)" "sc_interval (mo_scanner (wire E cfg ca tr)) = scan_interval cfg"
    by (simp_all add: assms(1) wire_def main_scanner_def main_relay_def NewRelay_def Let_def)
  have n: "ScanIntervalSecs (Load ev) = getEnvInt ev ''SCAN_INTERVAL_SECONDS'' 600"
    "SagaSweepIntervalSecs (Load ev) = getEnvInt ev ''SAGA_SWEEP_INTERVAL_SECONDS'' 60"
    "OutboxPollIntervalMs (Load ev) = getEnvInt ev ''OUTBOX_POLL_INTERVAL_MS'' 1000"
    by (simp_all add: Load_def)
  have s: "sint (scan_interval (Load ev)) = getEnvInt ev ''SCAN_INTERVAL_SECONDS'' 600 * 1000000000"
    "sint (sweep_interval (Load ev)) = getEnvInt ev ''SAGA_SWEEP_INTERVAL_SECONDS'' 60 * 1000000000"
    "sint (outbox_interval (Load ev)) = getEnvInt ev ''OUTBOX_POLL_INTERVAL_MS'' 1000 * 1000000"
    using seconds_exact [OF assms(2)] seconds_exact [OF assms(3)] milliseconds_exact [OF assms(4)]
    by (simp_all add: scan_interval_def sweep_interval_def outbox_interval_def n)
  have over: "sint (seconds 9223372037) \<le> 0" by (rule seconds_wrap)
  show ?thesis
    unfolding Scanner_Start_def Relay_Run_def Sweeper_Run_def iv
    using s over by (auto simp: ticker_run_rounds ticker_run_starts scan_interval_def [of cfg] sweep_interval_def [of cfg])
qed

theorem interval_starts_witness:
  "fst (Relay_Run (mo_relay (wire calm_env (Load (\<lambda>k. if k = ''OUTBOX_POLL_INTERVAL_MS'' then Some ''-5'' else None)) None None)) [Tick] init_world) = Panicked \<and>
   sint (sc_interval (mo_scanner (wire calm_env (Load (\<lambda>_. None)) None None))) = 600000000000"
proof (rule conjI)
  let ?ev = "\<lambda>k. if k = ''OUTBOX_POLL_INTERVAL_MS'' then Some ''-5'' else None"
  have "Atoi ''-5'' = Some (-5)" by (simp add: Atoi_def digit_def Let_def)
  then have "getEnvInt ?ev ''OUTBOX_POLL_INTERVAL_MS'' 1000 = -5" by (simp add: getEnvInt_def)
  moreover from this have "\<bar>ScanIntervalSecs (Load ?ev)\<bar> \<le> 9223372036" "\<bar>SagaSweepIntervalSecs (Load ?ev)\<bar> \<le> 9223372036"
    "\<bar>OutboxPollIntervalMs (Load ?ev)\<bar> \<le> 9223372036854" by (simp_all add: Load_def) (simp_all add: getEnvInt_def)
  ultimately show "fst (Relay_Run (mo_relay (wire calm_env (Load ?ev) None None)) [Tick] init_world) = Panicked"
    using interval_starts [OF refl, of ?ev calm_env None None "[Tick]" init_world] by (simp add: rounds_def)
next
  have "\<bar>ScanIntervalSecs (Load (\<lambda>_. None))\<bar> \<le> 9223372036" "\<bar>SagaSweepIntervalSecs (Load (\<lambda>_. None))\<bar> \<le> 9223372036"
    "\<bar>OutboxPollIntervalMs (Load (\<lambda>_. None))\<bar> \<le> 9223372036854" by (simp_all add: Load_def getEnvInt_def)
  from interval_starts [OF refl this, of calm_env None None]
  show "sint (sc_interval (mo_scanner (wire calm_env (Load (\<lambda>_. None)) None None))) = 600000000000"
    by (simp add: getEnvInt_def)
qed

end
